(* ===== verification/Prelude.thy ===== *)
theory Prelude
  imports Main "HOL-Library.Sublist"
begin

text \<open>
  Shared vocabulary of the development: C++ strings as \<open>char list\<close>s, the members of
  \<open>std::string\<close> the sources call (\<open>find\<close>, \<open>substr\<close>, \<open>rfind(p, 0)\<close>), the character
  classes of the "C" locale, decimal printing (\<open>std::to_string\<close>) and decimal parsing
  (\<open>std::stoi\<close>, \<open>std::strtoll\<close>), with the lemmas every component uses about them.
  Nothing here models code of the repository: these are the library calls it makes.
\<close>

named_theorems text_simps \<open>evaluation rules for string operations\<close>

section \<open>Strings\<close>

type_synonym path = string

abbreviation npos :: "nat option" where
  "npos \<equiv> None"

definition starts_with :: "string \<Rightarrow> string \<Rightarrow> bool" where
  "starts_with s p \<longleftrightarrow> take (length p) s = p"

lemma starts_with_prefix: "starts_with s p \<longleftrightarrow> prefix p s"
  unfolding starts_with_def prefix_def by (metis append_eq_conv_conj append_take_drop_id)

lemma starts_with_append [simp]: "starts_with (p @ s) p"
  by (simp add: starts_with_def)

lemma starts_with_Nil [simp]: "starts_with s []"
  by (simp add: starts_with_def)

lemma starts_withE:
  assumes "starts_with s p"
  obtains r where "s = p @ r"
  using assms unfolding starts_with_prefix prefix_def by blast

text \<open>\<open>std::string::find\<close>: the first position at which the pattern occurs.\<close>

fun find_sub :: "string \<Rightarrow> string \<Rightarrow> nat option" where
  "find_sub pat [] = (if pat = [] then Some 0 else npos)"
| "find_sub pat (c # cs) =
     (if starts_with (c # cs) pat then Some 0 else map_option Suc (find_sub pat cs))"

definition str_find :: "string \<Rightarrow> string \<Rightarrow> nat \<Rightarrow> nat option" where
  "str_find s pat pos =
     (if pos \<le> length s then map_option ((+) pos) (find_sub pat (drop pos s)) else npos)"

definition contains :: "string \<Rightarrow> string \<Rightarrow> bool" where
  "contains s pat \<longleftrightarrow> find_sub pat s \<noteq> npos"

lemma find_sub_Some:
  "find_sub pat s = Some i \<Longrightarrow> i + length pat \<le> length s \<and> take (length pat) (drop i s) = pat"
proof (induction pat s arbitrary: i rule: find_sub.induct)
  case (1 pat)
  then show ?case by (auto split: if_splits)
next
  case (2 pat c cs)
  show ?case
  proof (cases "starts_with (c # cs) pat")
    case True
    with "2.prems" have "i = 0" by simp
    from True obtain r where "c # cs = pat @ r" by (elim starts_withE)
    with \<open>i = 0\<close> show ?thesis
      by (metis add_0 append_eq_conv_conj drop0 length_append le_add1)
  next
    case False
    with "2.prems" obtain j where "find_sub pat cs = Some j" "i = Suc j" by auto
    with "2.IH" [OF False] show ?thesis by simp
  qed
qed

lemma find_sub_minimal:
  "find_sub pat s = Some i \<Longrightarrow> j < i \<Longrightarrow> \<not> starts_with (drop j s) pat"
proof (induction pat s arbitrary: i j rule: find_sub.induct)
  case (1 pat)
  then show ?case by (auto split: if_splits)
next
  case (2 pat c cs)
  then show ?case by (cases j) (auto split: if_splits)
qed

lemma find_sub_None:
  "find_sub pat s = None \<longleftrightarrow> \<not> sublist pat s"
proof (induction pat s rule: find_sub.induct)
  case (1 pat)
  then show ?case by simp
next
  case (2 pat c cs)
  then show ?case by (auto simp: starts_with_prefix sublist_Cons_right)
qed

lemma contains_sublist: "contains s pat \<longleftrightarrow> sublist pat s"
  by (simp add: contains_def find_sub_None)

lemma find_sub_single_notin: "c \<notin> set xs \<Longrightarrow> find_sub [c] (xs @ c # ys) = Some (length xs)"
  by (induction xs) (auto simp: starts_with_def)

lemma find_sub_single_None: "find_sub [c] xs = None \<longleftrightarrow> c \<notin> set xs"
  by (induction xs) (auto simp: starts_with_def)

lemma str_find_bounds:
  "str_find s pat pos = Some i \<Longrightarrow> pos \<le> i \<and> i + length pat \<le> length s"
  unfolding str_find_def by (auto split: if_splits dest: find_sub_Some)

text \<open>
  \<open>std::string::substr(pos, n)\<close>. The library throws \<open>out_of_range\<close> for \<open>pos > size()\<close>;
  every call in the sources has its position within the string (a position returned by
  \<open>find\<close>, or guarded by a size test), so the model needs no error case.
\<close>

definition substr :: "string \<Rightarrow> nat \<Rightarrow> nat \<Rightarrow> string" where
  "substr s pos n = take n (drop pos s)"

definition substr_from :: "string \<Rightarrow> nat \<Rightarrow> string" where
  "substr_from s pos = drop pos s"

section \<open>Character classes of the C locale\<close>

definition isspace :: "char \<Rightarrow> bool" where
  "isspace c \<longleftrightarrow> (let n = of_char c :: nat in n = 32 \<or> (9 \<le> n \<and> n \<le> 13))"

definition tolower :: "char \<Rightarrow> char" where
  "tolower c = (let n = of_char c :: nat in if 65 \<le> n \<and> n \<le> 90 then char_of (n + 32) else c)"

definition isdigit :: "char \<Rightarrow> bool" where
  "isdigit c \<longleftrightarrow> (let n = of_char c :: nat in 48 \<le> n \<and> n \<le> 57)"

definition digit_val :: "char \<Rightarrow> nat" where
  "digit_val c = of_char c - 48"

definition digit_char :: "nat \<Rightarrow> char" where
  "digit_char d = char_of (48 + d)"

lemma of_char_digit_char [simp]: "d < 10 \<Longrightarrow> (of_char (digit_char d) :: nat) = 48 + d"
  by (simp add: digit_char_def of_char_of)

lemma isdigit_digit_char [simp]: "d < 10 \<Longrightarrow> isdigit (digit_char d)"
  by (simp add: isdigit_def Let_def)

lemma digit_val_digit_char [simp]: "d < 10 \<Longrightarrow> digit_val (digit_char d) = d"
  by (simp add: digit_val_def)

lemma isdigit_not_isspace: "isdigit c \<Longrightarrow> \<not> isspace c"
  by (auto simp: isdigit_def isspace_def Let_def)

lemma isdigit_simps:
  "isdigit c \<Longrightarrow> c \<noteq> CHR ''-''" "isdigit c \<Longrightarrow> c \<noteq> CHR ''+''"
  by (auto simp: isdigit_def)

section \<open>Decimal numbers\<close>

text \<open>\<open>std::to_string\<close> on a non-negative and on a signed integer.\<close>

fun dec_nat :: "nat \<Rightarrow> string" where
  "dec_nat n = (if n < 10 then [digit_char n] else dec_nat (n div 10) @ [digit_char (n mod 10)])"

declare dec_nat.simps [simp del]

definition dec_int :: "int \<Rightarrow> string" where
  "dec_int i = (if i < 0 then CHR ''-'' # dec_nat (nat (- i)) else dec_nat (nat i))"

lemma dec_nat_digits: "c \<in> set (dec_nat n) \<Longrightarrow> isdigit c"
proof (induction n rule: dec_nat.induct)
  case (1 n)
  show ?case
  proof (cases "n < 10")
    case True
    with "1.prems" show ?thesis by (simp add: dec_nat.simps [of n])
  next
    case False
    with 1 show ?thesis by (auto simp: dec_nat.simps [of n])
  qed
qed

lemma dec_nat_nonempty [simp]: "dec_nat n \<noteq> []"
  by (subst dec_nat.simps) simp

text \<open>The value of a digit string, read left to right with an accumulator.\<close>

definition dec_val :: "nat \<Rightarrow> string \<Rightarrow> nat" where
  "dec_val acc s = foldl (\<lambda>v c. v * 10 + digit_val c) acc s"

lemma dec_val_append [simp]: "dec_val acc (s @ t) = dec_val (dec_val acc s) t"
  by (simp add: dec_val_def)

lemma dec_val_single [simp]: "dec_val acc [c] = acc * 10 + digit_val c"
  by (simp add: dec_val_def)

lemma dec_val_dec_nat [simp]: "dec_val 0 (dec_nat n) = n"
proof (induction n rule: dec_nat.induct)
  case (1 n)
  show ?case
  proof (cases "n < 10")
    case True
    then show ?thesis by (simp add: dec_nat.simps [of n])
  next
    case False
    with 1 have "dec_val 0 (dec_nat (n div 10)) = n div 10" by simp
    with False show ?thesis by (simp add: dec_nat.simps [of n])
  qed
qed

lemma dec_nat_inject [simp]: "dec_nat m = dec_nat n \<longleftrightarrow> m = n"
  by (metis dec_val_dec_nat)

lemma dec_nat_no_minus: "dec_nat n \<noteq> CHR ''-'' # s"
proof
  assume "dec_nat n = CHR ''-'' # s"
  then have "isdigit (CHR ''-'')" using dec_nat_digits [of "CHR ''-''" n] by simp
  then show False by (simp add: isdigit_def)
qed

lemma dec_int_inject [simp]: "dec_int i = dec_int j \<longleftrightarrow> i = j"
  by (auto simp: dec_int_def dec_nat_no_minus dec_nat_no_minus [symmetric] split: if_splits)

text \<open>
  The common part of \<open>std::stoi\<close>, \<open>std::stol\<close>, \<open>strtoll\<close> and \<open>atoi\<close> in base 10:
  leading white space, an optional sign, then the longest run of digits. \<open>None\<close> is "no
  conversion".
\<close>

definition strip_sign :: "string \<Rightarrow> bool \<times> string" where
  "strip_sign s =
     (case s of
        [] \<Rightarrow> (False, [])
      | c # cs \<Rightarrow> if c = CHR ''-'' then (True, cs) else if c = CHR ''+'' then (False, cs) else (False, s))"

definition scan_int :: "string \<Rightarrow> int option" where
  "scan_int s =
     (let (neg, t) = strip_sign (dropWhile isspace s);
          ds = takeWhile isdigit t
      in if ds = [] then None
         else Some (if neg then - int (dec_val 0 ds) else int (dec_val 0 ds)))"

datatype conv_error = InvalidArgument | OutOfRange

definition int_min :: int where "int_min = - (2 ^ 31)"
definition int_max :: int where "int_max = 2 ^ 31 - 1"
definition int64_min :: int where "int64_min = - (2 ^ 63)"
definition int64_max :: int where "int64_max = 2 ^ 63 - 1"

lemmas int_limits [simp] = int_min_def int_max_def int64_min_def int64_max_def

definition stoi :: "string \<Rightarrow> conv_error + int" where
  "stoi s =
     (case scan_int s of
        None \<Rightarrow> Inl InvalidArgument
      | Some v \<Rightarrow> if int_min \<le> v \<and> v \<le> int_max then Inr v else Inl OutOfRange)"

text \<open>\<open>std::stol\<close> on an LP64 platform, where \<open>long\<close> has 64 bits.\<close>

definition stol :: "string \<Rightarrow> conv_error + int" where
  "stol s =
     (case scan_int s of
        None \<Rightarrow> Inl InvalidArgument
      | Some v \<Rightarrow> if int64_min \<le> v \<and> v \<le> int64_max then Inr v else Inl OutOfRange)"

text \<open>\<open>strtoll\<close> saturates at the limits of \<open>long long\<close> and reads "no conversion" as 0.\<close>

definition strtoll :: "string \<Rightarrow> int" where
  "strtoll s =
     (case scan_int s of
        None \<Rightarrow> 0
      | Some v \<Rightarrow> max int64_min (min int64_max v))"

lemma takeWhile_dec_nat [simp]: "takeWhile isdigit (dec_nat n) = dec_nat n"
  using dec_nat_digits by (simp add: takeWhile_eq_all_conv)

lemma dec_nat_ConsE:
  obtains c cs where "dec_nat n = c # cs" "isdigit c"
  by (metis dec_nat_digits dec_nat_nonempty list.set_intros(1) neq_Nil_conv)

lemma dropWhile_isspace_dec_nat [simp]: "dropWhile isspace (dec_nat n) = dec_nat n"
  by (rule dec_nat_ConsE [of n]) (simp add: isdigit_not_isspace)

lemma strip_sign_dec_nat [simp]: "strip_sign (dec_nat n) = (False, dec_nat n)"
  by (rule dec_nat_ConsE [of n]) (auto simp: strip_sign_def dest: isdigit_simps)

lemma scan_int_dec_int [simp]: "scan_int (dec_int i) = Some i"
proof (cases "i < 0")
  case True
  then have "dropWhile isspace (dec_int i) = CHR ''-'' # dec_nat (nat (- i))"
    by (simp add: dec_int_def isspace_def)
  with True show ?thesis by (simp add: scan_int_def strip_sign_def)
next
  case False
  then show ?thesis by (simp add: scan_int_def dec_int_def)
qed

lemma scan_int_dec_nat [simp]: "scan_int (dec_nat n) = Some (int n)"
  using scan_int_dec_int [of "int n"] by (simp add: dec_int_def)

lemma stoi_dec_int: "int_min \<le> i \<Longrightarrow> i \<le> int_max \<Longrightarrow> stoi (dec_int i) = Inr i"
  by (simp add: stoi_def)

lemma strtoll_dec_int: "int64_min \<le> i \<Longrightarrow> i \<le> int64_max \<Longrightarrow> strtoll (dec_int i) = i"
  by (simp add: strtoll_def)

lemma strtoll_range: "int64_min \<le> strtoll s \<and> strtoll s \<le> int64_max"
  by (auto simp: strtoll_def split: option.split)

lemma stoi_range: "stoi s = Inr v \<Longrightarrow> int_min \<le> v \<and> v \<le> int_max"
  by (auto simp: stoi_def split: option.splits if_splits)

section \<open>File names\<close>

text \<open>
  \<open>fs::path::filename()\<close> and \<open>extension()\<close>: the part after the last slash, and its last
  dot with what follows, unless that dot is the first character.
\<close>

definition filename :: "path \<Rightarrow> string" where
  "filename p = rev (takeWhile (\<lambda>c. c \<noteq> CHR ''/'') (rev p))"

definition parent_path :: "path \<Rightarrow> string" where
  "parent_path p = rev (drop 1 (dropWhile (\<lambda>c. c \<noteq> CHR ''/'') (rev p)))"

definition extension :: "string \<Rightarrow> string" where
  "extension name =
     (let suffix = rev (takeWhile (\<lambda>c. c \<noteq> CHR ''.'') (rev name));
          stem_len = length name - length suffix
      in if name = ''..'' \<or> stem_len \<le> 1 then [] else CHR ''.'' # suffix)"

lemma filename_no_slash [simp]: "CHR ''/'' \<notin> set (filename p)"
  by (auto simp: filename_def dest: set_takeWhileD)

lemma filename_of_join: "CHR ''/'' \<notin> set n \<Longrightarrow> filename (d @ ''/'' @ n) = n"
proof -
  assume "CHR ''/'' \<notin> set n"
  then have "takeWhile (\<lambda>c. c \<noteq> CHR ''/'') (rev n @ CHR ''/'' # rev d) = rev n"
    by (subst takeWhile_append2) auto
  then show ?thesis by (simp add: filename_def)
qed

lemma extension_suffix: "\<exists>r. name = r @ extension name"
proof -
  let ?P = "\<lambda>c. c \<noteq> CHR ''.''"
  let ?t = "takeWhile ?P (rev name)" and ?d = "dropWhile ?P (rev name)"
  have split: "name = rev ?d @ rev ?t"
    by (metis rev_append rev_rev_ident takeWhile_dropWhile_id)
  show ?thesis
  proof (cases ?d)
    case Nil
    then have "length name - length (rev ?t) = 0"
      by (metis append_Nil2 diff_self_eq_0 length_rev takeWhile_dropWhile_id)
    then show ?thesis by (simp add: extension_def)
  next
    case (Cons c cs)
    then have "c = CHR ''.''" using hd_dropWhile [of ?P "rev name"] by auto
    with Cons split have "name = rev cs @ CHR ''.'' # rev ?t" by simp
    then have "extension name = [] \<or> extension name = CHR ''.'' # rev ?t"
      by (simp add: extension_def Let_def)
    with \<open>name = rev cs @ CHR ''.'' # rev ?t\<close> show ?thesis by auto
  qed
qed

end
