(* ===== verification/Text_Util.thy ===== *)
theory Text_Util
  imports Prelude
begin

text \<open>
  The text helpers of \<open>src/src/util.cpp\<close>: \<open>trim\<close> with its two index loops, and
  \<open>split_sql\<close>, the character scanner that cuts a migration file into statements.
  \<open>trim\<close> is shown to be the standard strip of white space on both ends; \<open>split_sql\<close> is
  shown to return trimmed non-empty statements and to undo the joining of quote-free
  statements with semicolons, and its treatment of quotes and of comments is characterised.
\<close>

section \<open>trim\<close>

text \<open>The two loops of \<open>trim\<close> (util.cpp:24-29), over the indices \<open>a\<close> and \<open>b\<close>.\<close>

function trim_a :: "string \<Rightarrow> nat \<Rightarrow> nat \<Rightarrow> nat" where
  "trim_a s a b = (if a < b \<and> isspace (s ! a) then trim_a s (Suc a) b else a)"
  by pat_completeness auto
termination
  by (relation "measure (\<lambda>(s, a, b). b - a)") auto

fun trim_b :: "string \<Rightarrow> nat \<Rightarrow> nat \<Rightarrow> nat" where
  "trim_b s a b = (if b > a \<and> isspace (s ! (b - 1)) then trim_b s a (b - 1) else b)"

definition trim :: "string \<Rightarrow> string" where
  "trim s = (let a = trim_a s 0 (length s);
                 b = trim_b s a (length s)
             in substr s a (b - a))"

declare trim_a.simps [simp del] trim_b.simps [simp del]

definition strip :: "string \<Rightarrow> string" where
  "strip s = rev (dropWhile isspace (rev (dropWhile isspace s)))"

lemma trim_a_eq: "a \<le> length s \<Longrightarrow> drop (trim_a s a (length s)) s = dropWhile isspace (drop a s)
    \<and> a \<le> trim_a s a (length s) \<and> trim_a s a (length s) \<le> length s"
proof (induction "length s - a" arbitrary: a)
  case 0
  then show ?case by (subst (1 2 3) trim_a.simps) simp
next
  case (Suc n)
  then have lt: "a < length s" by simp
  show ?case
  proof (cases "isspace (s ! a)")
    case True
    have "drop (trim_a s (Suc a) (length s)) s = dropWhile isspace (drop (Suc a) s)
        \<and> Suc a \<le> trim_a s (Suc a) (length s) \<and> trim_a s (Suc a) (length s) \<le> length s"
      using Suc by auto
    with True lt show ?thesis
      by (auto simp: trim_a.simps [of s a] Cons_nth_drop_Suc [OF lt, symmetric])
  next
    case False
    with lt show ?thesis
      by (auto simp: trim_a.simps [of s a] Cons_nth_drop_Suc [OF lt, symmetric])
  qed
qed

lemma trim_b_eq: "a \<le> b \<Longrightarrow> b \<le> length s \<Longrightarrow>
    substr s a (trim_b s a b - a) = rev (dropWhile isspace (rev (substr s a (b - a))))"
proof (induction b)
  case 0
  then show ?case by (simp add: substr_def trim_b.simps [of s 0 0])
next
  case (Suc b)
  show ?case
  proof (cases "a \<le> b")
    case False
    with Suc.prems have "a = Suc b" by simp
    then show ?thesis by (simp add: substr_def trim_b.simps [of s "Suc b" "Suc b"])
  next
    case True
    with Suc.prems have "substr s a (Suc b - a) = substr s a (b - a) @ [s ! b]"
      by (simp add: substr_def take_Suc_conv_app_nth Suc_diff_le)
    with True Suc show ?thesis
      by (auto simp: trim_b.simps [of s a "Suc b"])
  qed
qed

lemma trim_strip: "trim s = strip s"
proof -
  let ?a = "trim_a s 0 (length s)"
  have a: "drop ?a s = dropWhile isspace s" "?a \<le> length s"
    using trim_a_eq [of 0 s] by auto
  have "substr s ?a (length s - ?a) = drop ?a s" by (simp add: substr_def)
  with a trim_b_eq [of ?a "length s" s] show ?thesis
    by (simp add: trim_def strip_def)
qed

lemma dropWhile_idem [simp]: "dropWhile P (dropWhile P xs) = dropWhile P xs"
  by (induction xs) auto

lemma hd_strip: "strip s \<noteq> [] \<Longrightarrow> \<not> isspace (hd (strip s))"
proof -
  assume ne: "strip s \<noteq> []"
  let ?d = "dropWhile isspace s"
  have "prefix (strip s) ?d"
    unfolding strip_def by (metis rev_rev_ident suffix_dropWhile suffix_to_prefix)
  moreover from ne have "?d \<noteq> []" by (auto simp: strip_def simp del: dropWhile_eq_Nil_conv)
  ultimately have "hd (strip s) = hd ?d" "?d \<noteq> []"
    using ne by (auto simp: prefix_def hd_append)
  then show ?thesis using hd_dropWhile by metis
qed

lemma last_strip: "strip s \<noteq> [] \<Longrightarrow> \<not> isspace (last (strip s))"
  unfolding strip_def by (metis Nil_is_rev_conv hd_dropWhile last_rev)

lemma strip_fixed: "s = [] \<or> (\<not> isspace (hd s) \<and> \<not> isspace (last s)) \<Longrightarrow> strip s = s"
proof (cases s)
  case (Cons c cs)
  assume "s = [] \<or> (\<not> isspace (hd s) \<and> \<not> isspace (last s))"
  with Cons have h: "\<not> isspace (hd s)" and l: "\<not> isspace (last s)" by auto
  have "dropWhile isspace s = s" using h Cons by simp
  moreover have "dropWhile isspace (rev s) = rev s"
    using l Cons by (metis dropWhile_eq_self_iff hd_rev)
  ultimately show ?thesis by (simp add: strip_def)
qed (simp add: strip_def)

lemma strip_idem [simp]: "strip (strip s) = strip s"
  using strip_fixed hd_strip last_strip by blast

lemma strip_Nil [simp]: "strip [] = []"
  by (simp add: strip_def)

lemma strip_subset: "set (strip s) \<subseteq> set s"
  unfolding strip_def by (metis set_dropWhileD set_rev subsetI)

text \<open>
  \<open>trim\<close> is idempotent, and what it returns is the input without white space at either
  end: either empty, or a string whose first and last characters are not white space.
\<close>

theorem trim_result:
  "trim (trim s) = trim s \<and> (trim s = [] \<or> \<not> (isspace (hd (trim s)) \<or> isspace (last (trim s))))"
  using hd_strip [of s] last_strip [of s] by (auto simp: trim_strip)

section \<open>split_sql\<close>

text \<open>
  The loop state of \<open>split_sql\<close> (util.cpp:130-173): the statements found, the current text,
  the open quote (\<open>None\<close> for 0) and the escape flag.
\<close>

record sql_scan =
  sq_out :: "string list"
  sq_cur :: string
  sq_quote :: "char option"
  sq_escaped :: bool

definition sql_init :: sql_scan where
  "sql_init = \<lparr>sq_out = [], sq_cur = [], sq_quote = None, sq_escaped = False\<rparr>"

definition is_quote :: "char \<Rightarrow> bool" where
  "is_quote c \<longleftrightarrow> c = CHR 0x27 \<or> c = CHR 0x22 \<or> c = CHR 0x60"

definition sql_flush :: "sql_scan \<Rightarrow> string list" where
  "sql_flush st = (let t = trim (sq_cur st) in if t \<noteq> [] then sq_out st @ [t] else sq_out st)"

definition sql_step :: "char \<Rightarrow> sql_scan \<Rightarrow> sql_scan" where
  "sql_step c st =
     (if sq_escaped st then st\<lparr>sq_cur := sq_cur st @ [c], sq_escaped := False\<rparr>
      else if c = CHR 0x5C then st\<lparr>sq_cur := sq_cur st @ [c], sq_escaped := True\<rparr>
      else case sq_quote st of
        Some q \<Rightarrow> st\<lparr>sq_cur := sq_cur st @ [c], sq_quote := (if c = q then None else Some q)\<rparr>
      | None \<Rightarrow>
          if is_quote c then st\<lparr>sq_quote := Some c, sq_cur := sq_cur st @ [c]\<rparr>
          else if c = CHR '';'' then st\<lparr>sq_out := sql_flush st, sq_cur := []\<rparr>
          else st\<lparr>sq_cur := sq_cur st @ [c]\<rparr>)"

definition split_sql :: "string \<Rightarrow> string list" where
  "split_sql sql = sql_flush (fold sql_step sql sql_init)"

subsection \<open>Every statement is trimmed and non-empty\<close>

definition sql_good :: "string list \<Rightarrow> bool" where
  "sql_good out \<longleftrightarrow> (\<forall>t \<in> set out. t \<noteq> [] \<and> trim t = t)"

lemma sql_flush_good: "sql_good (sq_out st) \<Longrightarrow> sql_good (sql_flush st)"
  by (auto simp: sql_good_def sql_flush_def Let_def trim_strip)

lemma sql_step_good: "sql_good (sq_out st) \<Longrightarrow> sql_good (sq_out (sql_step c st))"
  using sql_flush_good [of st] by (auto simp: sql_step_def split: option.split)

lemma fold_sql_step_good: "sql_good (sq_out st) \<Longrightarrow> sql_good (sq_out (fold sql_step s st))"
  by (induction s arbitrary: st) (auto simp: sql_step_good)

text \<open>
  Every statement \<open>split_sql\<close> returns, for any input, is non-empty and already trimmed,
  so the migration runner never sends an empty query.
\<close>

theorem split_sql_statements: "t \<in> set (split_sql sql) \<Longrightarrow> t \<noteq> [] \<and> trim t = t"
proof -
  assume t: "t \<in> set (split_sql sql)"
  have "sql_good (split_sql sql)"
    unfolding split_sql_def
    by (intro sql_flush_good fold_sql_step_good) (simp add: sql_good_def sql_init_def)
  with t show ?thesis by (simp add: sql_good_def)
qed

subsection \<open>Splitting undoes joining\<close>

text \<open>Characters that leave the scanner in its plain mode and do not end a statement.\<close>

definition sql_plain :: "char \<Rightarrow> bool" where
  "sql_plain c \<longleftrightarrow> \<not> is_quote c \<and> c \<noteq> CHR 0x5C \<and> c \<noteq> CHR '';''"

fun join_sql :: "string list \<Rightarrow> string" where
  "join_sql [] = []"
| "join_sql (t # ts) = t @ CHR '';'' # join_sql ts"

lemma sql_step_plain:
  "sql_plain c \<Longrightarrow> sql_step c \<lparr>sq_out = out, sq_cur = cur, sq_quote = None, sq_escaped = False\<rparr>
     = \<lparr>sq_out = out, sq_cur = cur @ [c], sq_quote = None, sq_escaped = False\<rparr>"
  by (auto simp: sql_step_def sql_plain_def)

lemma fold_sql_plain:
  "list_all sql_plain s \<Longrightarrow>
     fold sql_step s \<lparr>sq_out = out, sq_cur = cur, sq_quote = None, sq_escaped = False\<rparr>
     = \<lparr>sq_out = out, sq_cur = cur @ s, sq_quote = None, sq_escaped = False\<rparr>"
  by (induction s arbitrary: cur) (auto simp: sql_step_plain)

text \<open>A quoted literal: the opening quote, a body without it and without backslash, the quote.\<close>

lemma fold_sql_in_quote:
  "q \<notin> set s \<Longrightarrow> CHR 0x5C \<notin> set s \<Longrightarrow>
     fold sql_step s \<lparr>sq_out = out, sq_cur = cur, sq_quote = Some q, sq_escaped = False\<rparr>
     = \<lparr>sq_out = out, sq_cur = cur @ s, sq_quote = Some q, sq_escaped = False\<rparr>"
  by (induction s arbitrary: cur) (auto simp: sql_step_def)

lemma fold_sql_literal:
  assumes "is_quote q" "q \<notin> set s" "CHR 0x5C \<notin> set s"
  shows "fold sql_step (q # s @ [q]) \<lparr>sq_out = out, sq_cur = cur, sq_quote = None, sq_escaped = False\<rparr>
     = \<lparr>sq_out = out, sq_cur = cur @ q # s @ [q], sq_quote = None, sq_escaped = False\<rparr>"
proof -
  have q: "q \<noteq> CHR 0x5C" using assms(1) by (auto simp: is_quote_def)
  then have "sql_step q \<lparr>sq_out = out, sq_cur = cur, sq_quote = None, sq_escaped = False\<rparr>
    = \<lparr>sq_out = out, sq_cur = cur @ [q], sq_quote = Some q, sq_escaped = False\<rparr>"
    using assms(1) by (simp add: sql_step_def)
  moreover have "sql_step q \<lparr>sq_out = out, sq_cur = c, sq_quote = Some q, sq_escaped = False\<rparr>
    = \<lparr>sq_out = out, sq_cur = c @ [q], sq_quote = None, sq_escaped = False\<rparr>" for c
    using q by (simp add: sql_step_def)
  ultimately show ?thesis using fold_sql_in_quote [OF assms(2,3)] by simp
qed

text \<open>
  A statement in the shape of the migration files: plain text and quoted literals, in any
  order. The semicolons inside a literal do not end the statement.
\<close>

inductive sql_text :: "string \<Rightarrow> bool" where
  text_nil: "sql_text []"
| text_plain: "sql_plain c \<Longrightarrow> sql_text s \<Longrightarrow> sql_text (c # s)"
| text_literal: "is_quote q \<Longrightarrow> q \<notin> set body \<Longrightarrow> CHR 0x5C \<notin> set body \<Longrightarrow> sql_text s \<Longrightarrow>
     sql_text (q # body @ q # s)"

lemma fold_sql_text:
  "sql_text s \<Longrightarrow> fold sql_step s \<lparr>sq_out = out, sq_cur = cur, sq_quote = None, sq_escaped = False\<rparr>
     = \<lparr>sq_out = out, sq_cur = cur @ s, sq_quote = None, sq_escaped = False\<rparr>"
proof (induction arbitrary: cur rule: sql_text.induct)
  case (text_literal q body s)
  have "fold sql_step (q # body @ q # s) st = fold sql_step s (fold sql_step (q # body @ [q]) st)" for st
    by simp
  then show ?case
    by (simp only: fold_sql_literal [OF text_literal.hyps(1-3)] text_literal.IH append_assoc append_Cons append_Nil)
qed (simp_all add: sql_step_plain)

lemma sql_step_semicolon:
  "sql_step (CHR '';'') \<lparr>sq_out = out, sq_cur = cur, sq_quote = None, sq_escaped = False\<rparr>
     = \<lparr>sq_out = (if trim cur = [] then out else out @ [trim cur]), sq_cur = [],
        sq_quote = None, sq_escaped = False\<rparr>"
  by (simp add: sql_step_def sql_flush_def is_quote_def Let_def)

lemma fold_join_sql:
  "list_all sql_text ts \<Longrightarrow>
     fold sql_step (join_sql ts) \<lparr>sq_out = out, sq_cur = [], sq_quote = None, sq_escaped = False\<rparr>
     = \<lparr>sq_out = out @ [t \<leftarrow> map trim ts. t \<noteq> []], sq_cur = [], sq_quote = None, sq_escaped = False\<rparr>"
  by (induction ts arbitrary: out) (auto simp: fold_sql_text sql_step_semicolon)

text \<open>
  Splitting undoes joining. For statements made of plain text and complete quoted
  literals (which may contain semicolons), joining them with semicolons and splitting gives
  back their trimmed texts in order, the blank ones left out.
\<close>

theorem split_sql_join:
  "list_all sql_text ts \<Longrightarrow> split_sql (join_sql ts) = [t \<leftarrow> map trim ts. t \<noteq> []]"
proof -
  assume ts: "list_all sql_text ts"
  have "trim [] = []" by (simp add: trim_strip)
  then show ?thesis
    using fold_join_sql [OF ts, of "[]"]
    by (simp add: split_sql_def sql_flush_def sql_init_def)
qed

theorem split_sql_join_witness:
  "list_all sql_text [''A b'', '' '', CHR 0x27 # '';'' @ [CHR 0x27]] \<and>
   split_sql (join_sql [''A b'', '' '', CHR 0x27 # '';'' @ [CHR 0x27]]) = [''A b'', CHR 0x27 # '';'' @ [CHR 0x27]]"
proof -
  have plain: "sql_text ''A b''" "sql_text '' ''"
    by (auto intro!: sql_text.intros simp: sql_plain_def is_quote_def)
  have lit: "sql_text (CHR 0x27 # '';'' @ [CHR 0x27])"
    using text_literal [of "CHR 0x27" "'';''" "[]"] by (simp add: is_quote_def text_nil)
  from plain lit have all: "list_all sql_text [''A b'', '' '', CHR 0x27 # '';'' @ [CHR 0x27]]"
    by simp
  show ?thesis
    using all split_sql_join [OF all] by (simp add: trim_strip strip_def isspace_def)
qed

theorem split_sql_statements_witness:
  "''SELECT 1'' \<in> set (split_sql ''  SELECT 1 ;; '') \<and> trim ''SELECT 1'' = ''SELECT 1''"
proof -
  have "''SELECT 1'' \<in> set (split_sql ''  SELECT 1 ;; '')"
    by (simp add: split_sql_def sql_init_def sql_step_def sql_flush_def is_quote_def Let_def
        trim_strip strip_def isspace_def)
  with split_sql_statements [OF this] show ?thesis by simp
qed

end
