(* ===== verification/Config_Model.thy ===== *)
theory Config_Model
  imports Text_Util
begin

text \<open>
  Configuration: the \<open>Config\<close> struct of \<open>src/src/config.h\<close> as a record with its default
  values, the environment readers and \<open>LoadConfig\<close> of \<open>src/src/config.cpp\<close>, and the
  \<open>.env\<close> loader of \<open>src/src/util.cpp\<close>. The process environment is a partial map from
  names to values. \<open>int\<close> members hold what \<open>std::stoi\<close> returns, so no arithmetic of this
  component can overflow.
\<close>

type_synonym environ = "string \<rightharpoonup> string"

record config =
  db_host :: string
  db_port :: int
  db_user :: string
  db_password :: string
  db_name :: string
  watch_dir :: path
  output_dir :: path
  archive_dir :: path
  db_dir :: path
  cfg_folder_schema :: string
  file_pattern :: string
  converter_engine :: string
  converter_engine_bin :: string
  appdata_dir :: path
  exiftool_bin :: string
  gen_thumb_jpeg :: bool
  def_compression :: string
  def_dng_version :: string
  def_preview_medium :: string
  def_preview_full :: string
  def_jpeg_quality :: int
  def_linear :: bool
  poll_interval_sec :: int
  debounce_sec :: int
  queue_size :: int
  max_converter_workers :: int
  exiftool_daemon :: bool
  dead_letter_max_retries :: int
  fast_fingerprint :: bool
  alert_push_url :: string
  http_port :: int
  rotation_grace_ms :: int
  rotation_mode :: string
  immich_url :: string
  immich_token :: string
  digikam_rescan :: string
  api_token :: string

definition default_config :: config where
  "default_config = \<lparr>
     db_host = ''mariadb'', db_port = 3306, db_user = ''rawimport'', db_password = [],
     db_name = ''rawimport'',
     watch_dir = ''/watch'', output_dir = ''/output'', archive_dir = ''/archive'', db_dir = ''/db'',
     cfg_folder_schema = ''%Y/%m'', file_pattern = ''IMG_{seq}'', converter_engine = ''dnglab'',
     converter_engine_bin = [], appdata_dir = ''/appdata'', exiftool_bin = ''exiftool'',
     gen_thumb_jpeg = False, def_compression = ''lossless'', def_dng_version = ''1.4'',
     def_preview_medium = ''1024x1024'', def_preview_full = ''4000x3000'', def_jpeg_quality = 92,
     def_linear = False,
     poll_interval_sec = 10, debounce_sec = 10, queue_size = 100,
     max_converter_workers = 0, exiftool_daemon = True,
     dead_letter_max_retries = 3, fast_fingerprint = True,
     alert_push_url = [], http_port = 8080,
     rotation_grace_ms = 2000, rotation_mode = ''metadata'', immich_url = [], immich_token = [],
     digikam_rescan = ''touch'',
     api_token = []\<rparr>"

section \<open>Environment readers\<close>

text \<open>The file-local \<open>trim\<close> of config.cpp, written with \<open>find_if_not\<close> from both ends.\<close>

definition cfg_trim :: "string \<Rightarrow> string" where
  "cfg_trim s =
     (let b = length (takeWhile isspace s);
          e = length s - length (takeWhile isspace (rev s))
      in if b = length s then [] else substr s b (e - b))"

definition env_or :: "environ \<Rightarrow> string \<Rightarrow> string \<Rightarrow> string" where
  "env_or env name def =
     (case env name of
        None \<Rightarrow> def
      | Some v \<Rightarrow> let s = cfg_trim v in if s = [] then def else s)"

definition env_bool :: "environ \<Rightarrow> string \<Rightarrow> bool \<Rightarrow> bool" where
  "env_bool env name def =
     (case env name of
        None \<Rightarrow> def
      | Some v \<Rightarrow> let s = map tolower (cfg_trim v)
                  in s = ''1'' \<or> s = ''true'' \<or> s = ''yes'')"

definition env_int :: "environ \<Rightarrow> string \<Rightarrow> int \<Rightarrow> int" where
  "env_int env name def =
     (case env name of
        None \<Rightarrow> def
      | Some v \<Rightarrow> let s = cfg_trim v
                  in if s = [] then def
                     else case stoi s of Inr i \<Rightarrow> i | Inl _ \<Rightarrow> def)"

definition LoadConfig :: "environ \<Rightarrow> config" where
  "LoadConfig env = (let c = default_config in c\<lparr>
     db_host := env_or env ''DB_HOST'' (db_host c),
     db_port := env_int env ''DB_PORT'' (db_port c),
     db_user := env_or env ''DB_USER'' (db_user c),
     db_password := env_or env ''DB_PASSWORD'' (db_password c),
     db_name := env_or env ''DB_NAME'' (db_name c),
     watch_dir := env_or env ''WATCH_DIR'' (watch_dir c),
     output_dir := env_or env ''OUTPUT_DIR'' (output_dir c),
     archive_dir := env_or env ''ARCHIVE_DIR'' (archive_dir c),
     db_dir := env_or env ''DB_DIR'' (db_dir c),
     cfg_folder_schema := env_or env ''FOLDER_SCHEMA'' (cfg_folder_schema c),
     file_pattern := env_or env ''FILE_PATTERN'' (file_pattern c),
     converter_engine := env_or env ''CONVERTER_ENGINE'' (converter_engine c),
     converter_engine_bin := env_or env ''CONVERTER_ENGINE_BIN'' (converter_engine_bin c),
     appdata_dir := env_or env ''APPDATA_DIR'' (appdata_dir c),
     exiftool_bin := env_or env ''EXIFTOOL_BIN'' (exiftool_bin c),
     gen_thumb_jpeg := env_bool env ''GEN_THUMB_JPEG'' (gen_thumb_jpeg c),
     def_compression := env_or env ''DEF_COMPRESSION'' (def_compression c),
     def_dng_version := env_or env ''DEF_DNG_VERSION'' (def_dng_version c),
     def_preview_medium := env_or env ''DEF_PREVIEW_MEDIUM'' (def_preview_medium c),
     def_preview_full := env_or env ''DEF_PREVIEW_FULL'' (def_preview_full c),
     def_jpeg_quality := env_int env ''DEF_JPEG_QUALITY'' (def_jpeg_quality c),
     def_linear := env_bool env ''DEF_LINEAR'' (def_linear c),
     poll_interval_sec :=
       env_int env ''POLL_INTERVAL'' (env_int env ''POLL_INTERVAL_SEC'' (poll_interval_sec c)),
     debounce_sec := env_int env ''DEBOUNCE_SEC'' (debounce_sec c),
     queue_size := env_int env ''QUEUE_SIZE'' (queue_size c),
     max_converter_workers := env_int env ''MAX_CONVERTER_WORKERS'' (max_converter_workers c),
     exiftool_daemon := env_bool env ''EXIFTOOL_DAEMON'' (exiftool_daemon c),
     dead_letter_max_retries := env_int env ''DEAD_LETTER_MAX_RETRIES'' (dead_letter_max_retries c),
     fast_fingerprint := env_bool env ''FAST_FINGERPRINT'' (fast_fingerprint c),
     alert_push_url := env_or env ''ALERT_PUSH_URL'' (alert_push_url c),
     http_port := env_int env ''HTTP_PORT'' (http_port c),
     rotation_grace_ms := env_int env ''ROTATION_GRACE_MS'' (rotation_grace_ms c),
     rotation_mode := env_or env ''ROTATION_MODE'' (rotation_mode c),
     immich_url := env_or env ''IMMICH_URL'' (immich_url c),
     immich_token := env_or env ''IMMICH_TOKEN'' (immich_token c),
     digikam_rescan := env_or env ''DIGIKAM_RESCAN'' (digikam_rescan c),
     api_token := env_or env ''API_TOKEN'' (api_token c)\<rparr>)"

subsection \<open>The two trims agree\<close>

lemma strip_split: "\<exists>a b. s = takeWhile isspace s @ strip s @ b \<and> a = takeWhile isspace s
    \<and> (strip s \<noteq> [] \<longrightarrow> b = rev (takeWhile isspace (rev s)))"
proof -
  let ?d = "dropWhile isspace s"
  let ?b = "rev (takeWhile isspace (rev ?d))"
  have d: "?d = strip s @ ?b"
    unfolding strip_def by (metis rev_append rev_rev_ident takeWhile_dropWhile_id)
  have s: "s = takeWhile isspace s @ strip s @ ?b"
    by (metis d takeWhile_dropWhile_id)
  have "takeWhile isspace (rev s) = takeWhile isspace (rev ?d)" if "strip s \<noteq> []"
  proof -
    have "\<exists>x \<in> set (rev ?d). \<not> isspace x"
      using that unfolding strip_def by (metis Nil_is_rev_conv dropWhile_eq_Nil_conv)
    then have "takeWhile isspace (rev ?d @ rev (takeWhile isspace s)) = takeWhile isspace (rev ?d)"
      by (auto intro: takeWhile_append1)
    then show ?thesis by (metis rev_append takeWhile_dropWhile_id)
  qed
  with s show ?thesis by metis
qed

lemma strip_Nil_iff: "strip s = [] \<longleftrightarrow> takeWhile isspace s = s"
proof -
  have "strip s = [] \<longleftrightarrow> (\<forall>c \<in> set (dropWhile isspace s). isspace c)"
    by (simp add: strip_def)
  also have "\<dots> \<longleftrightarrow> dropWhile isspace s = []"
  proof (cases "dropWhile isspace s")
    case (Cons c cs)
    then have "\<not> isspace c" using hd_dropWhile [of isspace s] by simp
    with Cons show ?thesis by simp
  next
    case Nil
    show ?thesis unfolding Nil by simp
  qed
  finally show ?thesis by (simp add: takeWhile_eq_all_conv)
qed

text \<open>
  The two definitions of \<open>trim\<close> in the program, the index loops of util.cpp and the
  iterator version of config.cpp, compute the same function.
\<close>

theorem cfg_trim_eq_trim: "cfg_trim s = trim s"
proof (cases "strip s = []")
  case True
  then have "length (takeWhile isspace s) = length s" using strip_Nil_iff by metis
  with True show ?thesis by (simp add: cfg_trim_def trim_strip)
next
  case False
  obtain b where s: "s = takeWhile isspace s @ strip s @ b"
      and b: "b = rev (takeWhile isspace (rev s))"
    using strip_split [of s] False by blast
  let ?a = "takeWhile isspace s"
  have len: "length s = length ?a + length (strip s) + length b"
    by (metis s length_append add.assoc)
  have ne: "length ?a \<noteq> length s" using len False by auto
  have "length (takeWhile isspace (rev s)) = length b" using b by simp
  then have "cfg_trim s = take (length (strip s)) (drop (length ?a) s)"
    using len ne False by (simp add: cfg_trim_def substr_def Let_def)
  also have "drop (length ?a) s = strip s @ b"
    by (metis append_eq_conv_conj s)
  finally show ?thesis by (simp add: trim_strip)
qed

section \<open>What LoadConfig promises\<close>

lemma env_empty [simp]:
  "env_or Map.empty n d = d" "env_bool Map.empty n b = b" "env_int Map.empty n i = i"
  by (simp_all add: env_or_def env_bool_def env_int_def)

text \<open>The names \<open>LoadConfig\<close> reads.\<close>

definition config_keys :: "string list" where
  "config_keys =
     [''DB_HOST'', ''DB_PORT'', ''DB_USER'', ''DB_PASSWORD'', ''DB_NAME'', ''WATCH_DIR'',
      ''OUTPUT_DIR'', ''ARCHIVE_DIR'', ''DB_DIR'', ''FOLDER_SCHEMA'', ''FILE_PATTERN'',
      ''CONVERTER_ENGINE'', ''CONVERTER_ENGINE_BIN'', ''APPDATA_DIR'', ''EXIFTOOL_BIN'',
      ''GEN_THUMB_JPEG'', ''DEF_COMPRESSION'', ''DEF_DNG_VERSION'', ''DEF_PREVIEW_MEDIUM'',
      ''DEF_PREVIEW_FULL'', ''DEF_JPEG_QUALITY'', ''DEF_LINEAR'', ''POLL_INTERVAL'',
      ''POLL_INTERVAL_SEC'', ''DEBOUNCE_SEC'', ''QUEUE_SIZE'', ''MAX_CONVERTER_WORKERS'',
      ''EXIFTOOL_DAEMON'', ''DEAD_LETTER_MAX_RETRIES'', ''FAST_FINGERPRINT'', ''ALERT_PUSH_URL'',
      ''HTTP_PORT'', ''ROTATION_GRACE_MS'', ''ROTATION_MODE'', ''IMMICH_URL'', ''IMMICH_TOKEN'',
      ''DIGIKAM_RESCAN'', ''API_TOKEN'']"

lemma env_reader_cong:
  "env n = env' n \<Longrightarrow> env_or env n d = env_or env' n d"
  "env n = env' n \<Longrightarrow> env_bool env n b = env_bool env' n b"
  "env n = env' n \<Longrightarrow> env_int env n i = env_int env' n i"
  by (simp_all add: env_or_def env_bool_def env_int_def)

lemma LoadConfig_cong:
  assumes "\<forall>k \<in> set config_keys. env k = env' k"
  shows "LoadConfig env = LoadConfig env'"
  using assms unfolding config_keys_def LoadConfig_def Let_def
  by (simp add: env_or_def env_bool_def env_int_def)

text \<open>
  Variables \<open>LoadConfig\<close> does not read have no effect; in particular the documented
  \<open>PORT\<close> (README and .env.example) never changes the HTTP port.
\<close>

theorem LoadConfig_ignores_PORT: "LoadConfig (env(''PORT'' \<mapsto> v)) = LoadConfig env"
  by (rule LoadConfig_cong) (simp add: config_keys_def)

lemma env_int_range:
  "int_min \<le> d \<Longrightarrow> d \<le> int_max \<Longrightarrow> int_min \<le> env_int env n d \<and> env_int env n d \<le> int_max"
  using stoi_range by (auto simp: env_int_def Let_def simp del: int_limits split: option.split sum.split)

lemma env_int_decimal:
  assumes "env n = Some (dec_int i)" "int_min \<le> i" "i \<le> int_max"
  shows "env_int env n d = i"
proof -
  have "\<not> isspace (last (dec_int i))" "\<not> isspace (hd (dec_int i))" "dec_int i \<noteq> []"
    using dec_nat_digits [of _ "nat i"] dec_nat_digits [of _ "nat (- i)"] isdigit_not_isspace
    by (auto simp: dec_int_def isspace_def)
  then have "cfg_trim (dec_int i) = dec_int i"
    by (simp add: cfg_trim_eq_trim trim_strip strip_fixed)
  then show ?thesis
    using assms \<open>dec_int i \<noteq> []\<close> by (simp add: env_int_def stoi_dec_int)
qed

text \<open>
  Integer settings round-trip through the environment: a variable holding the decimal
  text of any 32-bit value is read back as that value, and \<open>POLL_INTERVAL\<close> set this way wins
  over the legacy \<open>POLL_INTERVAL_SEC\<close>.
\<close>

theorem LoadConfig_poll_interval:
  assumes "int_min \<le> i" "i \<le> int_max" "env ''POLL_INTERVAL'' = Some (dec_int i)"
  shows "poll_interval_sec (LoadConfig env) = i"
  using assms by (simp add: LoadConfig_def env_int_decimal del: int_limits)

theorem LoadConfig_poll_interval_witness:
  "poll_interval_sec (LoadConfig [''POLL_INTERVAL'' \<mapsto> ''25'', ''POLL_INTERVAL_SEC'' \<mapsto> ''7'']) = 25"
proof -
  have "dec_int 25 = ''25''" by code_simp
  then show ?thesis
    using LoadConfig_poll_interval [of 25 "[''POLL_INTERVAL'' \<mapsto> ''25'', ''POLL_INTERVAL_SEC'' \<mapsto> ''7'']"]
    by simp
qed

text \<open>
  With no variable set, \<open>LoadConfig\<close> returns exactly the defaults of config.h.
\<close>

theorem LoadConfig_defaults: "LoadConfig Map.empty = default_config"
  by (simp add: LoadConfig_def default_config_def)

text \<open>
  The readers of the same names that util.cpp exports: \<open>env_or\<close> does not trim, and
  \<open>env_bool\<close> does not trim either.
\<close>

definition util_env_or :: "environ \<Rightarrow> string \<Rightarrow> string \<Rightarrow> string" where
  "util_env_or env key def = (case env key of None \<Rightarrow> def | Some v \<Rightarrow> if v = [] then def else v)"

definition util_env_bool :: "environ \<Rightarrow> string \<Rightarrow> bool \<Rightarrow> bool" where
  "util_env_bool env key def =
     (case env key of
        None \<Rightarrow> def
      | Some v \<Rightarrow> let s = map tolower v in s = ''1'' \<or> s = ''true'' \<or> s = ''yes'')"

text \<open>
  A boolean variable that is set to anything but 1, true or yes (in any case) reads as
  false, also when its default is true: the header's "default if unset/invalid" holds for
  unset variables only.
\<close>

theorem env_bool_invalid_is_false:
  assumes "env k = Some v" "map tolower v \<notin> {''1'', ''true'', ''yes''}" "v = trim v"
  shows "\<not> util_env_bool env k True \<and> \<not> env_bool env k True"
  using assms by (simp add: util_env_bool_def env_bool_def cfg_trim_eq_trim Let_def)

theorem env_bool_invalid_is_false_witness:
  "\<not> util_env_bool [''FAST_FINGERPRINT'' \<mapsto> ''on''] ''FAST_FINGERPRINT'' True
   \<and> \<not> env_bool [''FAST_FINGERPRINT'' \<mapsto> ''on''] ''FAST_FINGERPRINT'' True"
proof -
  have "map tolower ''on'' \<notin> {''1'', ''true'', ''yes''}" "''on'' = trim ''on''"
    by (simp_all add: tolower_def trim_strip strip_def isspace_def)
  then show ?thesis
    using env_bool_invalid_is_false [of "[''FAST_FINGERPRINT'' \<mapsto> ''on'']" "''FAST_FINGERPRINT''" "''on''"]
    by simp
qed

section \<open>The .env loader\<close>

text \<open>
  \<open>std::getline\<close> over the whole file: the lines without their newline; a file ending in a
  newline has no further empty line. C strings stop at the first NUL byte, which matters for
  \<open>k.c_str()\<close> and \<open>v.c_str()\<close>. \<open>setenv\<close> rejects an empty name.
\<close>

fun getlines_from :: "string \<Rightarrow> string \<Rightarrow> string list" where
  "getlines_from cur [] = (if cur = [] then [] else [cur])"
| "getlines_from cur (c # cs) =
     (if c = CHR ''\<newline>'' then cur # getlines_from [] cs else getlines_from (cur @ [c]) cs)"

definition getlines :: "string \<Rightarrow> string list" where
  "getlines s = getlines_from [] s"

definition c_str :: "string \<Rightarrow> string" where
  "c_str s = takeWhile (\<lambda>c. c \<noteq> CHR 0x00) s"

definition setenv_keep :: "environ \<Rightarrow> string \<Rightarrow> string \<Rightarrow> environ" where
  "setenv_keep env k v = (if k = [] \<or> env k \<noteq> None then env else env(k \<mapsto> v))"

definition is_str_quote :: "char \<Rightarrow> bool" where
  "is_str_quote c \<longleftrightarrow> c = CHR 0x22 \<or> c = CHR 0x27"

text \<open>The value's surrounding quotes, dropped independently at the two ends (util.cpp:56-57).\<close>

definition unquote_front :: "string \<Rightarrow> string" where
  "unquote_front v = (if v \<noteq> [] \<and> is_str_quote (hd v) then substr_from v 1 else v)"

definition unquote_back :: "string \<Rightarrow> string" where
  "unquote_back v = (if v \<noteq> [] \<and> is_str_quote (last v) then substr v 0 (length v - 1) else v)"

text \<open>What one line of the file asks for: nothing, or a name and a value.\<close>

definition dotenv_entry :: "string \<Rightarrow> (string \<times> string) option" where
  "dotenv_entry raw =
     (let line = trim raw
      in if line = [] \<or> hd line = CHR ''#'' then None
         else case find_sub ''='' line of
           None \<Rightarrow> None
         | Some eq \<Rightarrow>
             let k = trim (substr line 0 eq);
                 v = trim (substr_from line (eq + 1))
             in Some (c_str k, c_str (unquote_back (unquote_front v))))"

definition dotenv_line :: "string \<Rightarrow> environ \<Rightarrow> environ" where
  "dotenv_line raw env =
     (case dotenv_entry raw of
        None \<Rightarrow> env
      | Some (k, v) \<Rightarrow> if env k = None then setenv_keep env k v else env)"

definition load_dotenv :: "string option \<Rightarrow> environ \<Rightarrow> environ" where
  "load_dotenv file env =
     (case file of None \<Rightarrow> env | Some text \<Rightarrow> fold dotenv_line (getlines text) env)"

lemma dotenv_line_keeps: "env k = Some v \<Longrightarrow> dotenv_line raw env k = Some v"
  by (auto simp: dotenv_line_def setenv_keep_def split: option.split)

lemma fold_dotenv_keeps: "env k = Some v \<Longrightarrow> fold dotenv_line ls env k = Some v"
  by (induction ls arbitrary: env) (auto simp: dotenv_line_keeps)

lemma dotenv_line_other: "dotenv_entry raw = None \<or> fst (the (dotenv_entry raw)) \<noteq> k \<Longrightarrow>
    dotenv_line raw env k = env k"
  by (auto simp: dotenv_line_def setenv_keep_def split: option.split)

text \<open>The first line that names a variable is the one that counts.\<close>

definition dotenv_lookup :: "string list \<Rightarrow> string \<Rightarrow> string option" where
  "dotenv_lookup ls k = map_of (List.map_filter dotenv_entry ls) k"

lemma fold_dotenv_lookup:
  "k \<noteq> [] \<Longrightarrow> env k = None \<Longrightarrow> fold dotenv_line ls env k = dotenv_lookup ls k"
proof (induction ls arbitrary: env)
  case Nil
  then show ?case by (simp add: dotenv_lookup_def map_filter_simps)
next
  case (Cons l ls)
  show ?case
  proof (cases "\<exists>v. dotenv_entry l = Some (k, v)")
    case True
    then obtain v where l: "dotenv_entry l = Some (k, v)" by blast
    with Cons.prems have "dotenv_line l env k = Some v"
      by (simp add: dotenv_line_def setenv_keep_def)
    with l show ?thesis
      by (simp add: fold_dotenv_keeps dotenv_lookup_def map_filter_simps)
  next
    case False
    then have o: "dotenv_entry l = None \<or> fst (the (dotenv_entry l)) \<noteq> k" by force
    then have "dotenv_line l env k = None" using Cons.prems by (simp add: dotenv_line_other)
    with Cons.IH Cons.prems have "fold dotenv_line (l # ls) env k = dotenv_lookup ls k" by simp
    also have "\<dots> = dotenv_lookup (l # ls) k"
      using o by (auto simp: dotenv_lookup_def map_filter_simps split: option.split)
    finally show ?thesis .
  qed
qed

text \<open>
  What the \<open>.env\<close> loader leaves in the environment, for every name and every file: a
  variable that was set keeps its value, and an unset one gets the value of the first line of
  the file that names it (or stays unset).
\<close>

theorem load_dotenv_result:
  assumes "k \<noteq> []"
  shows "load_dotenv (Some text) env k =
           (case env k of Some v \<Rightarrow> Some v | None \<Rightarrow> dotenv_lookup (getlines text) k)"
  using fold_dotenv_lookup [OF assms] fold_dotenv_keeps [of env k]
  by (auto simp: load_dotenv_def split: option.split)

theorem load_dotenv_result_witness:
  "load_dotenv (Some ''# c\<newline>A = 'x y' \<newline>A=2\<newline>B=3'') [''B'' \<mapsto> ''9''] ''A'' = Some ''x y''"
proof -
  have "dotenv_lookup (getlines ''# c\<newline>A = 'x y' \<newline>A=2\<newline>B=3'') ''A'' = Some ''x y''"
    by code_simp
  then show ?thesis
    using load_dotenv_result [of "''A''" "''# c\<newline>A = 'x y' \<newline>A=2\<newline>B=3''" "[''B'' \<mapsto> ''9'']"]
    by simp
qed

end
