(* ===== verification/Files.thy ===== *)
theory Files
  imports Config_Model "HOL-Library.Word"
begin

text \<open>
  The file operations of \<open>src/src/util.cpp\<close> on an explicit file system: \<open>move_file\<close> with its
  rename, its \<open>copy_file_range\<close> loop and its \<open>copy_file\<close> fallback, \<open>ensure_dir\<close>,
  \<open>touch_mtime\<close> and \<open>file_mtime_tm\<close>. What the operating system answers to each call is an
  argument. The locale \<open>file_mover\<close> states what the rest of the pipeline relies on when it
  archives a file; \<open>move_file\<close> satisfies it for every answer of the operating system. The
  Windows branch of \<open>move_file\<close> is in \<open>Windows_Build\<close>.
\<close>

type_synonym byte = "8 word"

record file_node =
  f_data :: "byte list"
  f_mtime :: int

record fsys =
  files :: "path \<rightharpoonup> file_node"
  dirs :: "path set"

text \<open>The content of a file, or \<open>None\<close> where there is none.\<close>

definition content :: "fsys \<Rightarrow> path \<Rightarrow> byte list option" where
  "content fs p = map_option f_data (files fs p)"

definition write_file :: "fsys \<Rightarrow> path \<Rightarrow> byte list \<Rightarrow> int \<Rightarrow> fsys" where
  "write_file fs p bs t = fs\<lparr>files := (files fs)(p \<mapsto> \<lparr>f_data = bs, f_mtime = t\<rparr>)\<rparr>"

definition remove_file :: "fsys \<Rightarrow> path \<Rightarrow> fsys" where
  "remove_file fs p = fs\<lparr>files := (files fs)(p := None)\<rparr>"

lemma content_write [simp]:
  "content (write_file fs p bs t) q = (if q = p then Some bs else content fs q)"
  by (simp add: content_def write_file_def)

lemma content_remove [simp]:
  "content (remove_file fs p) q = (if q = p then None else content fs q)"
  by (simp add: content_def remove_file_def)

lemma dirs_write [simp]: "dirs (write_file fs p bs t) = dirs fs"
  and dirs_remove [simp]: "dirs (remove_file fs p) = dirs fs"
  by (simp_all add: write_file_def remove_file_def)

section \<open>move_file\<close>

text \<open>
  The operating system's answers during one call: whether \<open>rename\<close>, the two \<open>open\<close>s,
  \<open>fstat\<close>, \<open>fs::copy_file\<close> and \<open>fs::remove\<close> succeed, the successive return values of
  \<open>copy_file_range\<close>, what a failed \<open>copy_file\<close> leaves in the target, and the time stamped
  on a new file.
\<close>

record os_answers =
  os_rename :: bool
  os_open_src :: bool
  os_fstat :: bool
  os_open_dst :: bool
  os_ranges :: "int list"
  os_copy :: bool
  os_partial :: "byte list"
  os_remove :: bool
  os_now :: int

text \<open>
  The copy loop (util.cpp:206-213): \<open>copied\<close> and the kernel's \<open>offset\<close> advance together; the
  kernel copies at most the requested \<open>st_size - offset\<close> bytes; a result \<open>\<le> 0\<close> ends it. An
  exhausted answer list stands for a call that returns 0.
\<close>

fun copy_loop :: "nat \<Rightarrow> nat \<Rightarrow> int list \<Rightarrow> nat" where
  "copy_loop sz off [] = off"
| "copy_loop sz off (n # ns) =
     (if off < sz
      then if n \<le> 0 then off else copy_loop sz (off + min (nat n) (sz - off)) ns
      else off)"

lemma copy_loop_le: "off \<le> sz \<Longrightarrow> copy_loop sz off ns \<le> sz"
  by (induction sz off ns rule: copy_loop.induct) auto

definition move_file :: "os_answers \<Rightarrow> path \<Rightarrow> path \<Rightarrow> fsys \<Rightarrow> bool \<times> fsys" where
  "move_file os src dst fs =
     (case files fs src of
        None \<Rightarrow> (False, fs)
      | Some f \<Rightarrow>
          if os_rename os
          then (True, fs\<lparr>files := (files fs)(src := None, dst \<mapsto> f)\<rparr>)
          else if \<not> os_open_src os then (False, fs)
          else if \<not> os_fstat os then (False, fs)
          else if \<not> os_open_dst os then (False, fs)
          else
            let sz = length (f_data f);
                copied = copy_loop sz 0 (os_ranges os);
                fs1 = write_file fs dst (take copied (f_data f)) (os_now os)
            in if copied = sz
               then if os_remove os then (True, remove_file fs1 src) else (False, fs1)
               else if \<not> os_copy os then (False, write_file fs1 dst (os_partial os) (os_now os))
               else let fs2 = write_file fs1 dst (f_data f) (os_now os)
                    in if os_remove os then (True, remove_file fs2 src) else (False, fs2))"

text \<open>What a caller that archives a file relies on.\<close>

locale file_mover =
  fixes move :: "'o \<Rightarrow> path \<Rightarrow> path \<Rightarrow> fsys \<Rightarrow> bool \<times> fsys"
  assumes moved: "src \<noteq> dst \<Longrightarrow> move os src dst fs = (True, fs') \<Longrightarrow>
      content fs src \<noteq> None \<and> content fs' dst = content fs src \<and> content fs' src = None"
    and kept: "src \<noteq> dst \<Longrightarrow> move os src dst fs = (False, fs') \<Longrightarrow> content fs' src = content fs src"
    and frame: "move os src dst fs = (ok, fs') \<Longrightarrow> p \<noteq> src \<Longrightarrow> p \<noteq> dst \<Longrightarrow> content fs' p = content fs p"
    and same_dirs: "move os src dst fs = (ok, fs') \<Longrightarrow> dirs fs' = dirs fs"
begin

text \<open>Whatever happens, the bytes of the source are at the source or at the target.\<close>

lemma not_lost:
  assumes "src \<noteq> dst" "content fs src = Some bs" "move os src dst fs = (ok, fs')"
  shows "content fs' (if ok then dst else src) = Some bs"
  using assms moved [of src dst os fs fs'] kept [of src dst os fs fs'] by (cases ok) auto

text \<open>Moves to a target that was absent never overwrite: every other file is as before.\<close>

lemma others_kept:
  assumes "move os src dst fs = (ok, fs')" "p \<notin> {src, dst}"
  shows "content fs' p = content fs p"
  using assms frame by auto

lemma ok_source_gone:
  assumes "src \<noteq> dst" "move os src dst fs = (True, fs')"
  shows "content fs' src = None"
  using moved [OF assms] by simp

end

lemma move_file_content:
  assumes "move_file os src dst fs = (ok, fs')" "src \<noteq> dst"
  shows "if ok then content fs src \<noteq> None \<and> content fs' dst = content fs src \<and> content fs' src = None
         else content fs' src = content fs src"
proof (cases "files fs src")
  case None
  with assms show ?thesis by (auto simp: move_file_def content_def)
next
  case (Some f)
  then have c: "content fs src = Some (f_data f)" by (simp add: content_def)
  show ?thesis
  proof (cases "os_rename os")
    case True
    with assms Some show ?thesis by (auto simp: move_file_def content_def)
  next
    case False
    with assms Some c show ?thesis
      by (auto simp: move_file_def Let_def split: if_splits)
  qed
qed

lemma move_file_frame:
  assumes "move_file os src dst fs = (ok, fs')" "p \<noteq> src" "p \<noteq> dst"
  shows "content fs' p = content fs p"
proof (cases "files fs src")
  case None
  with assms show ?thesis by (auto simp: move_file_def)
next
  case (Some f)
  show ?thesis
  proof (cases "os_rename os")
    case True
    with assms Some show ?thesis by (auto simp: move_file_def content_def)
  next
    case False
    with assms Some show ?thesis by (auto simp: move_file_def Let_def split: if_splits)
  qed
qed

lemma move_file_dirs: "move_file os src dst fs = (ok, fs') \<Longrightarrow> dirs fs' = dirs fs"
  by (auto simp: move_file_def Let_def split: if_splits option.splits)

interpretation mv: file_mover move_file
proof unfold_locales
  show "content fs src \<noteq> None \<and> content fs' dst = content fs src \<and> content fs' src = None"
    if "src \<noteq> dst" "move_file os src dst fs = (True, fs')" for src dst os fs fs'
    using move_file_content [OF that(2,1)] by simp
  show "content fs' src = content fs src"
    if "src \<noteq> dst" "move_file os src dst fs = (False, fs')" for src dst os fs fs'
    using move_file_content [OF that(2,1)] by simp
  show "content fs' p = content fs p"
    if "move_file os src dst fs = (ok, fs')" "p \<noteq> src" "p \<noteq> dst" for src dst os fs ok fs' p
    using move_file_frame [OF that] .
  show "dirs fs' = dirs fs" if "move_file os src dst fs = (ok, fs')" for src dst os fs ok fs'
    using move_file_dirs [OF that] .
qed

text \<open>
  C22: Moving a file never loses its bytes, whatever the operating system answers (failing
  renames, short copies, failing removes): after \<open>move_file\<close> they are all at the target when
  it returned true and all still at the source when it returned false, and no third file has
  changed.
\<close>

theorem move_file_no_loss:
  assumes "src \<noteq> dst" "content fs src = Some bs" "move_file os src dst fs = (ok, fs')"
  shows "content fs' (if ok then dst else src) = Some bs \<and>
         (\<forall>p. p \<noteq> src \<longrightarrow> p \<noteq> dst \<longrightarrow> content fs' p = content fs p)"
  using mv.not_lost [OF assms] mv.others_kept [OF assms(3)] by auto

theorem move_file_no_loss_witness:
  "let os = \<lparr>os_rename = False, os_open_src = True, os_fstat = True, os_open_dst = True,
             os_ranges = [2, 0], os_copy = True, os_partial = [], os_remove = True, os_now = 5\<rparr>;
       fs = \<lparr>files = [''a'' \<mapsto> \<lparr>f_data = [1, 2, 3], f_mtime = 0\<rparr>], dirs = {}\<rparr>
   in content (snd (move_file os ''a'' ''b'' fs)) ''b'' = Some [1, 2, 3]"
proof -
  define os where "os = \<lparr>os_rename = False, os_open_src = True, os_fstat = True, os_open_dst = True,
             os_ranges = [2, 0], os_copy = True, os_partial = [], os_remove = True, os_now = 5\<rparr>"
  define fs where "fs = \<lparr>files = [''a'' \<mapsto> \<lparr>f_data = [1, 2, 3 :: byte], f_mtime = 0\<rparr>], dirs = {}\<rparr>"
  obtain ok fs' where m: "move_file os ''a'' ''b'' fs = (ok, fs')" by fastforce
  have "ok" using m by (simp add: move_file_def os_def fs_def Let_def split: if_splits)
  moreover have "content fs ''a'' = Some [1, 2, 3]" by (simp add: content_def fs_def)
  ultimately have "content (snd (move_file os ''a'' ''b'' fs)) ''b'' = Some [1, 2, 3]"
    using move_file_no_loss [of "''a''" "''b''" fs "[1, 2, 3]" os ok fs'] m by simp
  then show ?thesis by (simp add: os_def fs_def)
qed

section \<open>ensure_dir, touch_mtime, file_mtime_tm\<close>

definition ensure_dir :: "bool \<Rightarrow> path \<Rightarrow> fsys \<Rightarrow> bool \<times> fsys" where
  "ensure_dir mkdir_ok p fs =
     (if mkdir_ok then (True, fs\<lparr>dirs := insert p (dirs fs)\<rparr>) else (p \<in> dirs fs, fs))"

lemma ensure_dir_content [simp]: "content (snd (ensure_dir ok p fs)) q = content fs q"
  by (simp add: ensure_dir_def content_def)

lemma ensure_dir_result: "ensure_dir ok p fs = (True, fs') \<Longrightarrow> p \<in> dirs fs'"
  by (auto simp: ensure_dir_def split: if_splits)

definition touch_mtime :: "int \<Rightarrow> path \<Rightarrow> fsys \<Rightarrow> bool \<times> fsys" where
  "touch_mtime now p fs =
     (case files fs p of
        None \<Rightarrow> (False, fs)
      | Some f \<Rightarrow> (True, fs\<lparr>files := (files fs)(p \<mapsto> f\<lparr>f_mtime := now\<rparr>)\<rparr>))"

text \<open>The broken-down time of \<open>localtime_r\<close>, whose time zone rules are an argument.\<close>

record tm =
  tm_year :: int
  tm_mon :: int
  tm_mday :: int
  tm_hour :: int
  tm_min :: int
  tm_sec :: int

definition file_mtime_tm :: "(int \<Rightarrow> tm) \<Rightarrow> fsys \<Rightarrow> path \<Rightarrow> tm option" where
  "file_mtime_tm localtime fs p = map_option (\<lambda>f. localtime (f_mtime f)) (files fs p)"

section \<open>random tokens\<close>

text \<open>
  \<open>random_token\<close> and \<open>secure_random_token\<close> (util.cpp:85-128). The random draws are
  arguments: 16 numbers of \<open>uniform_int_distribution(0, 15)\<close> for the first; for the second
  the bytes read from \<open>/dev/urandom\<close>, or 64 draws when fewer than 32 bytes came.
\<close>

definition hex_digit :: "nat \<Rightarrow> char" where
  "hex_digit d = ''0123456789abcdef'' ! d"

definition random_token :: "(nat \<Rightarrow> nat) \<Rightarrow> string" where
  "random_token draw = map (\<lambda>i. hex_digit (draw i)) [0..<16]"

definition secure_random_token :: "byte list option \<Rightarrow> (nat \<Rightarrow> nat) \<Rightarrow> string" where
  "secure_random_token urandom draw =
     (case urandom of
        Some bs \<Rightarrow>
          if length bs = 32
          then concat (map (\<lambda>c. [hex_digit (unat (drop_bit 4 c)), hex_digit (unat (and c 0xF))]) bs)
          else map (\<lambda>i. hex_digit (draw i)) [0..<64]
      | None \<Rightarrow> map (\<lambda>i. hex_digit (draw i)) [0..<64])"

lemma length_concat_pairs: "length (concat (map (\<lambda>c. [f c, g c]) bs)) = 2 * length bs"
  by (induction bs) auto

text \<open>
  Token lengths, whatever the random source gives: a sequence placeholder
  \<open>TMP_\<close> with a \<open>random_token\<close> has 20 characters and fits \<open>sequences.name VARCHAR(32)\<close>; a
  \<open>secure_random_token\<close> has exactly the 64 of \<open>processing_locks.worker_id VARCHAR(64)\<close> (and
  would not fit the first column).
\<close>

theorem token_lengths:
  "length (''TMP_'' @ random_token draw) = 20 \<and> length (secure_random_token urandom draw) = 64"
  by (auto simp: random_token_def secure_random_token_def length_concat_pairs split: option.split)

end
