(* ===== verification/Pipeline.thy ===== *)
theory Pipeline
  imports Files
begin

unbundle bit_operations_syntax

text \<open>
  The data types of \<open>src/src/pipeline.h\<close> and the pure routines of \<open>src/src/pipeline.cpp\<close>:
  hexadecimal digests, the date from a file's modification time, the folder schema, the JPEG
  segment scan behind the thumbnail, the FNV-1a hash and the fast fingerprint. OpenSSL's
  SHA-256 is an argument (a streaming digest), as is \<open>localtime\<close>.
\<close>

section \<open>Data types\<close>

record conversion_settings =
  compression :: string
  preview_medium :: string
  preview_full :: string
  version :: string
  jpeg_quality :: int
  linear :: bool
  seed :: string

definition default_settings :: conversion_settings where
  "default_settings = \<lparr>compression = ''lossless'', preview_medium = ''1024x1024'',
     preview_full = ''4000x3000'', version = ''1.4'', jpeg_quality = 92, linear = False, seed = []\<rparr>"

datatype import_status = Pending | Converting | Completed | Failed | Restored | Legacy

fun status_string :: "import_status \<Rightarrow> string" where
  "status_string Pending = ''pending''"
| "status_string Converting = ''converting''"
| "status_string Completed = ''completed''"
| "status_string Failed = ''failed''"
| "status_string Restored = ''restored''"
| "status_string Legacy = ''legacy''"

text \<open>
  \<open>ImportStatus\<close> is a scoped enumeration: its values are ordered as declared and can be
  enumerated, which the two instances give to the library's automation.
\<close>

fun status_ord :: "import_status \<Rightarrow> nat" where
  "status_ord Pending = 0"
| "status_ord Converting = 1"
| "status_ord Completed = 2"
| "status_ord Failed = 3"
| "status_ord Restored = 4"
| "status_ord Legacy = 5"

lemma status_ord_inject: "status_ord a = status_ord b \<Longrightarrow> a = b"
  by (cases a; cases b) simp_all

instantiation import_status :: linorder
begin

definition less_eq_import_status :: "import_status \<Rightarrow> import_status \<Rightarrow> bool" where
  "less_eq_import_status a b \<longleftrightarrow> status_ord a \<le> status_ord b"

definition less_import_status :: "import_status \<Rightarrow> import_status \<Rightarrow> bool" where
  "less_import_status a b \<longleftrightarrow> status_ord a < status_ord b"

instance
  by standard (auto simp: less_eq_import_status_def less_import_status_def dest: status_ord_inject)

end

lemma UNIV_status: "UNIV = {Pending, Converting, Completed, Failed, Restored, Legacy}"
  by (auto intro: import_status.exhaust)

instantiation import_status :: enum
begin

definition enum_import_status :: "import_status list" where
  "enum_import_status = [Pending, Converting, Completed, Failed, Restored, Legacy]"

definition enum_all_import_status :: "(import_status \<Rightarrow> bool) \<Rightarrow> bool" where
  "enum_all_import_status P \<longleftrightarrow> list_all P [Pending, Converting, Completed, Failed, Restored, Legacy]"

definition enum_ex_import_status :: "(import_status \<Rightarrow> bool) \<Rightarrow> bool" where
  "enum_ex_import_status P \<longleftrightarrow> list_ex P [Pending, Converting, Completed, Failed, Restored, Legacy]"

instance
  by standard
    (simp_all add: enum_import_status_def enum_all_import_status_def enum_ex_import_status_def
      UNIV_status conj_assoc)

end

datatype date_source = Exif | Mtime

record import_record =
  rec_id :: int
  sequence_id :: int
  source_path :: path
  source_hash :: string
  output_path :: path
  output_hash :: string
  camera_model :: string
  capture_date :: string
  capture_time :: string
  folder_schema :: string
  conv_settings :: string
  status :: import_status
  rec_date_source :: date_source
  orientation :: int
  created_at :: string
  completed_at :: string
  error_message :: string
  sequence_name :: string

definition new_record :: import_record where
  "new_record = \<lparr>rec_id = 0, sequence_id = 0, source_path = [], source_hash = [], output_path = [],
     output_hash = [], camera_model = [], capture_date = [], capture_time = [], folder_schema = [],
     conv_settings = [], status = Pending, rec_date_source = Exif, orientation = 0, created_at = [],
     completed_at = [], error_message = [], sequence_name = []\<rparr>"

record reconversion_job =
  job_id :: int
  job_import_id :: int
  job_previous_hash :: string
  job_new_hash :: string
  job_settings :: conversion_settings
  job_reason :: string
  job_triggered_at :: string
  job_completed_at :: string
  job_status :: import_status
  job_error :: string

definition new_job :: reconversion_job where
  "new_job = \<lparr>job_id = 0, job_import_id = 0, job_previous_hash = [], job_new_hash = [],
     job_settings = default_settings, job_reason = [], job_triggered_at = [], job_completed_at = [],
     job_status = Pending, job_error = []\<rparr>"

record exif_result =
  ex_date :: string
  ex_time :: string
  ex_source :: date_source

section \<open>SHA-256 digests\<close>

definition to_hex :: "byte list \<Rightarrow> string" where
  "to_hex bs = concat (map (\<lambda>b. [hex_digit (unat b div 16), hex_digit (unat b mod 16)]) bs)"

text \<open>
  OpenSSL's digest calls: creating and initialising a context, \<open>EVP_DigestUpdate\<close> and
  \<open>EVP_DigestFinal_ex\<close>. \<open>None\<close> is a call that does not return 1.
\<close>

record 'c digest =
  md_init :: "'c option"
  md_update :: "'c \<Rightarrow> byte list \<Rightarrow> 'c option"
  md_final :: "'c \<Rightarrow> byte list option"

definition finish_digest :: "('c, 'm) digest_scheme \<Rightarrow> 'c option \<Rightarrow> string" where
  "finish_digest D c =
     (case Option.bind c (md_final D) of None \<Rightarrow> [] | Some out \<Rightarrow> to_hex out)"

definition sha256_bytes :: "('c, 'm) digest_scheme \<Rightarrow> byte list \<Rightarrow> string" where
  "sha256_bytes D bs = finish_digest D (Option.bind (md_init D) (\<lambda>c. md_update D c bs))"

text \<open>The read loop of \<open>sha256_file\<close>: blocks of \<open>1 << 16\<close> bytes, each non-empty one hashed.\<close>

function hash_blocks :: "('c, 'm) digest_scheme \<Rightarrow> 'c \<Rightarrow> byte list \<Rightarrow> 'c option" where
  "hash_blocks D c bs =
     (if bs = [] then Some c
      else case md_update D c (take 65536 bs) of
        None \<Rightarrow> None
      | Some c' \<Rightarrow> hash_blocks D c' (drop 65536 bs))"
  by pat_completeness auto
termination
  by (relation "measure (\<lambda>(D, c, bs). length bs)") auto

declare hash_blocks.simps [simp del]

definition sha256_file :: "('c, 'm) digest_scheme \<Rightarrow> fsys \<Rightarrow> path \<Rightarrow> string" where
  "sha256_file D fs p =
     (case content fs p of
        None \<Rightarrow> []
      | Some bs \<Rightarrow> finish_digest D (Option.bind (md_init D) (\<lambda>c. hash_blocks D c bs)))"

text \<open>The documented law of a streaming digest: updating in pieces is updating at once.\<close>

definition streaming :: "('c, 'm) digest_scheme \<Rightarrow> bool" where
  "streaming D \<longleftrightarrow> (\<forall>c. md_update D c [] = Some c) \<and>
     (\<forall>c a b. md_update D c (a @ b) = Option.bind (md_update D c a) (\<lambda>c'. md_update D c' b))"

lemma hash_blocks_streaming: "streaming D \<Longrightarrow> hash_blocks D c bs = md_update D c bs"
proof (induction D c bs rule: hash_blocks.induct)
  case (1 D c bs)
  show ?case
  proof (cases "bs = []")
    case True
    with "1.prems" show ?thesis by (simp add: hash_blocks.simps [of D c "[]"] streaming_def)
  next
    case False
    have "md_update D c (take 65536 bs @ drop 65536 bs)
        = Option.bind (md_update D c (take 65536 bs)) (\<lambda>c'. md_update D c' (drop 65536 bs))"
      using "1.prems" unfolding streaming_def by blast
    with 1 False show ?thesis
      by (auto simp: hash_blocks.simps [of D c bs] simp del: append_take_drop_id split: option.split)
        (simp_all)
  qed
qed

text \<open>
  C30: Hashing a file block by block gives the digest of its whole content: for a digest
  that satisfies the streaming law, \<open>sha256_file\<close> on a readable file is \<open>sha256_bytes\<close> of
  its bytes, however many 64 KiB blocks it has.
\<close>

theorem sha256_file_eq_bytes:
  assumes "streaming D" "content fs p = Some bs"
  shows "sha256_file D fs p = sha256_bytes D bs"
  using assms by (simp add: sha256_file_def sha256_bytes_def hash_blocks_streaming)

definition concat_digest :: "byte list digest" where
  "concat_digest = \<lparr>md_init = Some [], md_update = (\<lambda>c bs. Some (c @ bs)), md_final = Some\<rparr>"

lemma streaming_concat_digest: "streaming concat_digest"
  by (simp add: streaming_def concat_digest_def)

theorem sha256_file_eq_bytes_witness:
  "sha256_file concat_digest \<lparr>files = [''a'' \<mapsto> \<lparr>f_data = [171], f_mtime = 0\<rparr>], dirs = {}\<rparr> ''a'' = ''ab''"
proof -
  let ?fs = "\<lparr>files = [''a'' \<mapsto> \<lparr>f_data = [171 :: byte], f_mtime = 0\<rparr>], dirs = {}\<rparr>"
  have "content ?fs ''a'' = Some [171]" by (simp add: content_def)
  moreover have "sha256_bytes concat_digest [171] = ''ab''"
    by (simp add: sha256_bytes_def concat_digest_def finish_digest_def to_hex_def hex_digit_def)
  ultimately show ?thesis
    using sha256_file_eq_bytes [OF streaming_concat_digest, of ?fs "''a''" "[171]"] by simp
qed

lemma to_hex_simps: "to_hex [] = []"
    "to_hex (b # bs) = hex_digit (unat b div 16) # hex_digit (unat b mod 16) # to_hex bs"
  by (simp_all add: to_hex_def)

lemma length_to_hex [simp]: "length (to_hex bs) = 2 * length bs"
  by (induction bs) (simp_all add: to_hex_simps)

lemma hex_digit_inject: "m < 16 \<Longrightarrow> n < 16 \<Longrightarrow> hex_digit m = hex_digit n \<Longrightarrow> m = n"
proof -
  have "distinct ''0123456789abcdef''" by simp
  then show "m < 16 \<Longrightarrow> n < 16 \<Longrightarrow> hex_digit m = hex_digit n \<Longrightarrow> m = n"
    unfolding hex_digit_def by (subst (asm) nth_eq_iff_index_eq) simp_all
qed

lemma unat_byte_less: "unat (b :: byte) < 256"
  using unsigned_less [of b] by simp

text \<open>
  The hexadecimal form of a digest loses nothing: two characters per byte, and equal
  texts only for equal bytes, so comparing stored digests compares digests.
\<close>

theorem to_hex_inject: "to_hex xs = to_hex ys \<longleftrightarrow> xs = ys"
proof (induction xs arbitrary: ys)
  case Nil
  then show ?case by (cases ys) (simp_all add: to_hex_simps)
next
  case (Cons x xs)
  show ?case
  proof (cases ys)
    case Nil
    then show ?thesis by (simp add: to_hex_simps)
  next
    case (Cons y zs)
    have "x = y" if "hex_digit (unat x div 16) = hex_digit (unat y div 16)"
        "hex_digit (unat x mod 16) = hex_digit (unat y mod 16)"
    proof -
      have "unat x div 16 = unat y div 16"
        using hex_digit_inject that(1) unat_byte_less [of x] unat_byte_less [of y]
        by (simp add: div_less_iff_less_mult)
      moreover have "unat x mod 16 = unat y mod 16" using hex_digit_inject that(2) by simp
      ultimately have "unat x = unat y" by (metis div_mult_mod_eq)
      then show "x = y" by (simp add: word_unat_eq_iff)
    qed
    with Cons.IH show ?thesis by (auto simp: Cons to_hex_simps)
  qed
qed

section \<open>Dates from modification times, and the folder schema\<close>

definition two_digits :: "int \<Rightarrow> string" where
  "two_digits n = (if n < 10 then CHR ''0'' # dec_int n else dec_int n)"

text \<open>\<open>std::put_time\<close> with the format \<open>%Y-%m-%d %H:%M:%S\<close>.\<close>

definition put_time :: "tm \<Rightarrow> string" where
  "put_time t = dec_int (tm_year t + 1900) @ ''-'' @ two_digits (tm_mon t + 1) @ ''-'' @
     two_digits (tm_mday t) @ '' '' @ two_digits (tm_hour t) @ '':'' @ two_digits (tm_min t) @
     '':'' @ two_digits (tm_sec t)"

definition exif_from_mtime :: "(int \<Rightarrow> tm) \<Rightarrow> fsys \<Rightarrow> path \<Rightarrow> exif_result" where
  "exif_from_mtime localtime fs p =
     (case file_mtime_tm localtime fs p of
        None \<Rightarrow> \<lparr>ex_date = [], ex_time = [], ex_source = Mtime\<rparr>
      | Some t \<Rightarrow> let s = put_time t
                  in \<lparr>ex_date = substr s 0 10, ex_time = substr s 11 8, ex_source = Mtime\<rparr>)"

text \<open>The template loop of \<open>build_folder_schema\<close> (pipeline.cpp:117-130).\<close>

fun expand_schema :: "string \<Rightarrow> string \<Rightarrow> string \<Rightarrow> string \<Rightarrow> string" where
  "expand_schema y m d [] = []"
| "expand_schema y m d [a] = [a]"
| "expand_schema y m d (a # c # t) =
     (if a = CHR ''%''
      then (if c = CHR ''Y'' then y else if c = CHR ''m'' then m else if c = CHR ''d'' then d else [c])
           @ expand_schema y m d t
      else a # expand_schema y m d (c # t))"

definition build_folder_schema :: "string \<Rightarrow> string \<Rightarrow> string" where
  "build_folder_schema tmpl date =
     (let ok = length date \<ge> 10;
          y = (if ok then substr date 0 4 else []);
          m = (if ok then substr date 5 2 else []);
          d = (if ok then substr date 8 2 else []);
          t = (if tmpl = [] then ''%Y/%m'' else tmpl)
      in expand_schema y m d t)"

definition valid_tm :: "tm \<Rightarrow> bool" where
  "valid_tm t \<longleftrightarrow> - 900 \<le> tm_year t \<and> tm_year t \<le> 8099 \<and> 0 \<le> tm_mon t \<and> tm_mon t \<le> 11 \<and>
     1 \<le> tm_mday t \<and> tm_mday t \<le> 31 \<and> 0 \<le> tm_hour t \<and> tm_hour t \<le> 23 \<and>
     0 \<le> tm_min t \<and> tm_min t \<le> 59 \<and> 0 \<le> tm_sec t \<and> tm_sec t \<le> 60"

lemma length_dec_nat_step: "10 \<le> n \<Longrightarrow> length (dec_nat n) = Suc (length (dec_nat (n div 10)))"
  by (simp add: dec_nat.simps [of n])

lemma length_dec_nat_1: "n < 10 \<Longrightarrow> length (dec_nat n) = 1"
  by (simp add: dec_nat.simps [of n])

lemma length_dec_year: "1000 \<le> n \<Longrightarrow> n \<le> 9999 \<Longrightarrow> length (dec_nat n) = 4"
  by (simp add: length_dec_nat_step length_dec_nat_1 div_mult2_eq [symmetric])

lemma length_two_digits: "0 \<le> n \<Longrightarrow> n \<le> 99 \<Longrightarrow> length (two_digits n) = 2"
  by (auto simp: two_digits_def dec_int_def length_dec_nat_step length_dec_nat_1 nat_less_iff)

text \<open>
  A file whose local modification time is in the years 1000 to 9999 gets a capture date
  and time of the fixed widths the DATE and TIME columns expect, with the year, month and day
  of that time, and the default schema then places it under year/month.
\<close>

theorem mtime_date_and_folder:
  assumes "files fs p = Some f" "t = localtime (f_mtime f)" "valid_tm t"
  shows "ex_date (exif_from_mtime localtime fs p)
           = dec_int (tm_year t + 1900) @ ''-'' @ two_digits (tm_mon t + 1) @ ''-'' @ two_digits (tm_mday t)
         \<and> ex_time (exif_from_mtime localtime fs p)
           = two_digits (tm_hour t) @ '':'' @ two_digits (tm_min t) @ '':'' @ two_digits (tm_sec t)
         \<and> build_folder_schema ''%Y/%m'' (ex_date (exif_from_mtime localtime fs p))
           = dec_int (tm_year t + 1900) @ ''/'' @ two_digits (tm_mon t + 1)"
proof -
  define Y where "Y = dec_int (tm_year t + 1900)"
  define M where "M = two_digits (tm_mon t + 1)"
  define D where "D = two_digits (tm_mday t)"
  define H where "H = two_digits (tm_hour t)"
  define I where "I = two_digits (tm_min t)"
  define S where "S = two_digits (tm_sec t)"
  have len: "length Y = 4" "length M = 2" "length D = 2" "length H = 2" "length I = 2" "length S = 2"
    using assms(3) unfolding valid_tm_def Y_def M_def D_def H_def I_def S_def
    by (auto simp: dec_int_def length_two_digits length_dec_year nat_le_iff le_nat_iff)
  have "exif_from_mtime localtime fs p = (let s = put_time t
          in \<lparr>ex_date = substr s 0 10, ex_time = substr s 11 8, ex_source = Mtime\<rparr>)"
    using assms(1,2) by (simp add: exif_from_mtime_def file_mtime_tm_def)
  moreover have "put_time t = Y @ ''-'' @ M @ ''-'' @ D @ '' '' @ H @ '':'' @ I @ '':'' @ S"
    by (simp add: put_time_def Y_def M_def D_def H_def I_def S_def)
  ultimately have
    "ex_date (exif_from_mtime localtime fs p) = Y @ ''-'' @ M @ ''-'' @ D"
    "ex_time (exif_from_mtime localtime fs p) = H @ '':'' @ I @ '':'' @ S"
    using len by (simp_all add: substr_def Let_def)
  moreover have "build_folder_schema ''%Y/%m'' (Y @ ''-'' @ M @ ''-'' @ D) = Y @ ''/'' @ M"
    using len by (simp add: build_folder_schema_def substr_def Let_def)
  ultimately show ?thesis by (simp add: Y_def M_def D_def H_def I_def S_def)
qed

text \<open>
  The folder built from a template has exactly the template's path separators: when
  the capture date holds no slash, expanding it neither adds nor removes a directory level,
  and every other character comes from the template or from the date.
\<close>

lemma expand_schema_slashes:
  assumes "CHR ''/'' \<notin> set y" "CHR ''/'' \<notin> set m" "CHR ''/'' \<notin> set d"
  shows "count_list (expand_schema y m d t) (CHR ''/'') = count_list t (CHR ''/'')"
proof -
  have none: "count_list y (CHR ''/'') = 0" "count_list m (CHR ''/'') = 0" "count_list d (CHR ''/'') = 0"
    using assms by (simp_all add: count_list_0_iff)
  then show ?thesis by (induction y m d t rule: expand_schema.induct) auto
qed

theorem build_folder_schema_slashes:
  assumes "CHR ''/'' \<notin> set date" "tmpl \<noteq> []"
  shows "count_list (build_folder_schema tmpl date) (CHR ''/'') = count_list tmpl (CHR ''/'')"
proof -
  have "CHR ''/'' \<notin> set (substr date i n)" for i n
    using assms(1) by (auto simp: substr_def dest: in_set_takeD in_set_dropD)
  with assms(2) show ?thesis
    by (simp add: build_folder_schema_def Let_def expand_schema_slashes)
qed

theorem mtime_date_and_folder_witness:
  "let t = \<lparr>tm_year = 126, tm_mon = 6, tm_mday = 5, tm_hour = 14, tm_min = 3, tm_sec = 22\<rparr>;
       fs = \<lparr>files = [''a'' \<mapsto> \<lparr>f_data = [], f_mtime = 7\<rparr>], dirs = {}\<rparr>
   in build_folder_schema ''%Y/%m'' (ex_date (exif_from_mtime (\<lambda>_. t) fs ''a'')) = ''2026/07''"
proof -
  define t where "t = \<lparr>tm_year = 126, tm_mon = 6, tm_mday = 5, tm_hour = 14, tm_min = 3, tm_sec = 22\<rparr>"
  define fs where "fs = \<lparr>files = [''a'' \<mapsto> \<lparr>f_data = [], f_mtime = 7\<rparr>], dirs = {}\<rparr>"
  have f: "files fs ''a'' = Some \<lparr>f_data = [], f_mtime = 7\<rparr>" by (simp add: fs_def)
  have v: "valid_tm t" by (simp add: valid_tm_def t_def)
  have "dec_int 2026 @ ''/'' @ two_digits 7 = ''2026/07''" by code_simp
  moreover have "build_folder_schema ''%Y/%m'' (ex_date (exif_from_mtime (\<lambda>_. t) fs ''a''))
      = dec_int (tm_year t + 1900) @ ''/'' @ two_digits (tm_mon t + 1)"
    using mtime_date_and_folder [OF f _ v, of "\<lambda>_. t"] by blast
  moreover have "tm_year t + 1900 = 2026" "tm_mon t + 1 = 7" by (simp_all add: t_def)
  ultimately have "build_folder_schema ''%Y/%m'' (ex_date (exif_from_mtime (\<lambda>_. t) fs ''a'')) = ''2026/07''"
    by simp
  then show ?thesis by (simp add: t_def fs_def)
qed

theorem build_folder_schema_slashes_witness:
  "count_list (build_folder_schema ''%Y/%m/%d'' ''2026-07-05'') (CHR ''/'') = 2"
  using build_folder_schema_slashes [of "''2026-07-05''" "''%Y/%m/%d''"] by simp

section \<open>The JPEG segment scan\<close>

text \<open>
  \<open>extract_thumbnail\<close> looks for byte pairs FF D8 (start of image) and, from each, the next
  FF D9 (end of image): \<open>find_eoi\<close> is the inner loop over \<open>j\<close>, \<open>scan_jpeg\<close> the outer one
  over \<open>i\<close> with the best start and length so far.
\<close>

function find_eoi :: "byte list \<Rightarrow> nat \<Rightarrow> nat option" where
  "find_eoi bs j =
     (if j + 1 < length bs
      then if bs ! j = 0xFF \<and> bs ! (j + 1) = 0xD9 then Some j else find_eoi bs (j + 1)
      else None)"
  by pat_completeness auto
termination
  by (relation "measure (\<lambda>(bs, j). length bs - j)") auto

declare find_eoi.simps [simp del]

definition soi_at :: "byte list \<Rightarrow> nat \<Rightarrow> bool" where
  "soi_at bs i \<longleftrightarrow> i + 1 < length bs \<and> bs ! i = 0xFF \<and> bs ! (i + 1) = 0xD8"

definition eoi_at :: "byte list \<Rightarrow> nat \<Rightarrow> bool" where
  "eoi_at bs j \<longleftrightarrow> j + 1 < length bs \<and> bs ! j = 0xFF \<and> bs ! (j + 1) = 0xD9"

lemma find_eoi_Some: "find_eoi bs j = Some k \<Longrightarrow> j \<le> k \<and> eoi_at bs k"
proof (induction bs j rule: find_eoi.induct)
  case (1 bs j)
  then show ?case
    by (auto simp: find_eoi.simps [of bs j] eoi_at_def split: if_splits)
qed

lemma find_eoi_first: "find_eoi bs j = Some k \<Longrightarrow> j \<le> l \<Longrightarrow> l < k \<Longrightarrow> \<not> eoi_at bs l"
proof (induction bs j rule: find_eoi.induct)
  case (1 bs j)
  then show ?case
    by (cases "l = j") (auto simp: find_eoi.simps [of bs j] eoi_at_def split: if_splits)
qed

lemma find_eoi_None: "find_eoi bs j = None \<Longrightarrow> j \<le> l \<Longrightarrow> \<not> eoi_at bs l"
proof (induction bs j rule: find_eoi.induct)
  case (1 bs j)
  then show ?case
    by (cases "l = j") (auto simp: find_eoi.simps [of bs j] eoi_at_def split: if_splits)
qed

lemma find_eoi_bound: "find_eoi bs j = Some k \<Longrightarrow> k + 2 \<le> length bs"
  using find_eoi_Some by (fastforce simp: eoi_at_def)

function scan_jpeg :: "byte list \<Rightarrow> nat \<Rightarrow> nat \<times> nat \<Rightarrow> nat \<times> nat" where
  "scan_jpeg bs i best =
     (if i + 1 < length bs
      then if bs ! i = 0xFF \<and> bs ! (i + 1) = 0xD8
           then case find_eoi bs (i + 2) of
               Some j \<Rightarrow>
                 let len = j + 2 - i
                 in scan_jpeg bs (j + 2) (if len > snd best then (i, len) else best)
             | None \<Rightarrow> scan_jpeg bs (i + 1) best
           else scan_jpeg bs (i + 1) best
      else best)"
  by pat_completeness auto
termination
  by (relation "measure (\<lambda>(bs, i, best). length bs - i)") (auto dest: find_eoi_Some)

declare scan_jpeg.simps [simp del]

definition extract_thumbnail :: "bool \<Rightarrow> int \<Rightarrow> path \<Rightarrow> path \<Rightarrow> fsys \<Rightarrow> path \<times> fsys" where
  "extract_thumbnail open_out now dng_path out_path fs =
     (case content fs dng_path of
        None \<Rightarrow> ([], fs)
      | Some bs \<Rightarrow>
          let (best_start, best_len) = scan_jpeg bs 0 (0, 0)
          in if best_len < 64 then ([], fs)
             else if \<not> open_out then ([], fs)
             else (out_path, write_file fs out_path (take best_len (drop best_start bs)) now))"

text \<open>
  A complete JPEG segment: it starts with FF D8, ends with the first FF D9 after that, and lies
  within the data.
\<close>

definition jpeg_segment :: "byte list \<Rightarrow> nat \<Rightarrow> nat \<Rightarrow> bool" where
  "jpeg_segment bs s n \<longleftrightarrow> soi_at bs s \<and> 4 \<le> n \<and> s + n \<le> length bs \<and> eoi_at bs (s + n - 2) \<and>
     (\<forall>l. s + 2 \<le> l \<longrightarrow> l < s + n - 2 \<longrightarrow> \<not> eoi_at bs l)"

lemma jpeg_segment_found:
  assumes "soi_at bs i" "find_eoi bs (i + 2) = Some j"
  shows "jpeg_segment bs i (j + 2 - i)"
proof -
  have j: "i + 2 \<le> j" "eoi_at bs j" "j + 2 \<le> length bs"
    using find_eoi_Some [OF assms(2)] find_eoi_bound [OF assms(2)] by auto
  then have "i + (j + 2 - i) - 2 = j" by simp
  with assms j find_eoi_first [OF assms(2)] show ?thesis
    by (simp add: jpeg_segment_def)
qed

lemma jpeg_segment_unique:
  assumes "jpeg_segment bs s n" shows "find_eoi bs (s + 2) = Some (s + n - 2)"
proof -
  have le: "s + 2 \<le> s + n - 2" and e: "eoi_at bs (s + n - 2)"
    and first: "\<And>l. s + 2 \<le> l \<Longrightarrow> l < s + n - 2 \<Longrightarrow> \<not> eoi_at bs l"
    using assms by (auto simp: jpeg_segment_def)
  show ?thesis
  proof (cases "find_eoi bs (s + 2)")
    case None
    from find_eoi_None [OF None le] e show ?thesis by simp
  next
    case (Some j)
    have "\<not> j < s + n - 2" using find_eoi_Some [OF Some] first by blast
    moreover have "\<not> s + n - 2 < j" using find_eoi_first [OF Some le] e by blast
    ultimately show ?thesis using Some by simp
  qed
qed

definition best_ok :: "byte list \<Rightarrow> nat \<times> nat \<Rightarrow> bool" where
  "best_ok bs best \<longleftrightarrow> best = (0, 0) \<or> jpeg_segment bs (fst best) (snd best)"

lemma scan_jpeg_ok: "best_ok bs best \<Longrightarrow> best_ok bs (scan_jpeg bs i best)"
proof (induction bs i best rule: scan_jpeg.induct)
  case (1 bs i best)
  show ?case
  proof (cases "soi_at bs i")
    case False
    with 1 show ?thesis
      by (auto simp: scan_jpeg.simps [of bs i best] soi_at_def)
  next
    case True
    then have g: "i + 1 < length bs" "bs ! i = 0xFF \<and> bs ! (i + 1) = 0xD8"
      by (simp_all add: soi_at_def)
    show ?thesis
    proof (cases "find_eoi bs (i + 2)")
      case None
      with 1 g show ?thesis by (simp add: scan_jpeg.simps [of bs i best])
    next
      case (Some j)
      have "best_ok bs (if j + 2 - i > snd best then (i, j + 2 - i) else best)"
        using "1.prems" jpeg_segment_found [OF True Some] by (simp add: best_ok_def)
      with "1.IH"(2) [OF g Some refl]
      have "best_ok bs (scan_jpeg bs (j + 2) (if j + 2 - i > snd best then (i, j + 2 - i) else best))"
        by blast
      moreover have "scan_jpeg bs i best
          = scan_jpeg bs (j + 2) (if j + 2 - i > snd best then (i, j + 2 - i) else best)"
        using g Some by (simp add: scan_jpeg.simps [of bs i best] Let_def)
      ultimately show ?thesis by (simp only:)
    qed
  qed
qed

lemma scan_jpeg_mono: "snd best \<le> snd (scan_jpeg bs i best)"
proof (induction bs i best rule: scan_jpeg.induct)
  case (1 bs i best)
  then show ?case
    by (subst scan_jpeg.simps) (force simp: Let_def split: option.split if_splits)
qed

text \<open>
  Two complete segments that overlap end at the same FF D9, so the outer loop may skip to the
  end of the one it found: nothing it skips is longer.
\<close>

lemma skipped_shorter:
  assumes "soi_at bs i" "find_eoi bs (i + 2) = Some j" "jpeg_segment bs s n" "i \<le> s" "s < j + 2"
  shows "n \<le> j + 2 - i"
proof -
  have e: "eoi_at bs j" using find_eoi_Some [OF assms(2)] by simp
  have s: "soi_at bs s" "4 \<le> n" and f: "find_eoi bs (s + 2) = Some (s + n - 2)"
    using assms(3) jpeg_segment_unique [OF assms(3)] by (auto simp: jpeg_segment_def)
  have "s \<noteq> j" "s \<noteq> j + 1" "s + 1 \<noteq> j"
    using e s(1) by (auto simp: eoi_at_def soi_at_def)
  with assms(5) have "s + 2 \<le> j" by simp
  with find_eoi_first [OF f this] e have "\<not> j < s + n - 2" by blast
  with s(2) assms(4) show ?thesis by simp
qed

lemma scan_jpeg_longest:
  "jpeg_segment bs s n \<Longrightarrow> i \<le> s \<Longrightarrow> n \<le> snd (scan_jpeg bs i best)"
proof (induction bs i best rule: scan_jpeg.induct)
  case (1 bs i best)
  have g: "i + 1 < length bs" using "1.prems" by (auto simp: jpeg_segment_def soi_at_def)
  show ?case
  proof (cases "soi_at bs i")
    case False
    with "1.prems" have "i + 1 \<le> s" by (metis jpeg_segment_def Suc_eq_plus1 le_neq_implies_less Suc_leI)
    moreover have ng: "\<not> (bs ! i = 0xFF \<and> bs ! (i + 1) = 0xD8)" using False g by (simp add: soi_at_def)
    ultimately show ?thesis
      using "1.IH"(3) [OF g ng "1.prems"(1)] g ng by (subst scan_jpeg.simps) auto
  next
    case True
    then have h: "bs ! i = 0xFF \<and> bs ! (i + 1) = 0xD8" by (simp add: soi_at_def)
    show ?thesis
    proof (cases "find_eoi bs (i + 2)")
      case None
      then have "s \<noteq> i" using jpeg_segment_unique [OF "1.prems"(1)] by auto
      with "1.prems" have "i + 1 \<le> s" by simp
      with "1.IH"(1) [OF g h None "1.prems"(1)] g h None show ?thesis
        by (simp add: scan_jpeg.simps [of bs i best])
    next
      case (Some j)
      let ?best = "if j + 2 - i > snd best then (i, j + 2 - i) else best"
      have eq: "scan_jpeg bs i best = scan_jpeg bs (j + 2) ?best"
        using g h Some by (simp add: scan_jpeg.simps [of bs i best] Let_def)
      show ?thesis
      proof (cases "s < j + 2")
        case True
        then have "n \<le> snd ?best"
          using skipped_shorter [OF \<open>soi_at bs i\<close> Some "1.prems" True] by auto
        with eq scan_jpeg_mono show ?thesis by (metis le_trans)
      next
        case False
        with "1.IH"(2) [OF g h Some refl "1.prems"(1)] eq show ?thesis by simp
      qed
    qed
  qed
qed

text \<open>
  C31: The thumbnail is a longest complete JPEG segment of the DNG. If the file has a
  complete segment of at least 64 bytes and the output can be opened, what is written starts
  with FF D8, ends with its first FF D9, and no complete segment anywhere in the file is
  longer (nested ones included); otherwise nothing is written and the result is empty.
\<close>

theorem extract_thumbnail_longest:
  assumes "content fs dng = Some bs"
  shows "if open_out \<and> (\<exists>s n. jpeg_segment bs s n \<and> 64 \<le> n)
         then fst (extract_thumbnail open_out now dng out fs) = out \<and>
              (\<exists>s n. jpeg_segment bs s n \<and> (\<forall>s' n'. jpeg_segment bs s' n' \<longrightarrow> n' \<le> n) \<and>
                     content (snd (extract_thumbnail open_out now dng out fs)) out
                       = Some (take n (drop s bs)))
         else extract_thumbnail open_out now dng out fs = ([], fs)"
proof -
  obtain s n where sn: "scan_jpeg bs 0 (0, 0) = (s, n)" by fastforce
  have ok: "best_ok bs (s, n)"
    using scan_jpeg_ok [of bs "(0, 0)" 0] sn by (simp add: best_ok_def)
  have longest: "n' \<le> n" if "jpeg_segment bs s' n'" for s' n'
    using scan_jpeg_longest [OF that, of 0 "(0, 0)"] sn by simp
  show ?thesis
  proof (cases "64 \<le> n")
    case True
    with ok have "jpeg_segment bs s n" by (auto simp: best_ok_def)
    with assms sn longest True show ?thesis
      by (auto simp: extract_thumbnail_def)
  next
    case False
    with longest have "\<not> (\<exists>s n. jpeg_segment bs s n \<and> 64 \<le> n)" by fastforce
    moreover have "extract_thumbnail open_out now dng out fs = ([], fs)"
      using False assms sn by (simp add: extract_thumbnail_def)
    ultimately show ?thesis by (auto split: if_split)
  qed
qed

definition demo_dng :: "byte list" where
  "demo_dng = [0x49, 0xFF, 0xD8] @ replicate 62 0 @ [0xFF, 0xD9, 7]"

lemma demo_dng_segment: "jpeg_segment demo_dng 1 66"
proof -
  have "soi_at demo_dng 1" by (simp add: demo_dng_def soi_at_def)
  moreover have "eoi_at demo_dng 65" by (simp add: demo_dng_def eoi_at_def nth_append)
  moreover have "\<not> eoi_at demo_dng l" if "3 \<le> l" "l < 65" for l
    using that by (auto simp: demo_dng_def eoi_at_def nth_append nth_Cons')
  moreover have "length demo_dng = 68" by (simp add: demo_dng_def)
  ultimately show ?thesis by (simp add: jpeg_segment_def)
qed

theorem extract_thumbnail_longest_witness:
  "\<exists>seg. let r = extract_thumbnail True 0 ''d'' ''t'' \<lparr>files = [''d'' \<mapsto> \<lparr>f_data = demo_dng, f_mtime = 0\<rparr>], dirs = {}\<rparr>
     in fst r = ''t'' \<and> content (snd r) ''t'' = Some seg \<and> 66 \<le> length seg"
proof -
  let ?fs = "\<lparr>files = [''d'' \<mapsto> \<lparr>f_data = demo_dng, f_mtime = 0\<rparr>], dirs = {}\<rparr>"
  have c: "content ?fs ''d'' = Some demo_dng" by (simp add: content_def)
  have big: "\<exists>s n. jpeg_segment demo_dng s n \<and> 64 \<le> n" using demo_dng_segment by fastforce
  obtain s n where sn: "jpeg_segment demo_dng s n" "\<forall>s' n'. jpeg_segment demo_dng s' n' \<longrightarrow> n' \<le> n"
      "content (snd (extract_thumbnail True 0 ''d'' ''t'' ?fs)) ''t'' = Some (take n (drop s demo_dng))"
      "fst (extract_thumbnail True 0 ''d'' ''t'' ?fs) = ''t''"
    using extract_thumbnail_longest [OF c, of True 0 "''t''"] big by auto
  have "66 \<le> n" using sn(2) demo_dng_segment by blast
  moreover have "s + n \<le> length demo_dng" using sn(1) by (auto simp: jpeg_segment_def eoi_at_def)
  ultimately show ?thesis using sn(3,4) by (auto simp: Let_def)
qed

section \<open>FNV-1a and the fast fingerprint\<close>

definition fnv_step :: "64 word \<Rightarrow> byte \<Rightarrow> 64 word" where
  "fnv_step hash b = (hash XOR ucast b) * 0x100000001b3"

definition fnv1a_64 :: "byte list \<Rightarrow> 64 word" where
  "fnv1a_64 bs = foldl fnv_step 0xcbf29ce484222325 bs"

text \<open>The FNV prime is odd, so multiplying by it is a bijection modulo 2 to the 64.\<close>

lemma fnv_prime_inverse: "(0x100000001b3 :: 64 word) * 0xce965057aff6957b = 1"
  by simp

lemma fnv_prime_cancel: "x * 0x100000001b3 = y * (0x100000001b3 :: 64 word) \<longleftrightarrow> x = y"
proof
  assume "x * 0x100000001b3 = y * 0x100000001b3"
  then have "x * (0x100000001b3 * 0xce965057aff6957b) = y * (0x100000001b3 * 0xce965057aff6957b)"
    by (simp only: mult.assoc [symmetric])
  then show "x = y" by (simp only: fnv_prime_inverse mult_1_right)
qed simp

lemma xor_cancel_left: "(h :: 'a::len word) XOR x = h XOR y \<longleftrightarrow> x = y"
  by (metis xor.left_commute xor_self_eq xor.right_neutral)

lemma xor_cancel_right: "(x :: 'a::len word) XOR h = y XOR h \<longleftrightarrow> x = y"
  using xor_cancel_left by (metis xor.commute)

lemma fnv_step_hash_inject: "fnv_step h b = fnv_step h' b \<longleftrightarrow> h = h'"
  by (simp add: fnv_step_def fnv_prime_cancel xor_cancel_right)

lemma ucast_byte_inject: "(ucast (a :: byte) :: 64 word) = ucast b \<longleftrightarrow> a = b"
proof
  assume "(ucast a :: 64 word) = ucast b"
  then have "(ucast (ucast a :: 64 word) :: byte) = ucast (ucast b :: 64 word)" by simp
  then show "a = b" by (simp add: ucast_up_ucast_id is_up)
qed simp

lemma fnv_step_byte_inject: "fnv_step h a = fnv_step h b \<longleftrightarrow> a = b"
  by (simp add: fnv_step_def fnv_prime_cancel xor_cancel_left ucast_byte_inject)

lemma foldl_fnv_inject: "foldl fnv_step h zs = foldl fnv_step h' zs \<longleftrightarrow> h = h'"
  by (induction zs arbitrary: h h') (simp_all add: fnv_step_hash_inject)

lemma fnv1a_64_append: "fnv1a_64 (xs @ zs) = foldl fnv_step (fnv1a_64 xs) zs"
  by (simp add: fnv1a_64_def)

text \<open>
  FNV-1a detects every change of a single byte: two inputs that differ in exactly one
  position have different hashes, for any length and any position (the multiplication wraps
  modulo 2 to the 64 and is still invertible).
\<close>

theorem fnv1a_single_byte: "fnv1a_64 (xs @ a # zs) = fnv1a_64 (xs @ b # zs) \<longleftrightarrow> a = b"
  by (simp add: fnv1a_64_append foldl_fnv_inject fnv_step_byte_inject)

record fingerprint =
  fp_size :: "64 word"
  fp_mtime :: "64 word"
  fp_fnv :: "64 word"

definition compute_fast_fingerprint :: "bool \<Rightarrow> fsys \<Rightarrow> path \<Rightarrow> fingerprint" where
  "compute_fast_fingerprint open_ok fs p =
     (case files fs p of
        None \<Rightarrow> \<lparr>fp_size = 0, fp_mtime = 0, fp_fnv = 0\<rparr>
      | Some f \<Rightarrow>
          let fp = \<lparr>fp_size = of_nat (length (f_data f)), fp_mtime = word_of_int (f_mtime f), fp_fnv = 0\<rparr>;
              buf = take 4096 (f_data f)
          in if \<not> open_ok then fp
             else if length buf > 0 then fp\<lparr>fp_fnv := fnv1a_64 buf\<rparr>
             else fp)"

text \<open>
  C32: The exact detection power of the fast fingerprint on a one-byte edit that keeps size
  and modification time: the two fingerprints differ if the byte is among the first 4096 and
  are equal if it is not. So a matching fingerprint does not prove the files byte-identical.
\<close>

theorem fingerprint_one_byte:
  assumes "files fs p = Some \<lparr>f_data = xs @ a # zs, f_mtime = t\<rparr>"
    and "files fs' p = Some \<lparr>f_data = xs @ b # zs, f_mtime = t\<rparr>" and "a \<noteq> b"
  shows "compute_fast_fingerprint True fs p = compute_fast_fingerprint True fs' p
         \<longleftrightarrow> 4096 \<le> length xs"
proof (cases "4096 \<le> length xs")
  case True
  with assms show ?thesis by (simp add: compute_fast_fingerprint_def Let_def)
next
  case False
  define k where "k = 4095 - length xs"
  have tk: "take 4096 (xs @ c # zs) = xs @ c # take k zs" for c
    using False by (simp add: take_Cons' k_def)
  have "fp_fnv (compute_fast_fingerprint True fs p) = fnv1a_64 (xs @ a # take k zs)"
    "fp_fnv (compute_fast_fingerprint True fs' p) = fnv1a_64 (xs @ b # take k zs)"
    using assms(1,2) tk by (simp_all add: compute_fast_fingerprint_def Let_def)
  with assms(3) have "fp_fnv (compute_fast_fingerprint True fs p) \<noteq> fp_fnv (compute_fast_fingerprint True fs' p)"
    by (simp add: fnv1a_single_byte)
  with False show ?thesis by auto
qed

theorem fingerprint_one_byte_witness:
  "compute_fast_fingerprint True \<lparr>files = [''p'' \<mapsto> \<lparr>f_data = replicate 5000 0 @ [1], f_mtime = 9\<rparr>], dirs = {}\<rparr> ''p''
   = compute_fast_fingerprint True \<lparr>files = [''p'' \<mapsto> \<lparr>f_data = replicate 5000 0 @ [2], f_mtime = 9\<rparr>], dirs = {}\<rparr> ''p''"
  using fingerprint_one_byte
    [of "\<lparr>files = [''p'' \<mapsto> \<lparr>f_data = replicate 5000 0 @ [1], f_mtime = 9\<rparr>], dirs = {}\<rparr>" "''p''"
        "replicate 5000 0" 1 "[]" 9
        "\<lparr>files = [''p'' \<mapsto> \<lparr>f_data = replicate 5000 0 @ [2], f_mtime = 9\<rparr>], dirs = {}\<rparr>" 2]
  by simp

end
