(* ===== verification/Db_Tables.thy ===== *)
theory Db_Tables
  imports Pipeline
begin

text \<open>
  The database behind \<open>src/src/db.cpp\<close>. The tables are those of
  \<open>migrations/0001_init.sql\<close>; a statement of the code is read as the operation its SQL text
  says on these tables. What the MariaDB server decides is in the record \<open>server\<close>: which
  statements it executes (a lost connection, a failed prepare, bind or execute and a lock
  timeout are all "not executed"), which row of an unordered \<open>LIMIT 1\<close> it returns, when it
  finds two texts equal (its collation), which rows it accepts into \<open>imports\<close> (column
  types, lengths and the JSON check), whether its SQL mode is strict (an over-long text is an
  error, and is cut otherwise), what \<open>NOW()\<close> is, and whether the client library leaves the
  buffer and the length of a bound column untouched when a fetched value is NULL (it sets
  the NULL indicator, which the code does not bind). Every theorem holds for all of
  these, unless it names \<open>server_ok\<close> or a statement outcome as a hypothesis.
\<close>

record server =
  stmt_ok :: "nat \<Rightarrow> bool"
  pick :: "nat \<Rightarrow> nat"
  txt_eq :: "string \<Rightarrow> string \<Rightarrow> bool"
  row_ok :: "import_record \<Rightarrow> bool"
  json_ok :: "string \<Rightarrow> bool"
  now_txt :: "nat \<Rightarrow> string"
  strict :: bool
  keeps_null :: bool

type_synonym seq_row = "int \<times> string"

record reconversion_row =
  rc_id :: int
  rc_import_id :: int
  rc_previous :: string
  rc_new :: "string option"
  rc_settings :: string
  rc_reason :: string
  rc_status :: string

record alert_row =
  al_severity :: string
  al_category :: string
  al_message :: string
  al_ref :: string

record preview_edit_row =
  pe_import_id :: int
  pe_worker :: string
  pe_previous :: string
  pe_new :: string
  pe_width :: int
  pe_height :: int
  pe_quality :: int

text \<open>
  The connection's state: the server, the number of statements sent so far, the tables, and
  the AUTO_INCREMENT counters, which InnoDB does not roll back. \<open>ddl_log\<close> lists the
  migration statements the server has executed.
\<close>

record db =
  conn :: bool
  srv :: server
  stmt_no :: nat
  sequences :: "seq_row list"
  seq_next :: int
  import_rows :: "import_record list"
  imp_next :: int
  reconversions :: "reconversion_row list"
  rc_next :: int
  locks :: "int \<rightharpoonup> string \<times> int"
  alerts :: "alert_row list"
  preview_edits :: "preview_edit_row list"
  applied :: "string list"
  ddl_log :: "string list"

text \<open>Sending one statement: whether the server executes it, and the statement counter.\<close>

definition send :: "db \<Rightarrow> bool \<times> db" where
  "send d = (stmt_ok (srv d) (stmt_no d), d\<lparr>stmt_no := Suc (stmt_no d)\<rparr>)"

lemma send_eq: "send d = (ok, d') \<longleftrightarrow> ok = stmt_ok (srv d) (stmt_no d) \<and> d' = d\<lparr>stmt_no := Suc (stmt_no d)\<rparr>"
  by (auto simp: send_def)

text \<open>A \<open>LIMIT 1\<close> without \<open>ORDER BY\<close>: one of the matching rows, the server's choice.\<close>

definition limit1 :: "server \<Rightarrow> 'a list \<Rightarrow> 'a option" where
  "limit1 s rows = (if rows = [] then None else Some (rows ! (pick s (length rows) mod length rows)))"

lemma limit1_Some: "limit1 s rows = Some r \<Longrightarrow> r \<in> set rows"
  by (auto simp: limit1_def split: if_splits)

lemma limit1_None [simp]: "limit1 s rows = None \<longleftrightarrow> rows = []"
  by (simp add: limit1_def)

lemma limit1_empty [simp]: "limit1 s [] = None"
  by (simp add: limit1_def)

lemma limit1_single [simp]: "limit1 s [r] = Some r"
  by (simp add: limit1_def)

section \<open>Fetching rows\<close>

text \<open>
  \<open>exec_select\<close> and \<open>ListImports\<close> fetch into one fixed buffer of 8192 bytes per column, with
  one length per column, both allocated before the loop and reused for every row. A row with
  a longer column is reported as truncated: it and every later row are dropped. A NULL column
  either keeps what the previous row left in the buffer and the length, or has length 0.
\<close>

definition kBuf :: nat where
  "kBuf = 8192"

definition row_fits :: "string list \<Rightarrow> bool" where
  "row_fits v \<longleftrightarrow> (\<forall>c \<in> set v. length c \<le> kBuf)"

definition fetch_column :: "bool \<Rightarrow> string \<Rightarrow> string option \<Rightarrow> string" where
  "fetch_column keep old c = (case c of Some t \<Rightarrow> t | None \<Rightarrow> if keep then old else [])"

fun fetch_rows :: "bool \<Rightarrow> string list \<Rightarrow> string option list list \<Rightarrow> string list list" where
  "fetch_rows keep bufs [] = []"
| "fetch_rows keep bufs (row # rows) =
     (let v = map2 (fetch_column keep) bufs row
      in if row_fits v then v # fetch_rows keep v rows else [])"

definition exec_select :: "nat \<Rightarrow> (db \<Rightarrow> string option list list) \<Rightarrow> db \<Rightarrow> string list list \<times> db" where
  "exec_select ncols query d =
     (let (ok, d1) = send d
      in (if ok \<and> ncols \<noteq> 0
          then fetch_rows (keeps_null (srv d)) (replicate ncols []) (query d) else [], d1))"

text \<open>A row whose NULL columns read as empty texts.\<close>

definition plain_row :: "string option list \<Rightarrow> string list" where
  "plain_row row = map (\<lambda>c. case c of None \<Rightarrow> [] | Some t \<Rightarrow> t) row"

lemma fetch_fresh: "map2 (fetch_column keep) (replicate (length row) []) row = plain_row row"
  by (induction row) (auto simp: plain_row_def fetch_column_def split: option.split)

lemma fetch_full: "length bufs = length row \<Longrightarrow> \<not> keep \<or> None \<notin> set row \<Longrightarrow>
    map2 (fetch_column keep) bufs row = plain_row row"
  by (induction bufs row rule: list_induct2) (auto simp: plain_row_def fetch_column_def split: option.split)

lemma length_plain_row [simp]: "length (plain_row row) = length row"
  by (simp add: plain_row_def)

lemma fetch_rows_plain:
  assumes "\<And>row. row \<in> set rows \<Longrightarrow> length row = length bufs \<and> (\<not> keep \<or> None \<notin> set row) \<and> row_fits (plain_row row)"
  shows "fetch_rows keep bufs rows = map plain_row rows"
  using assms by (induction rows arbitrary: bufs) (simp_all add: fetch_full Let_def)

lemma fetch_one: "length row = n \<Longrightarrow>
    fetch_rows keep (replicate n []) [row] = (if row_fits (plain_row row) then [plain_row row] else [])"
  by (auto simp: fetch_fresh Let_def)

lemma exec_select_snd [simp]: "snd (exec_select n query d) = d\<lparr>stmt_no := Suc (stmt_no d)\<rparr>"
  by (simp add: exec_select_def send_def)

definition seq_name :: "int \<Rightarrow> string" where
  "seq_name n = ''IMG_'' @ dec_int n"

lemma seq_name_inject [simp]: "seq_name m = seq_name n \<longleftrightarrow> m = n"
  by (simp add: seq_name_def)

text \<open>
  Documented behaviour of the collations the schema may be created with: text comparison is
  reflexive, and names that differ in their digits, or in their first three letters, differ.
\<close>

definition server_ok :: "server \<Rightarrow> bool" where
  "server_ok s \<longleftrightarrow> (\<forall>x. txt_eq s x x) \<and> \<not> txt_eq s ''IMG'' ''TMP'' \<and>
     (\<forall>n. \<not> txt_eq s (seq_name n) []) \<and>
     (\<forall>m n. txt_eq s (seq_name m) (seq_name n) \<longrightarrow> m = n)"

text \<open>
  A value stored into a column it does not fit: refused or adapted, by SQL mode. Texts are
  cut, numbers clamped, and an unknown ENUM value becomes the empty text.
\<close>

definition varchar :: "server \<Rightarrow> nat \<Rightarrow> string \<Rightarrow> string option" where
  "varchar s n t = (if length t \<le> n then Some t else if strict s then None else Some (take n t))"

definition unsigned_col :: "server \<Rightarrow> int \<Rightarrow> int \<Rightarrow> int option" where
  "unsigned_col s m v = (if 0 \<le> v \<and> v \<le> m then Some v else if strict s then None else Some (max 0 (min m v)))"

definition enum_col :: "server \<Rightarrow> string list \<Rightarrow> string \<Rightarrow> string option" where
  "enum_col s vals v = (if v \<in> set vals then Some v else if strict s then None else Some [])"

text \<open>A server that executes everything, with a case-insensitive collation: for witnesses.\<close>

definition ci_eq :: "string \<Rightarrow> string \<Rightarrow> bool" where
  "ci_eq a b \<longleftrightarrow> map tolower a = map tolower b"

definition good_server :: server where
  "good_server = \<lparr>stmt_ok = (\<lambda>_. True), pick = (\<lambda>_. 0), txt_eq = ci_eq, row_ok = (\<lambda>_. True),
     json_ok = (\<lambda>_. True), now_txt = (\<lambda>_. ''now''), strict = True, keeps_null = True\<rparr>"

definition empty_db :: "server \<Rightarrow> db" where
  "empty_db s = \<lparr>conn = True, srv = s, stmt_no = 0, sequences = [], seq_next = 1, import_rows = [],
     imp_next = 1, reconversions = [], rc_next = 1, locks = Map.empty, alerts = [],
     preview_edits = [], applied = [], ddl_log = []\<rparr>"

lemma tolower_digit: "isdigit c \<Longrightarrow> tolower c = c"
  by (auto simp: tolower_def isdigit_def Let_def)

lemma map_tolower_dec_nat [simp]: "map tolower (dec_nat n) = dec_nat n"
  using dec_nat_digits tolower_digit by (metis map_idI)

lemma map_tolower_dec_int [simp]: "map tolower (dec_int i) = dec_int i"
  by (simp add: dec_int_def tolower_def)

lemma server_ok_good [simp]: "server_ok good_server"
  by (simp add: server_ok_def good_server_def ci_eq_def seq_name_def tolower_def)

section \<open>Well-formed tables\<close>

text \<open>
  The tables' invariant: ids of \<open>sequences\<close> and \<open>imports\<close> are distinct and below the
  AUTO_INCREMENT counters, which start at 1; every import refers to an existing sequence (the
  foreign key); a sequence row is named after its id, unless it is a left-over placeholder.
\<close>

definition like_tmp :: "server \<Rightarrow> string \<Rightarrow> bool" where
  "like_tmp s n \<longleftrightarrow> 4 \<le> length n \<and> txt_eq s (take 3 n) ''TMP''"

definition stale_name :: "server \<Rightarrow> string \<Rightarrow> bool" where
  "stale_name s n \<longleftrightarrow> txt_eq s n [] \<or> like_tmp s n"

definition seqs_wf :: "server \<Rightarrow> seq_row list \<Rightarrow> int \<Rightarrow> bool" where
  "seqs_wf s rows nxt \<longleftrightarrow> 1 \<le> nxt \<and> distinct (map fst rows) \<and>
     (\<forall>(i, n) \<in> set rows. 1 \<le> i \<and> i < nxt \<and> (n = seq_name i \<or> stale_name s n))"

definition imports_wf :: "import_record list \<Rightarrow> int \<Rightarrow> int set \<Rightarrow> bool" where
  "imports_wf rows nxt ids \<longleftrightarrow> 1 \<le> nxt \<and> distinct (map rec_id rows) \<and>
     (\<forall>r \<in> set rows. 1 \<le> rec_id r \<and> rec_id r < nxt \<and> sequence_id r \<in> ids)"

definition db_wf :: "db \<Rightarrow> bool" where
  "db_wf d \<longleftrightarrow> seqs_wf (srv d) (sequences d) (seq_next d) \<and>
     imports_wf (import_rows d) (imp_next d) (fst ` set (sequences d))"

lemma empty_db_wf: "db_wf (empty_db s)"
  by (simp add: db_wf_def seqs_wf_def imports_wf_def empty_db_def)

lemma seq_name_not_stale: "server_ok s \<Longrightarrow> \<not> stale_name s (seq_name n)"
  by (auto simp: stale_name_def like_tmp_def server_ok_def seq_name_def)

end
