(* ===== verification/Sequences.thy ===== *)
theory Sequences
  imports Db_Tables
begin

text \<open>
  \<open>Store::AllocateSequence\<close> of \<open>src/src/db.cpp\<close>: the transaction that hands out the number of
  the next \<open>IMG_n\<close>. The locale \<open>sequencer\<close> is what its callers rely on (numbers never
  repeat and never go back, failed calls included); \<open>AllocateSequence\<close> provides it on every
  server, whichever of its statements fail.
\<close>

section \<open>The statements\<close>

text \<open>
  \<open>DELETE FROM sequences WHERE P(name)\<close>: refused as a whole if a matching row is referenced by
  an import (\<open>ON DELETE RESTRICT\<close>).
\<close>

definition delete_sequences :: "(string \<Rightarrow> bool) \<Rightarrow> db \<Rightarrow> bool \<times> db" where
  "delete_sequences P d =
     (let (ok, d1) = send d
      in if ok \<and> (\<forall>(i, n) \<in> set (sequences d). P n \<longrightarrow> (\<forall>r \<in> set (import_rows d). sequence_id r \<noteq> i))
         then (True, d1\<lparr>sequences := [(i, n) \<leftarrow> sequences d. \<not> P n]\<rparr>)
         else (False, d1))"

text \<open>
  \<open>INSERT INTO sequences(name) VALUES(?)\<close>, with the UNIQUE index on \<open>name\<close> and its width,
  \<open>VARCHAR(32)\<close>.
\<close>

definition insert_sequence :: "string \<Rightarrow> db \<Rightarrow> bool \<times> db" where
  "insert_sequence name d =
     (let (ok, d1) = send d
      in if \<not> ok then (False, d1)
         else case varchar (srv d) 32 name of
                None \<Rightarrow> (False, d1)
              | Some nm \<Rightarrow>
                  if \<exists>(i, n) \<in> set (sequences d). txt_eq (srv d) n nm
                  then (False, d1\<lparr>seq_next := seq_next d + 1\<rparr>)
                  else (True, d1\<lparr>sequences := sequences d @ [(seq_next d, nm)], seq_next := seq_next d + 1\<rparr>))"

text \<open>\<open>UPDATE sequences SET name=? WHERE id=?\<close>.\<close>

definition rename_sequence :: "string \<Rightarrow> int \<Rightarrow> db \<Rightarrow> bool \<times> db" where
  "rename_sequence name sid d =
     (let (ok, d1) = send d
      in if ok \<and> \<not> (\<exists>(i, n) \<in> set (sequences d). i \<noteq> sid \<and> txt_eq (srv d) n name)
         then (True, d1\<lparr>sequences := map (\<lambda>(i, n). if i = sid then (i, name) else (i, n)) (sequences d)\<rparr>)
         else (False, d1))"

text \<open>
  \<open>ROLLBACK\<close> restores the rows of the transaction's start. If the statement itself is not
  executed the connection is gone and the server rolls back on its own.
\<close>

definition rollback :: "seq_row list \<Rightarrow> db \<Rightarrow> db" where
  "rollback saved d = (snd (send d))\<lparr>sequences := saved\<rparr>"

text \<open>\<open>tok\<close> is the text \<open>random_token()\<close> returns.\<close>

definition AllocateSequence :: "string \<Rightarrow> db \<Rightarrow> (int \<times> string) \<times> db" where
  "AllocateSequence tok d =
     (let d1 = snd (delete_sequences (\<lambda>n. txt_eq (srv d) n []) d);
          d2 = snd (delete_sequences (like_tmp (srv d)) d1);
          tmp = ''TMP_'' @ tok;
          (started, d3) = send d2
      in if \<not> started then ((0, []), d3)
         else
           let saved = sequences d3;
               (ins, d4) = insert_sequence tmp d3
           in if \<not> ins then ((0, []), rollback saved d4)
              else
                let sid = seq_next d3
                in if sid = 0 then ((0, []), rollback saved d4)
                   else
                     let name = ''IMG_'' @ dec_int sid;
                         (upd, d5) = rename_sequence name sid d4
                     in if \<not> upd then ((0, []), rollback saved d5)
                        else
                          let (committed, d6) = send d5
                          in if \<not> committed then ((0, []), rollback saved d6)
                             else ((sid, name), d6))"

section \<open>The interface\<close>

locale sequencer =
  fixes alloc :: "'t \<Rightarrow> 's \<Rightarrow> (int \<times> string) \<times> 's"
    and nxt :: "'s \<Rightarrow> int"
    and ok :: "'s \<Rightarrow> bool"
  assumes allocated: "ok s \<Longrightarrow> alloc t s = ((n, name), s') \<Longrightarrow> n \<noteq> 0 \<Longrightarrow>
      nxt s \<le> n \<and> n < nxt s' \<and> name = seq_name n"
    and failed: "ok s \<Longrightarrow> alloc t s = ((0, name), s') \<Longrightarrow> nxt s \<le> nxt s'"
    and ok_kept: "ok s \<Longrightarrow> ok (snd (alloc t s))"
    and positive: "ok s \<Longrightarrow> 1 \<le> nxt s"
begin

lemma nxt_mono: "ok s \<Longrightarrow> nxt s \<le> nxt (snd (alloc t s))"
proof -
  assume "ok s"
  obtain n name s' where a: "alloc t s = ((n, name), s')" by (metis prod.exhaust)
  show ?thesis
  proof (cases "n = 0")
    case True
    with a \<open>ok s\<close> failed [of s t name s'] show ?thesis by simp
  next
    case False
    with a \<open>ok s\<close> allocated [of s t n name s'] show ?thesis by simp
  qed
qed

end

text \<open>A run of allocations, one token each: the numbers handed out, in order, failures left out.\<close>

fun alloc_run :: "('t \<Rightarrow> 's \<Rightarrow> (int \<times> string) \<times> 's) \<Rightarrow> 't list \<Rightarrow> 's \<Rightarrow> int list \<times> 's" where
  "alloc_run alloc [] s = ([], s)"
| "alloc_run alloc (t # ts) s =
     (let ((n, name), s1) = alloc t s;
          (ns, s2) = alloc_run alloc ts s1
      in (if n = 0 then ns else n # ns, s2))"

context sequencer begin

lemma alloc_run_bounds:
  "ok s \<Longrightarrow> alloc_run alloc ts s = (ns, s') \<Longrightarrow>
     nxt s \<le> nxt s' \<and> ok s' \<and> (\<forall>n \<in> set ns. nxt s \<le> n \<and> n < nxt s') \<and> sorted_wrt (<) ns"
proof (induction ts arbitrary: s ns s')
  case Nil
  then show ?case by simp
next
  case (Cons t ts)
  obtain n name s1 where a: "alloc t s = ((n, name), s1)" by (metis prod.exhaust)
  obtain ms s2 where r: "alloc_run alloc ts s1 = (ms, s2)" by fastforce
  have ok1: "ok s1" using ok_kept [OF Cons.prems(1), of t] a by simp
  have le: "nxt s \<le> nxt s1" using nxt_mono [OF Cons.prems(1), of t] a by simp
  note IH = Cons.IH [OF ok1 r]
  have out: "ns = (if n = 0 then ms else n # ms)" "s' = s2" using Cons.prems(2) a r by auto
  show ?case
  proof (cases "n = 0")
    case True
    with IH le out show ?thesis by fastforce
  next
    case False
    with a Cons.prems(1) allocated [of s t n name s1] have "nxt s \<le> n" "n < nxt s1" by auto
    with False IH le out show ?thesis by fastforce
  qed
qed

end

section \<open>AllocateSequence provides it\<close>

text \<open>Everything but \<open>sequences\<close>, its counter and the statement count is as before.\<close>

definition same_rest :: "db \<Rightarrow> db \<Rightarrow> bool" where
  "same_rest d d' \<longleftrightarrow> conn d' = conn d \<and> srv d' = srv d \<and> import_rows d' = import_rows d \<and>
     imp_next d' = imp_next d \<and> reconversions d' = reconversions d \<and> rc_next d' = rc_next d \<and>
     locks d' = locks d \<and> alerts d' = alerts d \<and> preview_edits d' = preview_edits d \<and>
     applied d' = applied d \<and> ddl_log d' = ddl_log d"

lemma same_rest_refl [simp]: "same_rest d d"
  by (simp add: same_rest_def)

lemma same_rest_trans: "same_rest d d1 \<Longrightarrow> same_rest d1 d2 \<Longrightarrow> same_rest d d2"
  by (simp add: same_rest_def)

lemma same_rest_steps:
  "same_rest d (snd (delete_sequences P d))"
  "same_rest d (snd (insert_sequence n d))"
  "same_rest d (snd (rename_sequence n i d))"
  "same_rest d (snd (send d))"
  "same_rest d (rollback rows d)"
  by (auto simp: same_rest_def delete_sequences_def insert_sequence_def rename_sequence_def
      rollback_def send_def split: option.split)

lemmas rest_steps = same_rest_steps [THEN same_rest_trans [rotated]]

lemma AllocateSequence_rest: "same_rest d (snd (AllocateSequence tok d))"
  by (auto simp: AllocateSequence_def Let_def split_beta intro!: rest_steps)

text \<open>The sequences part of the invariant, on its own.\<close>

lemma seqs_wf_filter: "seqs_wf s rows k \<Longrightarrow> seqs_wf s (filter P rows) k"
  by (auto simp: seqs_wf_def distinct_map_filter)

lemma seqs_wf_next: "seqs_wf s rows k \<Longrightarrow> seqs_wf s rows (k + 1)"
  by (fastforce simp: seqs_wf_def)

lemma seqs_wf_new: "seqs_wf s rows k \<Longrightarrow> seqs_wf s (rows @ [(k, seq_name k)]) (k + 1)"
  by (fastforce simp: seqs_wf_def)

definition clean_rows :: "server \<Rightarrow> db \<Rightarrow> db" where
  "clean_rows sv d = snd (delete_sequences (like_tmp sv) (snd (delete_sequences (\<lambda>n. txt_eq sv n []) d)))"

lemma delete_sequences_rows:
  "\<exists>Q. sequences (snd (delete_sequences P d)) = filter Q (sequences d) \<and>
       (\<forall>(i, n) \<in> set (sequences d). \<not> P n \<or> (\<exists>r \<in> set (import_rows d). sequence_id r = i) \<longrightarrow> Q (i, n))"
proof (cases "fst (delete_sequences P d)")
  case True
  then show ?thesis
    by (intro exI [of _ "\<lambda>(i, n). \<not> P n"])
      (fastforce simp: delete_sequences_def send_def split: if_splits)
next
  case False
  then show ?thesis
    by (intro exI [of _ "\<lambda>_. True"]) (auto simp: delete_sequences_def send_def split: if_splits)
qed

lemma clean_rows_seqs:
  "\<exists>Q. sequences (clean_rows sv d) = filter Q (sequences d) \<and>
       (\<forall>(i, n) \<in> set (sequences d).
          \<not> stale_name sv n \<or> (\<exists>r \<in> set (import_rows d). sequence_id r = i) \<longrightarrow> Q (i, n))"
proof -
  let ?d1 = "snd (delete_sequences (\<lambda>n. txt_eq sv n []) d)"
  have same: "import_rows ?d1 = import_rows d" using same_rest_steps(1) by (simp add: same_rest_def)
  obtain Q1 where q1: "sequences ?d1 = filter Q1 (sequences d)"
      "\<forall>(i, n) \<in> set (sequences d). \<not> txt_eq sv n [] \<or> (\<exists>r \<in> set (import_rows d). sequence_id r = i) \<longrightarrow> Q1 (i, n)"
    using delete_sequences_rows [of "\<lambda>n. txt_eq sv n []" d] by blast
  have cl: "clean_rows sv d = snd (delete_sequences (like_tmp sv) ?d1)"
    by (simp add: clean_rows_def)
  obtain Q2 where q2: "sequences (clean_rows sv d) = filter Q2 (sequences ?d1)"
      "\<forall>(i, n) \<in> set (sequences ?d1). \<not> like_tmp sv n \<or> (\<exists>r \<in> set (import_rows d). sequence_id r = i) \<longrightarrow> Q2 (i, n)"
    using delete_sequences_rows [of "like_tmp sv" ?d1] unfolding same cl by blast
  have "Q1 (i, n) \<and> Q2 (i, n)"
    if "(i, n) \<in> set (sequences d)"
       "\<not> stale_name sv n \<or> (\<exists>r \<in> set (import_rows d). sequence_id r = i)" for i n
  proof -
    from that q1(2) have one: "Q1 (i, n)" by (auto simp: stale_name_def)
    with that(1) q1(1) have "(i, n) \<in> set (sequences ?d1)" by simp
    with that(2) q2(2) have "Q2 (i, n)" by (auto simp: stale_name_def)
    with one show ?thesis ..
  qed
  moreover have "sequences (clean_rows sv d) = filter (\<lambda>x. Q1 x \<and> Q2 x) (sequences d)"
    using q1(1) q2(1) by simp
  ultimately show ?thesis by blast
qed

lemma clean_rows_frame:
  "same_rest d (clean_rows sv d)" "seq_next (clean_rows sv d) = seq_next d"
  using same_rest_trans [OF same_rest_steps(1) same_rest_steps(1)]
  by (auto simp: clean_rows_def delete_sequences_def send_def)

text \<open>The call after its clean-up statements.\<close>

lemma AllocateSequence_after_clean:
  "AllocateSequence tok d =
     (let tmp = ''TMP_'' @ tok; (started, d3) = send (clean_rows (srv d) d)
      in if \<not> started then ((0, []), d3)
         else let saved = sequences d3; (ins, d4) = insert_sequence tmp d3
           in if \<not> ins then ((0, []), rollback saved d4)
              else let sid = seq_next d3
                in if sid = 0 then ((0, []), rollback saved d4)
                   else let name = ''IMG_'' @ dec_int sid; (upd, d5) = rename_sequence name sid d4
                     in if \<not> upd then ((0, []), rollback saved d5)
                        else let (committed, d6) = send d5
                          in if \<not> committed then ((0, []), rollback saved d6) else ((sid, name), d6))"
  by (simp add: AllocateSequence_def clean_rows_def Let_def)

text \<open>What one call leaves behind, case by case.\<close>

lemma AllocateSequence_cases:
  assumes "AllocateSequence tok d = ((n, name), d')" "1 \<le> seq_next d"
  obtains
    (failure) "n = 0" "sequences d' = sequences (clean_rows (srv d) d)"
      "seq_next d' = seq_next d \<or> seq_next d' = seq_next d + 1" "same_rest d d'"
  | (success) "n = seq_next d" "name = seq_name n"
      "\<exists>t. sequences d' = map (\<lambda>(i, m). if i = n then (i, name) else (i, m))
              (sequences (clean_rows (srv d) d) @ [(n, t)])"
      "seq_next d' = seq_next d + 1" "same_rest d d'"
proof -
  define c where "c = clean_rows (srv d) d"
  have c: "same_rest d c" "seq_next c = seq_next d" using clean_rows_frame by (auto simp: c_def)
  note al = AllocateSequence_after_clean [of tok d, folded c_def]
  define ren where "ren m = map (\<lambda>(i, x). if i = m then (i, seq_name m) else (i, x))" for m
  have "n = 0 \<and> sequences d' = sequences c \<and> (seq_next d' = seq_next c \<or> seq_next d' = seq_next c + 1)
          \<and> same_rest c d'
      \<or> n = seq_next c \<and> name = seq_name n \<and> seq_next d' = seq_next c + 1 \<and> same_rest c d' \<and>
         (\<exists>t. sequences d' = ren n (sequences c @ [(n, t)]))"
    using assms(1) unfolding al
    by (auto simp: send_def insert_sequence_def rename_sequence_def rollback_def Let_def
        same_rest_def seq_name_def ren_def split: if_splits option.splits)
  then show ?thesis
  proof (elim disjE)
    assume "n = 0 \<and> sequences d' = sequences c \<and> (seq_next d' = seq_next c \<or> seq_next d' = seq_next c + 1)
        \<and> same_rest c d'"
    with c show ?thesis by (intro failure) (auto simp: c_def [symmetric] same_rest_def)
  next
    assume *: "n = seq_next c \<and> name = seq_name n \<and> seq_next d' = seq_next c + 1 \<and> same_rest c d' \<and>
         (\<exists>t. sequences d' = ren n (sequences c @ [(n, t)]))"
    then have "\<exists>t. sequences d' = map (\<lambda>(i, m). if i = n then (i, name) else (i, m)) (sequences c @ [(n, t)])"
      unfolding ren_def by blast
    with * c show ?thesis by (intro success) (auto simp: c_def [symmetric] same_rest_def)
  qed
qed

lemma AllocateSequence_wf: "db_wf d \<Longrightarrow> db_wf (snd (AllocateSequence tok d))"
proof -
  assume wf: "db_wf d"
  then have one: "1 \<le> seq_next d" and sw: "seqs_wf (srv d) (sequences d) (seq_next d)"
    and iw: "imports_wf (import_rows d) (imp_next d) (fst ` set (sequences d))"
    by (auto simp: db_wf_def seqs_wf_def)
  obtain Q where q: "sequences (clean_rows (srv d) d) = filter Q (sequences d)"
      "\<forall>(i, n) \<in> set (sequences d). (\<exists>r \<in> set (import_rows d). sequence_id r = i) \<longrightarrow> Q (i, n)"
    using clean_rows_seqs [of "srv d" d] by blast
  have iw': "imports_wf (import_rows d) (imp_next d) (fst ` set (filter Q (sequences d)))"
    using iw q(2) by (fastforce simp: imports_wf_def)
  have sw': "seqs_wf (srv d) (filter Q (sequences d)) (seq_next d)" by (rule seqs_wf_filter [OF sw])
  obtain n name d' where a: "AllocateSequence tok d = ((n, name), d')" by (metis prod.exhaust)
  from a one show ?thesis
  proof (cases rule: AllocateSequence_cases)
    case failure
    with sw' iw' q(1) a seqs_wf_next [OF sw'] show ?thesis
      by (auto simp: db_wf_def same_rest_def)
  next
    case success
    then obtain t where t: "sequences d' = map (\<lambda>(i, m). if i = n then (i, name) else (i, m))
        (filter Q (sequences d) @ [(n, t)])" using q(1) by auto
    have "map (\<lambda>(i, m). if i = n then (i, name) else (i, m)) (filter Q (sequences d)) = filter Q (sequences d)"
      using sw success(1) by (intro map_idI) (auto simp: seqs_wf_def)
    with t have rows: "sequences d' = filter Q (sequences d) @ [(n, seq_name n)]"
      using success(2) by simp
    have "fst ` set (filter Q (sequences d)) \<subseteq> fst ` set (sequences d')" using rows by auto
    then have "imports_wf (import_rows d) (imp_next d) (fst ` set (sequences d'))"
      using iw' unfolding imports_wf_def by blast
    with rows success a seqs_wf_new [OF sw'] show ?thesis
      by (simp add: db_wf_def same_rest_def)
  qed
qed

interpretation alloc_seq: sequencer AllocateSequence seq_next db_wf
proof unfold_locales
  show "seq_next s \<le> n \<and> n < seq_next s' \<and> name = seq_name n"
    if "db_wf s" "AllocateSequence t s = ((n, name), s')" "n \<noteq> 0" for s t n name s'
  proof -
    have "1 \<le> seq_next s" using that(1) by (simp add: db_wf_def seqs_wf_def)
    from that(2) this show ?thesis using that(3) by (cases rule: AllocateSequence_cases) auto
  qed
  show "seq_next s \<le> seq_next s'"
    if "db_wf s" "AllocateSequence t s = ((0, name), s')" for s t name s'
  proof -
    have "1 \<le> seq_next s" using that(1) by (simp add: db_wf_def seqs_wf_def)
    from that(2) this show ?thesis by (cases rule: AllocateSequence_cases) auto
  qed
  show "db_wf (snd (AllocateSequence t s))" if "db_wf s" for s t
    using AllocateSequence_wf [OF that] .
  show "1 \<le> seq_next s" if "db_wf s" for s
    using that by (simp add: db_wf_def seqs_wf_def)
qed

text \<open>
  C15: Sequence numbers are globally monotonic and never reused: over any number of
  allocations, whichever statements the server fails to execute (a rolled back transaction
  included), the numbers handed out are strictly increasing, all at least the table's
  AUTO_INCREMENT counter, and the table invariant is kept.
\<close>

theorem allocations_strictly_increase:
  assumes "db_wf d" "alloc_run AllocateSequence toks d = (ns, d')"
  shows "sorted_wrt (<) ns \<and> (\<forall>n \<in> set ns. seq_next d \<le> n \<and> n < seq_next d') \<and> db_wf d'"
  using alloc_seq.alloc_run_bounds [OF assms] by blast

theorem allocations_strictly_increase_witness:
  "let d = empty_db (good_server\<lparr>stmt_ok := (\<lambda>i. i \<noteq> 2)\<rparr>)
   in fst (alloc_run AllocateSequence [''a'', ''b'', ''c''] d) = [1, 2] \<and>
      sorted_wrt (<) (fst (alloc_run AllocateSequence [''a'', ''b'', ''c''] d))"
proof -
  define d where "d = empty_db (good_server\<lparr>stmt_ok := (\<lambda>i. i \<noteq> 2)\<rparr>)"
  obtain ns d' where r: "alloc_run AllocateSequence [''a'', ''b'', ''c''] d = (ns, d')" by fastforce
  have "fst (alloc_run AllocateSequence [''a'', ''b'', ''c''] d) = [1, 2]"
    unfolding d_def by code_simp
  moreover have "sorted_wrt (<) ns"
    using allocations_strictly_increase [OF empty_db_wf, of "[''a'', ''b'', ''c'']" "good_server\<lparr>stmt_ok := (\<lambda>i. i \<noteq> 2)\<rparr>"] r
    by (simp add: d_def)
  ultimately show ?thesis using r by (simp add: d_def [symmetric])
qed

text \<open>
  What a successful allocation stores, and what a failed one leaves: on success the new
  number is the counter's old value, its row carries the name \<open>IMG_n\<close> and no other named row
  changed; on failure (number 0) no row was added and no row with a proper name was lost.
\<close>

theorem AllocateSequence_effect:
  assumes "db_wf d" "server_ok (srv d)" "AllocateSequence tok d = ((n, name), d')"
  shows "if n = 0 then set (sequences d') \<subseteq> set (sequences d) \<and>
                (\<forall>i. (i, seq_name i) \<in> set (sequences d) \<longrightarrow> (i, seq_name i) \<in> set (sequences d'))
         else n = seq_next d \<and> name = seq_name n \<and> (n, name) \<in> set (sequences d') \<and>
              (\<forall>i. i \<noteq> n \<longrightarrow> (i, seq_name i) \<in> set (sequences d') \<longleftrightarrow> (i, seq_name i) \<in> set (sequences d))"
proof -
  have one: "1 \<le> seq_next d" and sw: "seqs_wf (srv d) (sequences d) (seq_next d)"
    using assms(1) by (auto simp: db_wf_def seqs_wf_def)
  obtain Q where q: "sequences (clean_rows (srv d) d) = filter Q (sequences d)"
      "\<forall>(i, m) \<in> set (sequences d). \<not> stale_name (srv d) m \<longrightarrow> Q (i, m)"
    using clean_rows_seqs [of "srv d" d] by blast
  have keep: "(i, seq_name i) \<in> set (sequences d) \<Longrightarrow> Q (i, seq_name i)" for i
    using q(2) seq_name_not_stale [OF assms(2)] by blast
  from assms(3) one show ?thesis
  proof (cases rule: AllocateSequence_cases)
    case failure
    with q(1) keep show ?thesis by auto
  next
    case success
    then obtain t where t: "sequences d' = map (\<lambda>(i, m). if i = n then (i, name) else (i, m))
        (filter Q (sequences d) @ [(n, t)])" using q(1) by auto
    have "map (\<lambda>(i, m). if i = n then (i, name) else (i, m)) (filter Q (sequences d)) = filter Q (sequences d)"
      using sw success(1) by (intro map_idI) (auto simp: seqs_wf_def)
    with t success(2) have "sequences d' = filter Q (sequences d) @ [(n, seq_name n)]" by simp
    with success(1,2) keep one show ?thesis by auto
  qed
qed

theorem AllocateSequence_effect_witness:
  "let (r, d') = AllocateSequence ''x'' (empty_db good_server)
   in r = (1, ''IMG_1'') \<and> (1, ''IMG_1'') \<in> set (sequences d')"
proof -
  obtain n name d' where a: "AllocateSequence ''x'' (empty_db good_server) = ((n, name), d')"
    by (metis prod.exhaust)
  have "fst (AllocateSequence ''x'' (empty_db good_server)) = (1, ''IMG_1'')" by code_simp
  with a have r: "n = 1" "name = ''IMG_1''" by auto
  have "server_ok (srv (empty_db good_server))" by (simp add: empty_db_def)
  then have "(n, name) \<in> set (sequences d')"
    using AllocateSequence_effect [OF empty_db_wf _ a] r(1) by auto
  with r a show ?thesis by simp
qed

end
