(* ===== verification/Import_Store.thy ===== *)
theory Import_Store
  imports Sequences
begin

text \<open>
  The \<open>imports\<close>, \<open>reconversions\<close>, \<open>preview_edits\<close> and \<open>alerts\<close> operations of
  \<open>src/src/db.cpp\<close>: inserting an import and reading it back as text columns, the lookups,
  the updates, statistics and paging. A step relation collects the operations that change
  the store; every sequence of them keeps the tables well-formed and never loses or
  re-identifies an import.
\<close>

section \<open>Rows as text columns\<close>

definition status_of_string :: "string \<Rightarrow> import_status" where
  "status_of_string st =
     (if st = ''pending'' then Pending
      else if st = ''converting'' then Converting
      else if st = ''failed'' then Failed
      else if st = ''restored'' then Restored
      else if st = ''legacy'' then Legacy
      else Completed)"

lemma status_of_status_string [simp]: "status_of_string (status_string s) = s"
  by (cases s) (simp_all add: status_of_string_def)

text \<open>\<open>std::atoi\<close>: the columns it reads are TINYINT UNSIGNED, so the value is an \<open>int\<close>.\<close>

definition atoi :: "string \<Rightarrow> int" where
  "atoi s = (case scan_int s of None \<Rightarrow> 0 | Some v \<Rightarrow> v)"

definition vec_to_record :: "string list \<Rightarrow> import_record" where
  "vec_to_record v =
     (let str = (\<lambda>i. if i < length v then v ! i else [])
      in new_record\<lparr>
        rec_id := (if length v > 0 then strtoll (v ! 0) else 0),
        sequence_id := (if length v > 1 then strtoll (v ! 1) else 0),
        source_path := str 2, source_hash := str 3, output_path := str 4, output_hash := str 5,
        camera_model := str 6, capture_date := str 7, capture_time := str 8,
        folder_schema := str 9, conv_settings := str 10,
        status := status_of_string (str 11),
        orientation := (if length v > 12 then atoi (v ! 12) else 0),
        created_at := str 13, completed_at := str 14, sequence_name := str 15\<rparr>)"

text \<open>
  \<open>row_to_record\<close> reads the same sixteen columns from a \<open>MYSQL_ROW\<close>, whose NULL columns
  (\<open>None\<close>) become empty texts.
\<close>

definition row_to_record :: "string option list \<Rightarrow> import_record" where
  "row_to_record row =
     (let str = (\<lambda>i. case row ! i of None \<Rightarrow> [] | Some t \<Rightarrow> t)
      in new_record\<lparr>
        rec_id := (case row ! 0 of None \<Rightarrow> 0 | Some t \<Rightarrow> strtoll t),
        sequence_id := (case row ! 1 of None \<Rightarrow> 0 | Some t \<Rightarrow> strtoll t),
        source_path := str 2, source_hash := str 3, output_path := str 4, output_hash := str 5,
        camera_model := str 6, capture_date := str 7, capture_time := str 8,
        folder_schema := str 9, conv_settings := str 10,
        status := status_of_string (str 11),
        orientation := (case row ! 12 of None \<Rightarrow> 0 | Some t \<Rightarrow> atoi t),
        created_at := str 13, completed_at := str 14, sequence_name := str 15\<rparr>)"

text \<open>
  The columns the SELECT lists name, as the server prints them: \<open>(SELECT name FROM sequences
  WHERE id=sequence_id)\<close> is the last. Empty dates were bound as NULL.
\<close>

definition row_cols :: "db \<Rightarrow> import_record \<Rightarrow> string option list" where
  "row_cols d r =
     [Some (dec_int (rec_id r)), Some (dec_int (sequence_id r)), Some (source_path r),
      Some (source_hash r), Some (output_path r), Some (output_hash r), Some (camera_model r),
      if capture_date r = [] then None else Some (capture_date r),
      if capture_time r = [] then None else Some (capture_time r),
      Some (folder_schema r), Some (conv_settings r), Some (status_string (status r)),
      Some (dec_int (orientation r)), Some (created_at r), Some (completed_at r),
      map_of (sequences d) (sequence_id r)]"

text \<open>The row as the fetch loop reads it into empty buffers.\<close>

definition row_text :: "db \<Rightarrow> import_record \<Rightarrow> string list" where
  "row_text d r = plain_row (row_cols d r)"

lemma length_row_cols [simp]: "length (row_cols d r) = 16"
  by (simp add: row_cols_def)

definition read_back :: "db \<Rightarrow> import_record \<Rightarrow> import_record" where
  "read_back d r = r\<lparr>rec_date_source := Exif, error_message := [],
     sequence_name := (case map_of (sequences d) (sequence_id r) of None \<Rightarrow> [] | Some n \<Rightarrow> n)\<rparr>"

definition id_range :: "import_record \<Rightarrow> bool" where
  "id_range r \<longleftrightarrow> int64_min \<le> rec_id r \<and> rec_id r \<le> int64_max \<and>
     int64_min \<le> sequence_id r \<and> sequence_id r \<le> int64_max"

lemma atoi_dec_int [simp]: "atoi (dec_int i) = i"
  by (simp add: atoi_def)

lemma vec_to_record_row_text: "id_range r \<Longrightarrow> vec_to_record (row_text d r) = read_back d r"
  by (simp add: vec_to_record_def row_text_def plain_row_def row_cols_def read_back_def new_record_def id_range_def
      strtoll_dec_int Let_def del: int_limits split: option.split)

lemma row_to_record_row_cols: "id_range r \<Longrightarrow> row_to_record (row_cols d r) = read_back d r"
  by (simp add: row_to_record_def row_cols_def read_back_def new_record_def id_range_def
      strtoll_dec_int Let_def del: int_limits split: option.split)

text \<open>
  Reading a row back through its text columns is faithful: both decoders of db.cpp
  return the stored values, ids and orientation printed in decimal and parsed again, the
  status through its name, for every row whose ids fit 64 bits.
\<close>

theorem row_decoders_roundtrip:
  assumes "id_range r"
  shows "vec_to_record (row_text d r) = read_back d r \<and> row_to_record (row_cols d r) = read_back d r"
  using vec_to_record_row_text [OF assms] row_to_record_row_cols [OF assms] by blast

theorem row_decoders_roundtrip_witness:
  "status (vec_to_record (row_text (empty_db good_server) (new_record\<lparr>rec_id := 7, status := Legacy\<rparr>))) = Legacy"
proof -
  have "id_range (new_record\<lparr>rec_id := 7, status := Legacy\<rparr>)" by (simp add: id_range_def new_record_def)
  then show ?thesis
    using row_decoders_roundtrip [of "new_record\<lparr>rec_id := 7, status := Legacy\<rparr>" "empty_db good_server"]
    by (simp add: read_back_def)
qed

section \<open>Inserting and looking up\<close>

text \<open>
  \<open>InsertImport\<close>: the server checks the columns (\<open>row_ok\<close>) and the foreign key, assigns the
  next id and stamps both times. \<open>date_source\<close> and \<open>error_message\<close> are not among the
  inserted columns, so they get their defaults.
\<close>

definition InsertImport :: "import_record \<Rightarrow> db \<Rightarrow> int \<times> db" where
  "InsertImport r d =
     (let (ok, d1) = send d
      in if ok \<and> row_ok (srv d) r \<and> sequence_id r \<in> fst ` set (sequences d)
         then (imp_next d,
               d1\<lparr>import_rows := import_rows d @
                    [r\<lparr>rec_id := imp_next d, rec_date_source := Exif, error_message := [],
                       sequence_name := [],
                       created_at := now_txt (srv d) (stmt_no d),
                       completed_at := now_txt (srv d) (stmt_no d)\<rparr>],
                  imp_next := imp_next d + 1\<rparr>)
         else (0, d1))"

text \<open>
  The callers use \<open>rows[0]\<close> only, which is the server's choice among the matching rows: none
  of these queries has an \<open>ORDER BY\<close>. \<open>GetImportBySequence\<close> has no \<open>LIMIT\<close> either; the
  rows it fetches after the first have no effect.
\<close>

definition first_record :: "string list list \<Rightarrow> import_record option" where
  "first_record rows = (case rows of [] \<Rightarrow> None | v # _ \<Rightarrow> Some (vec_to_record v))"

definition one_row :: "db \<Rightarrow> import_record list \<Rightarrow> string option list list" where
  "one_row d matching = (case limit1 (srv d) matching of None \<Rightarrow> [] | Some r \<Rightarrow> [row_cols d r])"

definition GetImportBySequence :: "string \<Rightarrow> db \<Rightarrow> import_record option \<times> db" where
  "GetImportBySequence seq d =
     (let (rows, d1) = exec_select 16 (\<lambda>d. one_row d
            [r \<leftarrow> import_rows d. \<exists>(i, n) \<in> set (sequences d). i = sequence_id r \<and> txt_eq (srv d) n seq]) d
      in (first_record rows, d1))"

definition GetImportById :: "int \<Rightarrow> db \<Rightarrow> import_record option \<times> db" where
  "GetImportById iid d =
     (let (ok, d1) = send d
      in (if ok then map_option (\<lambda>r. row_to_record (row_cols d r))
            (limit1 (srv d) [r \<leftarrow> import_rows d. rec_id r = iid])
          else None, d1))"

definition select_import :: "(server \<Rightarrow> import_record \<Rightarrow> bool) \<Rightarrow> db \<Rightarrow> import_record option \<times> db" where
  "select_import P d =
     (let (rows, d1) = exec_select 16 (\<lambda>d. one_row d [r \<leftarrow> import_rows d. P (srv d) r]) d
      in (first_record rows, d1))"

definition first_row :: "db \<Rightarrow> import_record list \<Rightarrow> import_record option" where
  "first_row d matching =
     (case limit1 (srv d) matching of
        None \<Rightarrow> None
      | Some r \<Rightarrow> if row_fits (row_text d r) then Some (vec_to_record (row_text d r)) else None)"

lemma select_one: "first_record (fst (exec_select 16 (\<lambda>d. one_row d (m d)) d)) =
    (if stmt_ok (srv d) (stmt_no d) then first_row d (m d) else None)"
proof (cases "limit1 (srv d) (m d)")
  case None
  then show ?thesis
    by (simp add: exec_select_def send_def one_row_def first_record_def first_row_def)
next
  case (Some r)
  then show ?thesis
    using fetch_one [of "row_cols d r" 16 "keeps_null (srv d)"]
    by (simp add: exec_select_def send_def one_row_def first_record_def first_row_def row_text_def
        del: fetch_rows.simps)
qed

lemma select_import_eq: "select_import P d =
    (if stmt_ok (srv d) (stmt_no d) then first_row d [r \<leftarrow> import_rows d. P (srv d) r] else None,
     d\<lparr>stmt_no := Suc (stmt_no d)\<rparr>)"
  by (simp add: select_import_def split_beta select_one)

lemma GetImportBySequence_eq: "GetImportBySequence sq d =
    (if stmt_ok (srv d) (stmt_no d)
     then first_row d [r \<leftarrow> import_rows d. \<exists>(i, n) \<in> set (sequences d). i = sequence_id r \<and> txt_eq (srv d) n sq]
     else None, d\<lparr>stmt_no := Suc (stmt_no d)\<rparr>)"
  by (simp add: GetImportBySequence_def split_beta select_one)

lemma first_row_Some:
  assumes "matching \<noteq> []" "\<forall>r \<in> set matching. row_fits (row_text d r)"
  shows "\<exists>r \<in> set matching. first_row d matching = Some (vec_to_record (row_text d r))"
proof -
  obtain r where r: "limit1 (srv d) matching = Some r" using assms(1) limit1_None by blast
  then have "r \<in> set matching" by (rule limit1_Some)
  with r assms(2) show ?thesis by (auto simp: first_row_def)
qed

lemma select_import_found:
  assumes "stmt_ok (srv d) (stmt_no d)" "r \<in> set (import_rows d)" "P (srv d) r"
    and "\<forall>x \<in> set (import_rows d). row_fits (row_text d x)"
  shows "\<exists>x \<in> set (import_rows d). P (srv d) x \<and>
           fst (select_import P d) = Some (vec_to_record (row_text d x))"
  using first_row_Some [of "[x \<leftarrow> import_rows d. P (srv d) x]" d] assms
  by (fastforce simp: select_import_eq filter_empty_conv)

definition GetImportByHash :: "string \<Rightarrow> db \<Rightarrow> import_record option \<times> db" where
  "GetImportByHash sha =
     select_import (\<lambda>s r. txt_eq s (source_hash r) sha \<or> txt_eq s (output_hash r) sha)"

definition GetImportBySourcePath :: "path \<Rightarrow> db \<Rightarrow> import_record option \<times> db" where
  "GetImportBySourcePath p = select_import (\<lambda>s r. txt_eq s (source_path r) p)"

definition GetImportByOutputPath :: "path \<Rightarrow> db \<Rightarrow> import_record option \<times> db" where
  "GetImportByOutputPath p = select_import (\<lambda>s r. txt_eq s (output_path r) p)"

definition HasOutputHash :: "string \<Rightarrow> db \<Rightarrow> bool \<times> db" where
  "HasOutputHash h d =
     (let (rows, d1) = exec_select 1 (\<lambda>d.
            if \<exists>r \<in> set (import_rows d). txt_eq (srv d) (output_hash r) h then [[Some ''1'']] else []) d
      in (rows \<noteq> [], d1))"

section \<open>Updates and audit rows\<close>

text \<open>\<open>UPDATE imports SET ... WHERE id=?\<close>: the value is only converted if a row matches.\<close>

definition update_import :: "int \<Rightarrow> (import_record \<Rightarrow> import_record) option \<Rightarrow> db \<Rightarrow> bool \<times> db" where
  "update_import iid change d =
     (let (ok, d1) = send d
      in if \<not> ok then (False, d1)
         else if iid \<notin> rec_id ` set (import_rows d) then (True, d1)
         else case change of
                None \<Rightarrow> (False, d1)
              | Some f \<Rightarrow> (True, d1\<lparr>import_rows := map (\<lambda>r. if rec_id r = iid then f r else r) (import_rows d)\<rparr>))"

definition UpdateOutputHash :: "int \<Rightarrow> string \<Rightarrow> db \<Rightarrow> bool \<times> db" where
  "UpdateOutputHash iid h d =
     update_import iid (map_option (\<lambda>v r. r\<lparr>output_hash := v\<rparr>) (varchar (srv d) 64 h)) d"

definition UpdateOrientation :: "int \<Rightarrow> int \<Rightarrow> db \<Rightarrow> bool \<times> db" where
  "UpdateOrientation iid ori d =
     update_import iid (map_option (\<lambda>v r. r\<lparr>orientation := v\<rparr>) (unsigned_col (srv d) 255 ori)) d"

definition RecordPreviewEdit ::
  "int \<Rightarrow> string \<Rightarrow> string \<Rightarrow> string \<Rightarrow> int \<Rightarrow> int \<Rightarrow> int \<Rightarrow> db \<Rightarrow> bool \<times> db" where
  "RecordPreviewEdit iid worker prev_hash new_hash width height quality d =
     (let (ok, d1) = send d; s = srv d
      in case (varchar s 16 worker, varchar s 64 prev_hash, varchar s 64 new_hash,
               unsigned_col s 4294967295 width, unsigned_col s 4294967295 height,
               unsigned_col s 255 quality) of
           (Some w, Some ph, Some nh, Some wd, Some ht, Some q) \<Rightarrow>
             if ok \<and> iid \<in> rec_id ` set (import_rows d)
             then (True, d1\<lparr>preview_edits := preview_edits d @
                     [\<lparr>pe_import_id = iid, pe_worker = w, pe_previous = ph, pe_new = nh,
                       pe_width = wd, pe_height = ht, pe_quality = q\<rparr>]\<rparr>)
             else (False, d1)
         | _ \<Rightarrow> (False, d1))"

definition settings_json :: "conversion_settings \<Rightarrow> string" where
  "settings_json s =
     CHR ''{'' # CHR 0x22 # ''compression'' @ CHR 0x22 # CHR '':'' # CHR 0x22 # compression s @
     CHR 0x22 # CHR '','' # CHR 0x22 # ''preview_medium'' @ CHR 0x22 # CHR '':'' # CHR 0x22 # preview_medium s @
     CHR 0x22 # CHR '','' # CHR 0x22 # ''preview_full'' @ CHR 0x22 # CHR '':'' # CHR 0x22 # preview_full s @
     CHR 0x22 # CHR '','' # CHR 0x22 # ''version'' @ CHR 0x22 # CHR '':'' # CHR 0x22 # version s @
     CHR 0x22 # CHR '','' # CHR 0x22 # ''jpeg_quality'' @ CHR 0x22 # CHR '':'' # dec_int (jpeg_quality s) @
     CHR '','' # CHR 0x22 # ''linear'' @ CHR 0x22 # CHR '':'' # (if linear s then ''true'' else ''false'') @ ''}''"

definition InsertReconversion :: "int \<Rightarrow> reconversion_job \<Rightarrow> db \<Rightarrow> int \<times> db" where
  "InsertReconversion iid job d =
     (let (ok, d1) = send d;
          js = settings_json (job_settings job)
      in case varchar (srv d) 64 (job_previous_hash job) of
           None \<Rightarrow> (0, d1)
         | Some ph \<Rightarrow>
             if ok \<and> json_ok (srv d) js \<and> iid \<in> rec_id ` set (import_rows d)
             then (rc_next d,
                   d1\<lparr>reconversions := reconversions d @
                        [\<lparr>rc_id = rc_next d, rc_import_id = iid, rc_previous = ph,
                          rc_new = None, rc_settings = js, rc_reason = job_reason job,
                          rc_status = ''pending''\<rparr>],
                      rc_next := rc_next d + 1\<rparr>)
             else (0, d1))"

definition rc_statuses :: "string list" where
  "rc_statuses = [''pending'', ''running'', ''completed'', ''failed'']"

definition UpdateReconversion :: "int \<Rightarrow> string \<Rightarrow> import_status \<Rightarrow> db \<Rightarrow> bool \<times> db" where
  "UpdateReconversion rid h st d =
     (let (ok, d1) = send d
      in if \<not> ok then (False, d1)
         else if rid \<notin> rc_id ` set (reconversions d) then (True, d1)
         else case (varchar (srv d) 64 h, enum_col (srv d) rc_statuses (status_string st)) of
                (Some nh, Some t) \<Rightarrow>
                  (True, d1\<lparr>reconversions :=
                     map (\<lambda>r. if rc_id r = rid then r\<lparr>rc_new := Some nh, rc_status := t\<rparr> else r)
                       (reconversions d)\<rparr>)
              | _ \<Rightarrow> (False, d1))"

definition InsertAlert :: "string \<Rightarrow> string \<Rightarrow> string \<Rightarrow> string \<Rightarrow> db \<Rightarrow> bool \<times> db" where
  "InsertAlert severity category msg ref d =
     (if \<not> conn d then (False, d)
      else let (ok, d1) = send d; s = srv d
           in case (enum_col s [''info'', ''warning'', ''error''] severity, varchar s 32 category, varchar s 32 ref) of
                (Some sv, Some c, Some f) \<Rightarrow>
                  if ok then (True, d1\<lparr>alerts := alerts d @
                     [\<lparr>al_severity = sv, al_category = c, al_message = msg, al_ref = f\<rparr>]\<rparr>)
                  else (False, d1)
              | _ \<Rightarrow> (False, d1))"

record stats =
  st_total :: int
  st_completed :: int
  st_failed :: int
  st_queue_depth :: int

definition count_query :: "(import_record \<Rightarrow> bool) \<Rightarrow> db \<Rightarrow> int \<times> db" where
  "count_query P d =
     (let (ok, d1) = send d in (if ok then int (length (filter P (import_rows d))) else 0, d1))"

definition GetStats :: "db \<Rightarrow> stats \<times> db" where
  "GetStats d =
     (let (t, d1) = count_query (\<lambda>_. True) d;
          (c, d2) = count_query (\<lambda>r. status r = Completed) d1;
          (f, d3) = count_query (\<lambda>r. status r = Failed) d2
      in (\<lparr>st_total = t, st_completed = c, st_failed = f, st_queue_depth = 0\<rparr>, d3))"

text \<open>
  \<open>ListImports\<close>: the OFFSET is the \<open>int\<close> product \<open>(page - 1) * limit\<close>. \<open>None\<close> is a product
  outside the range of \<open>int\<close>, which C++ leaves undefined. The server rejects a negative LIMIT
  or OFFSET.
\<close>

definition list_rows :: "string \<Rightarrow> string \<Rightarrow> db \<Rightarrow> import_record list" where
  "list_rows status_f camera_f d =
     rev (sort_key rec_id
       [r \<leftarrow> import_rows d.
          (status_f = [] \<or> txt_eq (srv d) (status_string (status r)) status_f) \<and>
          (camera_f = [] \<or> txt_eq (srv d) (camera_model r) camera_f)])"

definition ListImports ::
  "int \<Rightarrow> int \<Rightarrow> string \<Rightarrow> string \<Rightarrow> db \<Rightarrow> (import_record list \<times> db) option" where
  "ListImports page limit status_f camera_f d =
     (let off = (page - 1) * limit
      in if off < int_min \<or> off > int_max \<or> page - 1 < int_min then None
         else let (ok, d1) = send d
              in if ok \<and> 0 \<le> limit \<and> 0 \<le> off
                 then Some (map vec_to_record (fetch_rows (keeps_null (srv d)) (replicate 16 [])
                        (map (row_cols d) (take (nat limit) (drop (nat off) (list_rows status_f camera_f d))))), d1)
                 else Some ([], d1))"

definition Ping :: "bool \<Rightarrow> db \<Rightarrow> bool" where
  "Ping alive d \<longleftrightarrow> conn d \<and> alive"

definition Close :: "db \<Rightarrow> db" where
  "Close d = (if conn d then d\<lparr>conn := False\<rparr> else d)"

section \<open>What a lookup returns after an insert\<close>

lemma InsertImport_ok:
  assumes "InsertImport r d = (i, d')" "i \<noteq> 0"
  shows "i = imp_next d \<and> imp_next d' = imp_next d + 1 \<and> sequences d' = sequences d \<and>
     srv d' = srv d \<and> seq_next d' = seq_next d \<and> sequence_id r \<in> fst ` set (sequences d) \<and>
     import_rows d' = import_rows d @
       [r\<lparr>rec_id := imp_next d, rec_date_source := Exif, error_message := [], sequence_name := [],
          created_at := now_txt (srv d) (stmt_no d), completed_at := now_txt (srv d) (stmt_no d)\<rparr>]"
  using assms by (auto simp: InsertImport_def send_def split: if_splits)

lemma InsertImport_failed:
  assumes "InsertImport r d = (0, d')" "1 \<le> imp_next d"
  shows "d' = d\<lparr>stmt_no := Suc (stmt_no d)\<rparr>"
  using assms by (auto simp: InsertImport_def send_def split: if_splits)

lemma InsertImport_wf: "db_wf d \<Longrightarrow> db_wf (snd (InsertImport r d))"
  by (auto simp: InsertImport_def send_def db_wf_def imports_wf_def)


definition example_db :: db where
  "example_db = snd (AllocateSequence ''x'' (empty_db good_server))"

lemma example_db_seqs: "sequences example_db = [(1, ''IMG_1'')]" "seq_next example_db = 2"
    "imp_next example_db = 1" "import_rows example_db = []"
  unfolding example_db_def by code_simp+

lemma example_db_srv [simp]: "srv example_db = good_server"
  unfolding example_db_def
  by (simp add: AllocateSequence_def delete_sequences_def send_def insert_sequence_def varchar_def
      rename_sequence_def rollback_def empty_db_def Let_def)

lemma example_db_wf: "db_wf example_db"
  unfolding example_db_def by (rule AllocateSequence_wf [OF empty_db_wf])


section \<open>Paging\<close>

lemma concat_pages: "concat (map (\<lambda>p. take n (drop (p * n) xs)) [0..<k]) = take (k * n) xs"
proof (induction k)
  case (Suc k)
  have "take (k * n) xs @ take n (drop (k * n) xs) = take (k * n + n) xs"
    by (simp add: take_add)
  with Suc show ?case by (simp add: add.commute)
qed simp

lemma list_rows_order: "distinct (map rec_id (import_rows d)) \<Longrightarrow>
    sorted_wrt (\<lambda>a b. rec_id a > rec_id b) (list_rows status_f camera_f d)"
proof -
  assume dist: "distinct (map rec_id (import_rows d))"
  let ?l = "sort_key rec_id
       [r \<leftarrow> import_rows d.
          (status_f = [] \<or> txt_eq (srv d) (status_string (status r)) status_f) \<and>
          (camera_f = [] \<or> txt_eq (srv d) (camera_model r) camera_f)]"
  let ?f = "[r \<leftarrow> import_rows d.
          (status_f = [] \<or> txt_eq (srv d) (status_string (status r)) status_f) \<and>
          (camera_f = [] \<or> txt_eq (srv d) (camera_model r) camera_f)]"
  have "distinct (map rec_id ?f)" by (rule distinct_map_filter [OF dist])
  then have "distinct (map rec_id ?l)" by (simp add: distinct_map)
  moreover have "sorted (map rec_id ?l)" by simp
  ultimately have "sorted_wrt (<) (map rec_id ?l)" by (simp add: strict_sorted_iff)
  then have "sorted_wrt (\<lambda>a b. rec_id a < rec_id b) ?l" by (simp add: sorted_wrt_map)
  then show ?thesis by (simp add: list_rows_def sorted_wrt_rev)
qed

lemma whole_row: "db_wf d \<Longrightarrow> r \<in> set (import_rows d) \<Longrightarrow> capture_date r \<noteq> [] \<Longrightarrow> capture_time r \<noteq> [] \<Longrightarrow>
    None \<notin> set (row_cols d r)"
proof -
  assume d: "db_wf d" and r: "r \<in> set (import_rows d)" "capture_date r \<noteq> []" "capture_time r \<noteq> []"
  then have "map_of (sequences d) (sequence_id r) \<noteq> None"
    by (auto simp: db_wf_def imports_wf_def map_of_eq_None_iff)
  with r show ?thesis by (auto simp: row_cols_def)
qed

definition page_rows :: "int \<Rightarrow> int \<Rightarrow> string \<Rightarrow> string \<Rightarrow> db \<Rightarrow> import_record list" where
  "page_rows page limit status_f camera_f d =
     (case ListImports page limit status_f camera_f d of None \<Rightarrow> [] | Some (rows, _) \<Rightarrow> rows)"

text \<open>
  C24: Paging is complete and non-overlapping: while the products stay within \<open>int\<close>, the
  rows fit the fetch buffers and, if the client library keeps a NULL column's buffer, no row
  has a NULL date or time, the first k pages of any size, in order, are exactly the first k times size matching rows of
  the whole list, each row once, and that list is strictly descending by id.
\<close>

theorem ListImports_pages:
  assumes "1 \<le> limit" "int k * limit \<le> int_max" "stmt_ok (srv d) (stmt_no d)" "db_wf d"
    and "\<forall>r \<in> set (import_rows d). row_fits (row_text d r)"
    and "keeps_null (srv d) \<longrightarrow> (\<forall>r \<in> set (import_rows d). capture_date r \<noteq> [] \<and> capture_time r \<noteq> [])"
  shows "concat (map (\<lambda>p. page_rows (int p + 1) limit status_f camera_f d) [0..<k])
           = map (\<lambda>r. vec_to_record (row_text d r)) (take (k * nat limit) (list_rows status_f camera_f d))
         \<and> sorted_wrt (\<lambda>a b. rec_id a > rec_id b) (list_rows status_f camera_f d)"
proof -
  let ?f = "\<lambda>r. vec_to_record (row_text d r)" and ?l = "list_rows status_f camera_f d"
  have page: "page_rows (int p + 1) limit status_f camera_f d = map ?f (take (nat limit) (drop (p * nat limit) ?l))"
    if "p < k" for p
  proof -
    have le: "int p * limit \<le> int k * limit" using that assms(1) by (simp add: mult_right_mono)
    have up: "int p * limit \<le> int_max" using order_trans [OF le assms(2)] .
    have "0 \<le> int p * limit" using assms(1) by simp
    then have low: "\<not> int p * limit < int_min" "0 \<le> int p * limit" by simp_all
    have off: "nat (int p * limit) = p * nat limit" using assms(1) by (simp add: nat_mult_distrib)
    have "\<not> int p < int_min" by simp
    moreover have "fetch_rows (keeps_null (srv d)) (replicate 16 []) (map (row_cols d) (take (nat limit) (drop (p * nat limit) ?l)))
        = map plain_row (map (row_cols d) (take (nat limit) (drop (p * nat limit) ?l)))"
      using assms(5,6) whole_row [OF assms(4)]
      by (intro fetch_rows_plain) (fastforce simp: list_rows_def row_text_def dest!: in_set_takeD in_set_dropD)
    ultimately show ?thesis using assms(1,3) up low off
      by (simp add: page_rows_def ListImports_def send_def Let_def row_text_def comp_def del: int_limits)
  qed
  have "concat (map (\<lambda>p. page_rows (int p + 1) limit status_f camera_f d) [0..<k])
      = concat (map (\<lambda>p. map ?f (take (nat limit) (drop (p * nat limit) ?l))) [0..<k])"
    using page by (intro arg_cong [where f = concat] map_cong) auto
  also have "\<dots> = map ?f (concat (map (\<lambda>p. take (nat limit) (drop (p * nat limit) ?l)) [0..<k]))"
    by (simp add: map_concat comp_def)
  also have "\<dots> = map ?f (take (k * nat limit) ?l)" by (simp only: concat_pages)
  finally show ?thesis
    using list_rows_order assms(4) by (simp add: db_wf_def imports_wf_def)
qed

definition two_imports :: db where
  "two_imports = snd (InsertImport (new_record\<lparr>sequence_id := 1, source_path := ''b'',
       capture_date := ''2024-06-01'', capture_time := ''12:00:00''\<rparr>)
     (snd (InsertImport (new_record\<lparr>sequence_id := 1, source_path := ''a'',
       capture_date := ''2024-05-01'', capture_time := ''11:00:00''\<rparr>) example_db)))"

lemma two_imports_wf: "db_wf two_imports"
  unfolding two_imports_def by (intro InsertImport_wf example_db_wf)

lemma two_imports_srv [simp]: "srv two_imports = good_server"
  using example_db_seqs
  by (simp add: two_imports_def InsertImport_def send_def good_server_def new_record_def)

theorem ListImports_pages_witness:
  "map source_path (concat (map (\<lambda>p. page_rows (int p + 1) 1 [] [] two_imports) [0..<2])) = [''b'', ''a'']"
proof -
  have "stmt_ok (srv two_imports) (stmt_no two_imports)" by (simp add: good_server_def)
  moreover have "\<forall>r \<in> set (import_rows two_imports). row_fits (row_text two_imports r)"
    unfolding two_imports_def example_db_def by code_simp
  moreover have "\<forall>r \<in> set (import_rows two_imports). capture_date r \<noteq> [] \<and> capture_time r \<noteq> []"
    unfolding two_imports_def example_db_def by code_simp
  moreover have "map source_path (map (\<lambda>r. vec_to_record (row_text two_imports r))
      (take (2 * nat 1) (list_rows [] [] two_imports))) = [''b'', ''a'']"
    unfolding two_imports_def example_db_def by code_simp
  ultimately show ?thesis
    using ListImports_pages [of 1 2 two_imports "[]" "[]"] two_imports_wf by simp
qed

text \<open>
  A legacy row (its date is NULL) listed after a dated one: with a client library that leaves the
  buffer of a NULL column alone, the listing shows the date and time of the row before.
\<close>

definition dated_and_legacy :: db where
  "dated_and_legacy = snd (InsertImport (new_record\<lparr>sequence_id := 1, source_path := ''b'', status := Completed,
       capture_date := ''2024-06-01'', capture_time := ''12:00:00''\<rparr>)
     (snd (InsertImport (new_record\<lparr>sequence_id := 1, output_path := ''/out/IMG_1.dng'', status := Legacy\<rparr>)
       (example_db\<lparr>srv := good_server\<lparr>keeps_null := True\<rparr>\<rparr>))))"

theorem list_stale_dates:
  "map (\<lambda>r. (status r, capture_date r)) (list_rows [] [] dated_and_legacy) = [(Completed, ''2024-06-01''), (Legacy, [])] \<and>
   map (\<lambda>r. (status r, capture_date r)) (page_rows 1 10 [] [] dated_and_legacy) =
     [(Completed, ''2024-06-01''), (Legacy, ''2024-06-01'')]"
  unfolding dated_and_legacy_def example_db_def by code_simp

end
