(* ===== verification/Locks.thy ===== *)
theory Locks
  imports Import_Store
begin

text \<open>
  The processing locks of \<open>src/src/db.cpp\<close>: \<open>AcquireLock\<close> (a SELECT, a decision and an
  UPSERT) and \<open>ReleaseLock\<close>. The locale \<open>lock_table\<close> states the contract of one atomic call
  and derives mutual exclusion over any sequence of attempts; the second half takes the two
  statements of \<open>AcquireLock\<close> apart, as two connections can interleave them, and shows what
  that costs.
\<close>

section \<open>The operations\<close>

text \<open>
  \<open>t1\<close> and \<open>t2\<close> are the two readings of the system clock in seconds, \<open>tok\<close> the text
  \<open>secure_random_token()\<close> returns.
\<close>

definition effective_worker :: "string \<Rightarrow> string \<Rightarrow> string" where
  "effective_worker worker tok = (if worker = [] then tok else worker)"

text \<open>The decision between the SELECT and the UPSERT (db.cpp:688).\<close>

definition lock_busy :: "(string \<times> int) option \<Rightarrow> string \<Rightarrow> int \<Rightarrow> bool" where
  "lock_busy cur w now =
     (case cur of None \<Rightarrow> False | Some (cur_w, cur_exp) \<Rightarrow> cur_exp > now \<and> cur_w \<noteq> w)"

definition upsert_lock :: "int \<Rightarrow> string \<Rightarrow> int \<Rightarrow> db \<Rightarrow> bool \<times> db" where
  "upsert_lock iid w expires d =
     (let (ok, d1) = send d
      in case varchar (srv d) 64 w of
           None \<Rightarrow> (False, d1)
         | Some w' \<Rightarrow> if ok then (True, d1\<lparr>locks := (locks d)(iid \<mapsto> (w', expires))\<rparr>) else (False, d1))"

text \<open>The first statement and the decision: may this worker go on to the UPSERT?\<close>

definition select_lock :: "int \<Rightarrow> string \<Rightarrow> int \<Rightarrow> db \<Rightarrow> bool \<times> db" where
  "select_lock iid w now d =
     (let (sel, d1) = send d in (sel \<and> \<not> lock_busy (locks d iid) w now, d1))"

definition AcquireLock :: "int \<Rightarrow> string \<Rightarrow> int \<Rightarrow> int \<Rightarrow> int \<Rightarrow> string \<Rightarrow> db \<Rightarrow> bool \<times> db" where
  "AcquireLock iid worker ttl t1 t2 tok d =
     (if \<not> conn d then (False, d)
      else
        let expires = t1 + ttl;
            w = effective_worker worker tok;
            (free, d1) = select_lock iid w t2 d
        in if \<not> free then (False, d1) else upsert_lock iid w expires d1)"

definition ReleaseLock :: "int \<Rightarrow> db \<Rightarrow> bool \<times> db" where
  "ReleaseLock iid d =
     (let (ok, d1) = send d
      in if ok then (True, d1\<lparr>locks := (locks d)(iid := None)\<rparr>) else (False, d1))"

section \<open>The contract of one call\<close>

locale lock_table =
  fixes acquire :: "int \<Rightarrow> 'w \<Rightarrow> int \<Rightarrow> int \<Rightarrow> int \<Rightarrow> 's \<Rightarrow> bool \<times> 's"
    and holder :: "'s \<Rightarrow> int \<Rightarrow> ('w \<times> int) option"
    and fits :: "'w \<Rightarrow> bool"
  assumes taken: "fits w \<Longrightarrow> acquire i w ttl t1 t2 s = (True, s') \<Longrightarrow>
      holder s' = (holder s)(i \<mapsto> (w, t1 + ttl)) \<and>
      (\<forall>v e. holder s i = Some (v, e) \<longrightarrow> e \<le> t2 \<or> v = w)"
    and refused: "acquire i w ttl t1 t2 s = (False, s') \<Longrightarrow> holder s' = holder s"
begin

lemma busy_refused:
  assumes "holder s i = Some (v, e)" "t2 < e" "v \<noteq> w" "fits w"
  shows "\<exists>s'. acquire i w ttl t1 t2 s = (False, s') \<and> holder s' = holder s"
proof (cases "fst (acquire i w ttl t1 t2 s)")
  case True
  then obtain s' where a: "acquire i w ttl t1 t2 s = (True, s')" by (metis prod.collapse)
  have "e \<le> t2 \<or> v = w" using taken [OF assms(4) a] assms(1) by blast
  with assms(2,3) show ?thesis by simp
next
  case False
  then obtain s' where a: "acquire i w ttl t1 t2 s = (False, s')" by (metis prod.collapse)
  with refused [OF a] show ?thesis by blast
qed

end

text \<open>One attempt: import, worker, ttl and the two clock readings; a run of attempts.\<close>

type_synonym 'w attempt = "int \<times> 'w \<times> int \<times> int \<times> int"

fun attempts_run ::
  "(int \<Rightarrow> 'w \<Rightarrow> int \<Rightarrow> int \<Rightarrow> int \<Rightarrow> 's \<Rightarrow> bool \<times> 's) \<Rightarrow> 'w attempt list \<Rightarrow> 's \<Rightarrow> bool list \<times> 's" where
  "attempts_run acq [] s = ([], s)"
| "attempts_run acq ((i, w, ttl, t1, t2) # as) s =
     (let (ok, s1) = acq i w ttl t1 t2 s;
          (oks, s2) = attempts_run acq as s1
      in (ok # oks, s2))"

context lock_table begin

lemma attempts_excluded:
  assumes "holder s i = Some (v, e)"
    and "\<forall>(j, w, ttl, t1, t2) \<in> set as. j = i \<and> w \<noteq> v \<and> t2 < e \<and> fits w"
  shows "(\<forall>ok \<in> set (fst (attempts_run acquire as s)). \<not> ok) \<and>
         holder (snd (attempts_run acquire as s)) i = Some (v, e)"
  using assms
proof (induction as arbitrary: s)
  case Nil
  then show ?case by simp
next
  case (Cons a as)
  obtain j w ttl t1 t2 where a: "a = (j, w, ttl, t1, t2)" by (metis prod.exhaust)
  with Cons.prems have w: "j = i" "w \<noteq> v" "t2 < e" "fits w" by auto
  obtain s1 where s1: "acquire i w ttl t1 t2 s = (False, s1)" "holder s1 = holder s"
    using busy_refused [OF Cons.prems(1) w(3) _ w(4)] w(2) by metis
  have "holder s1 i = Some (v, e)" using s1(2) Cons.prems(1) by simp
  from Cons.IH [OF this] Cons.prems(2) s1(1) a w(1) show ?case
    by (auto simp: split_beta)
qed

end

text \<open>A worker id that needs no random token and that the column stores unchanged.\<close>

definition worker_fits :: "string \<Rightarrow> bool" where
  "worker_fits w \<longleftrightarrow> w \<noteq> [] \<and> length w \<le> 64"

lemma AcquireLock_True:
  assumes "AcquireLock i w ttl t1 t2 tok d = (True, d')" "worker_fits w"
  shows "locks d' = (locks d)(i \<mapsto> (w, t1 + ttl)) \<and> \<not> lock_busy (locks d i) w t2"
  using assms
  by (auto simp: AcquireLock_def select_lock_def send_def upsert_lock_def effective_worker_def worker_fits_def
      varchar_def Let_def split: if_splits option.splits)

lemma AcquireLock_False:
  "AcquireLock i w ttl t1 t2 tok d = (False, d') \<Longrightarrow> locks d' = locks d"
  by (auto simp: AcquireLock_def select_lock_def send_def upsert_lock_def Let_def split: if_splits option.splits)

interpretation db_lock: lock_table "\<lambda>i w ttl t1 t2. AcquireLock i w ttl t1 t2 tok" locks worker_fits
  for tok
proof unfold_locales
  show "locks s' = (locks s)(i \<mapsto> (w, t1 + ttl)) \<and> (\<forall>v e. locks s i = Some (v, e) \<longrightarrow> e \<le> t2 \<or> v = w)"
    if "worker_fits w" "AcquireLock i w ttl t1 t2 tok s = (True, s')" for w i ttl t1 t2 s s'
    using AcquireLock_True [OF that(2,1)] by (auto simp: lock_busy_def)
  show "locks s' = locks s" if "AcquireLock i w ttl t1 t2 tok s = (False, s')" for i w ttl t1 t2 s s'
    using AcquireLock_False [OF that] .
qed

text \<open>
  Mutual exclusion within the time to live: once a worker's \<open>AcquireLock\<close> has succeeded,
  every attempt of other workers on the same import whose clock reads before the expiry
  fails, in any number and order and whichever statements the server executes, and the lock
  stays the first worker's.
\<close>

theorem lock_excludes_others:
  assumes "AcquireLock i v ttl t1 t2 tok d = (True, d1)" "worker_fits v"
    and "\<forall>(j, w, ttl', t1', t2') \<in> set as. j = i \<and> w \<noteq> v \<and> t2' < t1 + ttl \<and> worker_fits w"
  shows "(\<forall>ok \<in> set (fst (attempts_run (\<lambda>i w ttl t1 t2. AcquireLock i w ttl t1 t2 tok') as d1)). \<not> ok) \<and>
         locks (snd (attempts_run (\<lambda>i w ttl t1 t2. AcquireLock i w ttl t1 t2 tok') as d1)) i = Some (v, t1 + ttl)"
  by (rule db_lock.attempts_excluded [OF _ assms(3)])
    (simp add: AcquireLock_True [OF assms(1,2)])

lemma example_db_free: "conn example_db" "locks example_db = Map.empty"
  by (simp_all add: example_db_def AllocateSequence_def delete_sequences_def send_def
      insert_sequence_def rename_sequence_def rollback_def varchar_def empty_db_def Let_def)

theorem lock_excludes_others_witness:
  "let d1 = snd (AcquireLock 7 ''rotation-mgr'' 30 100 100 [] example_db)
   in fst (attempts_run (\<lambda>i w ttl t1 t2. AcquireLock i w ttl t1 t2 []) [(7, ''api'', 30, 129, 129)] d1) = [False]"
proof -
  obtain ok d1 where a: "AcquireLock 7 ''rotation-mgr'' 30 100 100 [] example_db = (ok, d1)" by fastforce
  have ok: "ok" using a example_db_free
    by (simp add: AcquireLock_def select_lock_def send_def upsert_lock_def effective_worker_def lock_busy_def
        varchar_def good_server_def Let_def split: if_splits)
  have "worker_fits ''rotation-mgr''" "worker_fits ''api''" by (simp_all add: worker_fits_def)
  then have "\<forall>ok \<in> set (fst (attempts_run (\<lambda>i w ttl t1 t2. AcquireLock i w ttl t1 t2 []) [(7, ''api'', 30, 129, 129)] d1)). \<not> ok"
    using a ok
    by (intro conjunct1 [OF lock_excludes_others [of 7 "''rotation-mgr''" 30 100 100 "[]" example_db]]) auto
  then show ?thesis using a by (simp add: split_beta)
qed

section \<open>Two connections\<close>

text \<open>
  Each worker has its own connection (\<open>CreateConnection\<close>), so the two statements of several
  calls interleave. \<open>pending c\<close> is the UPSERT connection \<open>c\<close> has decided on but not sent;
  \<open>granted\<close> lists the calls that returned true: connection, import, worker, expiry.
\<close>

record lock_sys =
  table :: db
  pending :: "nat \<rightharpoonup> int \<times> string \<times> int"
  granted :: "(nat \<times> int \<times> string \<times> int) list"

inductive lock_step :: "lock_sys \<Rightarrow> lock_sys \<Rightarrow> bool" where
  decide: "pending s c = None \<Longrightarrow> conn (table s) \<Longrightarrow>
     select_lock i w t2 (table s) = (True, d) \<Longrightarrow>
     lock_step s (s\<lparr>table := d, pending := (pending s)(c \<mapsto> (i, w, t1 + ttl))\<rparr>)"
| refuse: "pending s c = None \<Longrightarrow> conn (table s) \<Longrightarrow>
     select_lock i w t2 (table s) = (False, d) \<Longrightarrow> lock_step s (s\<lparr>table := d\<rparr>)"
| grant: "pending s c = Some (i, w, e) \<Longrightarrow> upsert_lock i w e (table s) = (True, d) \<Longrightarrow>
     lock_step s (s\<lparr>table := d, pending := (pending s)(c := None), granted := (c, i, w, e) # granted s\<rparr>)"
| drop: "pending s c = Some (i, w, e) \<Longrightarrow> upsert_lock i w e (table s) = (False, d) \<Longrightarrow>
     lock_step s (s\<lparr>table := d, pending := (pending s)(c := None)\<rparr>)"
| release: "ReleaseLock i (table s) = (ok, d) \<Longrightarrow> lock_step s (s\<lparr>table := d\<rparr>)"

inductive_cases lock_stepE: "lock_step s s'"

text \<open>
  What does hold for every interleaving: the table never names a holder that no call was
  granted to, provided the column stores worker ids unchanged.
\<close>

definition holders_granted :: "lock_sys \<Rightarrow> bool" where
  "holders_granted s \<longleftrightarrow> (strict (srv (table s)) \<and>
     (\<forall>i w e. locks (table s) i = Some (w, e) \<longrightarrow> (\<exists>c. (c, i, w, e) \<in> set (granted s))))"

lemma upsert_lock_strict:
  assumes "upsert_lock i w e d = (ok, d')" "strict (srv d)"
  shows "srv d' = srv d \<and> locks d' = (if ok then (locks d)(i \<mapsto> (w, e)) else locks d)"
  using assms by (auto simp: upsert_lock_def send_def varchar_def split: if_splits option.splits)

lemma select_lock_same: "select_lock i w t d = (ok, d') \<Longrightarrow> srv d' = srv d \<and> locks d' = locks d"
  by (auto simp: select_lock_def send_def)

lemma ReleaseLock_same: "ReleaseLock i d = (ok, d') \<Longrightarrow>
    srv d' = srv d \<and> (locks d' = locks d \<or> locks d' = (locks d)(i := None))"
  by (auto simp: ReleaseLock_def send_def split: if_splits)

lemma lock_step_holders: "lock_step s s' \<Longrightarrow> holders_granted s \<Longrightarrow> holders_granted s'"
proof (induction rule: lock_step.induct)
  case (decide s c i w t2 d t1 ttl)
  with select_lock_same [OF decide(3)] show ?case by (simp add: holders_granted_def)
next
  case (refuse s c i w t2 d)
  with select_lock_same [OF refuse(3)] show ?case by (simp add: holders_granted_def)
next
  case (grant s c i w e d)
  with upsert_lock_strict [OF grant(2)] show ?case
    by (auto simp: holders_granted_def split: if_splits)
next
  case (drop s c i w e d)
  with upsert_lock_strict [OF drop(2)] show ?case by (simp add: holders_granted_def)
next
  case (release i s ok d)
  with ReleaseLock_same [OF release(1)] show ?case
    by (auto simp: holders_granted_def split: if_splits)
qed

lemma lock_steps_holders: "lock_step\<^sup>*\<^sup>* s s' \<Longrightarrow> holders_granted s \<Longrightarrow> holders_granted s'"
  by (induction rule: rtranclp_induct) (auto intro: lock_step_holders)

definition lock_start :: "db \<Rightarrow> lock_sys" where
  "lock_start d = \<lparr>table = d, pending = Map.empty, granted = []\<rparr>"

definition race_mid1 :: lock_sys where
  "race_mid1 = \<lparr>table = snd (select_lock 7 ''a'' 100 (empty_db good_server)),
     pending = [0 \<mapsto> (7, ''a'', 130)], granted = []\<rparr>"

definition race_mid2 :: lock_sys where
  "race_mid2 = \<lparr>table = snd (select_lock 7 ''b'' 100 (table race_mid1)),
     pending = [0 \<mapsto> (7, ''a'', 130), 1 \<mapsto> (7, ''b'', 130)], granted = []\<rparr>"

definition race_mid3 :: lock_sys where
  "race_mid3 = \<lparr>table = snd (upsert_lock 7 ''a'' 130 (table race_mid2)),
     pending = [1 \<mapsto> (7, ''b'', 130)], granted = [(0, 7, ''a'', 130)]\<rparr>"

definition race_end :: lock_sys where
  "race_end = \<lparr>table = snd (upsert_lock 7 ''b'' 130 (table race_mid3)),
     pending = Map.empty, granted = [(1, 7, ''b'', 130), (0, 7, ''a'', 130)]\<rparr>"

lemmas race_defs = race_mid1_def race_mid2_def race_mid3_def race_end_def lock_start_def
  select_lock_def upsert_lock_def send_def lock_busy_def varchar_def empty_db_def good_server_def

lemma race_steps:
  "lock_step (lock_start (empty_db good_server)) race_mid1"
  "lock_step race_mid1 race_mid2" "lock_step race_mid2 race_mid3" "lock_step race_mid3 race_end"
proof -
  show "lock_step (lock_start (empty_db good_server)) race_mid1"
    using decide [of "lock_start (empty_db good_server)" 0 7 "''a''" 100 "table race_mid1" 100 30]
    by (simp add: race_defs)
  show "lock_step race_mid1 race_mid2"
    using decide [of race_mid1 1 7 "''b''" 100 "table race_mid2" 100 30] by (simp add: race_defs)
  have "(pending race_mid2)(0 := None) = pending race_mid3" by (auto simp: race_defs)
  then show "lock_step race_mid2 race_mid3"
    using grant [of race_mid2 0 7 "''a''" 130 "table race_mid3"] by (simp add: race_defs)
  have "(pending race_mid3)(1 := None) = pending race_end" by (auto simp: race_defs)
  then show "lock_step race_mid3 race_end"
    using grant [of race_mid3 1 7 "''b''" 130 "table race_end"] by (simp add: race_defs)
qed

text \<open>
  \<open>AcquireLock\<close> is not atomic across connections: the SELECT and the UPSERT are separate
  statements outside a transaction, so two workers that both read the free lock at time 100
  are both granted it, with expiries 30 seconds ahead, and the table then names the second.
  (Calls that do not interleave exclude each other, as the theorem above states.)
\<close>

theorem interleaved_locks_both_granted:
  "\<exists>s. lock_step\<^sup>*\<^sup>* (lock_start (empty_db good_server)) s \<and>
       (0, 7, ''a'', 130) \<in> set (granted s) \<and> (1, 7, ''b'', 130) \<in> set (granted s) \<and>
       locks (table s) 7 = Some (''b'', 130)"
proof (intro exI conjI)
  show "lock_step\<^sup>*\<^sup>* (lock_start (empty_db good_server)) race_end"
    using race_steps by (meson converse_rtranclp_into_rtranclp rtranclp.rtrancl_refl)
qed (simp_all add: race_defs)



end
