(* ===== verification/Converter.thy ===== *)
theory Converter
  imports Pipeline Config_Model
begin

text \<open>
  The external commands of \<open>src/src/converter.cpp\<close> (POSIX branch): quoting for the shell, the
  command lines of the dnglab engine and embedder, \<open>run_timed\<close>, and how the engine binary is
  found. \<open>sh_words\<close> is the reading of a command line by the shell, restricted to words built
  of plain characters and single quotes; it is what the quoting is proved against.
\<close>

section \<open>Quoting\<close>

fun quote_chars :: "string \<Rightarrow> string" where
  "quote_chars [] = []"
| "quote_chars (c # cs) =
     (if c = CHR 0x27 then CHR 0x27 # CHR 0x5C # CHR 0x27 # CHR 0x27 # quote_chars cs else c # quote_chars cs)"

definition shell_quote :: "string \<Rightarrow> string" where
  "shell_quote s = CHR 0x27 # quote_chars s @ [CHR 0x27]"

text \<open>
  Token recognition of the POSIX shell for the constructs that occur here: inside single quotes
  every character stands for itself; outside, a blank ends a word, a quote opens one, a
  backslash quotes the next character, and a character the shell gives a meaning to
  (\<open>None\<close>) is not a plain word character.
\<close>

datatype sh_mode = Blank | Word | Quoted

definition sh_special :: "char \<Rightarrow> bool" where
  "sh_special c \<longleftrightarrow> c \<in> set ''|&;<>()$*?[#~%!{}'' \<or> c = CHR 0x60 \<or> c = CHR 0x22 \<or> c = CHR 0x0A"

fun sh_words :: "sh_mode \<Rightarrow> string \<Rightarrow> string \<Rightarrow> string list option" where
  "sh_words Blank w [] = Some []"
| "sh_words Word w [] = Some [w]"
| "sh_words Quoted w [] = None"
| "sh_words Quoted w (c # cs) =
     (if c = CHR 0x27 then sh_words Word w cs else sh_words Quoted (w @ [c]) cs)"
| "sh_words m w (c # cs) =
     (if c = CHR '' '' \<or> c = CHR 0x09
      then (case m of Word \<Rightarrow> map_option ((#) w) (sh_words Blank [] cs) | _ \<Rightarrow> sh_words Blank [] cs)
      else if c = CHR 0x27 then sh_words Quoted w cs
      else if c = CHR 0x5C
      then (case cs of [] \<Rightarrow> None
            | d # ds \<Rightarrow> if d = CHR 0x0A then None else sh_words Word (w @ [d]) ds)
      else if sh_special c then None
      else sh_words Word (w @ [c]) cs)"

definition sh_plain :: "string \<Rightarrow> bool" where
  "sh_plain w \<longleftrightarrow> w \<noteq> [] \<and> (\<forall>c \<in> set w. \<not> sh_special c \<and> c \<notin> {CHR '' '', CHR 0x09, CHR 0x27, CHR 0x5C})"

lemma sh_quoted_body: "sh_words Quoted w (quote_chars s @ CHR 0x27 # rest) = sh_words Word (w @ s) rest"
  by (induction s arbitrary: w) auto

lemma sh_shell_quote [simp]: "sh_words Blank [] (shell_quote s @ rest) = sh_words Word s rest"
  using sh_quoted_body [of "[]" s rest] by (simp add: shell_quote_def)

lemma sh_plain_word: "\<forall>c \<in> set s. \<not> sh_special c \<and> c \<notin> {CHR '' '', CHR 0x09, CHR 0x27, CHR 0x5C} \<Longrightarrow>
    sh_words Word w (s @ rest) = sh_words Word (w @ s) rest"
  by (induction s arbitrary: w) auto

lemma sh_plain_start: "sh_plain s \<Longrightarrow> sh_words Blank [] (s @ rest) = sh_words Word s rest"
proof -
  assume s: "sh_plain s"
  then obtain c cs where c: "s = c # cs" by (auto simp: sh_plain_def neq_Nil_conv)
  with s sh_plain_word [of cs "[c]" rest] show ?thesis by (auto simp: sh_plain_def)
qed

lemma sh_blank [simp]:
  "sh_words Word w (CHR '' '' # rest) = map_option ((#) w) (sh_words Blank [] rest)"
  "sh_words Word w [] = Some [w]"
  by simp_all

lemma sh_plain_last: "sh_plain s \<Longrightarrow> sh_words Blank [] s = Some [s]"
  using sh_plain_start [of s "[]"] by simp

section \<open>Running a command\<close>

text \<open>
  One poll of \<open>waitpid(WNOHANG)\<close> every 50 ms: the child still runs (or the call failed), it
  exited with a status, or a signal ended it. \<open>None\<close> as the whole sequence is a failed
  \<open>fork\<close>. The deadline test comes after the poll.
\<close>

datatype child = Running | Exited int | Signalled

text \<open>
  \<open>clock k\<close> is the steady clock, in ms since the fork, at the deadline test of the k-th poll;
  fuel counts polls, \<open>None\<close> is fuel that ran out.
\<close>

fun poll_child :: "(nat \<Rightarrow> child) \<Rightarrow> (nat \<Rightarrow> nat) \<Rightarrow> nat \<Rightarrow> nat \<Rightarrow> nat \<Rightarrow> int option" where
  "poll_child out clock timeout_ms k 0 = None"
| "poll_child out clock timeout_ms k (Suc fuel) =
     (case out k of
        Exited c \<Rightarrow> Some c
      | Signalled \<Rightarrow> Some (-1)
      | Running \<Rightarrow> if clock k \<ge> timeout_ms then Some (-1)
                   else poll_child out clock timeout_ms (Suc k) fuel)"

definition run_timed :: "(nat \<Rightarrow> child) option \<Rightarrow> (nat \<Rightarrow> nat) \<Rightarrow> nat \<Rightarrow> nat \<Rightarrow> int option" where
  "run_timed forked clock timeout_ms fuel =
     (case forked of None \<Rightarrow> Some (-1) | Some out \<Rightarrow> poll_child out clock timeout_ms 0 fuel)"

lemma poll_child_result:
  assumes "\<And>j. j < n \<Longrightarrow> out (k + j) = Running \<and> clock (k + j) < timeout_ms"
    and "out (k + n) \<noteq> Running \<or> timeout_ms \<le> clock (k + n)"
  shows "poll_child out clock timeout_ms k (Suc n + m) =
     Some (case out (k + n) of Exited c \<Rightarrow> c | _ \<Rightarrow> -1)"
  using assms
proof (induction n arbitrary: k)
  case 0
  then show ?case by (cases "out k") auto
next
  case (Suc n)
  have "out k = Running" "clock k < timeout_ms" using Suc.prems(1) [of 0] by simp_all
  then have "poll_child out clock timeout_ms k (Suc (Suc n) + m) = poll_child out clock timeout_ms (Suc k) (Suc n + m)"
    by simp
  also have "\<dots> = Some (case out (Suc k + n) of Exited c \<Rightarrow> c | _ \<Rightarrow> -1)"
  proof (rule Suc.IH)
    show "out (Suc k + j) = Running \<and> clock (Suc k + j) < timeout_ms" if "j < n" for j
      using Suc.prems(1) [of "Suc j"] that by simp
    show "out (Suc k + n) \<noteq> Running \<or> timeout_ms \<le> clock (Suc k + n)" using Suc.prems(2) by simp
  qed
  finally show ?case by simp
qed

definition last_poll :: "(nat \<Rightarrow> child) \<Rightarrow> (nat \<Rightarrow> nat) \<Rightarrow> nat \<Rightarrow> nat" where
  "last_poll out clock timeout_ms = (LEAST n. out n \<noteq> Running \<or> timeout_ms \<le> clock n)"

text \<open>
  C34: Waiting for a command is bounded: since every sleep lasts at least 50 ms, the loop ends
  after at most \<open>timeout / 50 + 1\<close> polls; it returns the exit status of a child that exits
  before the deadline poll, and -1 when a signal ended it or the deadline passed.
\<close>

theorem run_timed_returns:
  assumes "\<forall>k. 50 * k \<le> clock k" "timeout_ms div 50 + 2 \<le> fuel"
  shows "\<exists>n \<le> timeout_ms div 50 + 1. (\<forall>j < n. out j = Running \<and> clock j < timeout_ms) \<and>
     (out n \<noteq> Running \<or> timeout_ms \<le> clock n) \<and>
     run_timed (Some out) clock timeout_ms fuel = Some (case out n of Exited c \<Rightarrow> c | _ \<Rightarrow> -1)"
proof -
  let ?stop = "\<lambda>n. out n \<noteq> Running \<or> timeout_ms \<le> clock n"
  have "timeout_ms \<le> 50 * (timeout_ms div 50 + 1)" by presburger
  then have stop: "?stop (timeout_ms div 50 + 1)" using assms(1) le_trans by blast
  define n where "n = last_poll out clock timeout_ms"
  have n: "?stop n" "n \<le> timeout_ms div 50 + 1"
    using LeastI [of ?stop, OF stop] Least_le [of ?stop, OF stop] by (simp_all add: n_def last_poll_def)
  have before: "out j = Running \<and> clock j < timeout_ms" if "j < n" for j
    using not_less_Least [of j ?stop] that by (auto simp: n_def last_poll_def)
  obtain m where "fuel = Suc n + m" using n(2) assms(2) less_iff_Suc_add [of n fuel] by auto
  with poll_child_result [of n out 0 clock timeout_ms m] before n(1)
  have "run_timed (Some out) clock timeout_ms fuel = Some (case out n of Exited c \<Rightarrow> c | _ \<Rightarrow> -1)"
    by (simp add: run_timed_def)
  with n before show ?thesis by blast
qed

theorem run_timed_returns_witness:
  "run_timed (Some (\<lambda>k. if k < 3 then Running else Exited 7)) (\<lambda>k. 60 * k) 5000 102 = Some 7"
proof -
  let ?out = "\<lambda>k :: nat. if k < 3 then Running else Exited 7"
  obtain n :: nat where n: "\<forall>j < n. ?out j = Running \<and> 60 * j < 5000" "?out n \<noteq> Running \<or> 5000 \<le> 60 * n"
    "run_timed (Some ?out) (\<lambda>k. 60 * k) 5000 102 = Some (case ?out n of Exited c \<Rightarrow> c | _ \<Rightarrow> -1)"
    using run_timed_returns [of "\<lambda>k. 60 * k" 5000 102 ?out] by auto
  have "\<not> n < 3" using n(2) by (auto split: if_splits)
  with n(3) show ?thesis by simp
qed

section \<open>The engine and the embedder\<close>

text \<open>
  \<open>run cmd ms\<close> is the value \<open>run_timed\<close> returns for a command line. The engine object is its
  name and binary.
\<close>

type_synonym runner = "string \<Rightarrow> nat \<Rightarrow> int"

record engine =
  eng_name :: string
  eng_bin :: string

definition engine_Available :: "runner \<Rightarrow> engine \<Rightarrow> bool" where
  "engine_Available run e \<longleftrightarrow> run (eng_bin e @ '' convert --help >/dev/null 2>&1'') 5000 \<ge> 0"

definition engine_compression :: "conversion_settings \<Rightarrow> string" where
  "engine_compression s =
     (if compression s \<noteq> ''lossless'' \<and> compression s \<noteq> ''uncompressed'' then ''lossless'' else compression s)"

definition convert_cmd :: "engine \<Rightarrow> path \<Rightarrow> path \<Rightarrow> conversion_settings \<Rightarrow> string" where
  "convert_cmd e src dst s =
     eng_bin e @ '' convert '' @ shell_quote src @ '' '' @ shell_quote dst @ '' -c '' @
     engine_compression s @ '' --keep-mtime true -f''"

definition engine_Convert :: "runner \<Rightarrow> engine \<Rightarrow> path \<Rightarrow> path \<Rightarrow> conversion_settings \<Rightarrow> bool" where
  "engine_Convert run e src dst s \<longleftrightarrow> run (convert_cmd e src dst s) 300000 = 0"

record embedder =
  emb_bin :: string
  emb_exif :: string

definition embedder_Name :: "embedder \<Rightarrow> string" where
  "embedder_Name m = ''dnglab''"

definition embedder_Available :: "runner \<Rightarrow> embedder \<Rightarrow> bool" where
  "embedder_Available run m \<longleftrightarrow> run (emb_bin m @ '' reembed --help >/dev/null 2>&1'') 5000 \<ge> 0"

definition embed_cmd :: "embedder \<Rightarrow> path \<Rightarrow> path \<Rightarrow> string \<Rightarrow> string" where
  "embed_cmd m dng jpeg sd =
     emb_bin m @ '' reembed --dng '' @ shell_quote dng @ '' --preview '' @ shell_quote jpeg @
     '' --output '' @ shell_quote dng @ '' --seed '' @ shell_quote sd"

definition embedder_Embed :: "runner \<Rightarrow> embedder \<Rightarrow> path \<Rightarrow> path \<Rightarrow> string \<Rightarrow> bool" where
  "embedder_Embed run m dng jpeg sd \<longleftrightarrow> run (embed_cmd m dng jpeg sd) 120000 = 0"

definition set_orientation_cmd :: "embedder \<Rightarrow> path \<Rightarrow> int \<Rightarrow> string" where
  "set_orientation_cmd m dng ori =
     emb_exif m @ '' -Orientation='' @ dec_int ori @ '' -n -overwrite_original_in_place '' @ shell_quote dng"

definition embedder_SetOrientation :: "runner \<Rightarrow> embedder \<Rightarrow> path \<Rightarrow> int \<Rightarrow> bool" where
  "embedder_SetOrientation run m dng ori \<longleftrightarrow> run (set_orientation_cmd m dng ori) 30000 = 0"

definition ResolveEngineBinary :: "fsys \<Rightarrow> config \<Rightarrow> string \<Rightarrow> path" where
  "ResolveEngineBinary fs cfg name =
     (if converter_engine_bin cfg \<noteq> [] then converter_engine_bin cfg
      else let candidate = appdata_dir cfg @ ''/engines/'' @ name
        in if content fs candidate \<noteq> None then candidate
           else let builtin = ''/usr/local/bin/'' @ name
             in if content fs builtin \<noteq> None then builtin else name)"

definition engine_choice :: "config \<Rightarrow> string" where
  "engine_choice cfg = (if converter_engine cfg = [] then ''dnglab'' else converter_engine cfg)"

definition MakeConverter :: "fsys \<Rightarrow> config \<Rightarrow> engine" where
  "MakeConverter fs cfg =
     (let name = engine_choice cfg; bin = ResolveEngineBinary fs cfg name
      in if name = ''dnglab'' then \<lparr>eng_name = ''dnglab'', eng_bin = bin\<rparr>
         else \<lparr>eng_name = ''dnglab'', eng_bin = bin\<rparr>)"

definition MakeEmbedder :: "fsys \<Rightarrow> config \<Rightarrow> embedder" where
  "MakeEmbedder fs cfg =
     \<lparr>emb_bin = ResolveEngineBinary fs cfg (engine_choice cfg), emb_exif = exiftool_bin cfg\<rparr>"

lemma sh_plain_consts:
  "sh_plain ''lossless'' \<and> sh_plain ''uncompressed''"
  by code_simp

lemma engine_compression_plain: "sh_plain (engine_compression s)"
  using sh_plain_consts by (auto simp: engine_compression_def)

lemma sh_lit: "sh_plain w \<Longrightarrow> sh_words Blank [] (w @ CHR '' '' # rest) = map_option ((#) w) (sh_words Blank [] rest)"
  using sh_plain_start [of w "CHR '' '' # rest"] by simp

lemma sh_quoted_word: "sh_words Blank [] (shell_quote s @ CHR '' '' # rest) = map_option ((#) s) (sh_words Blank [] rest)"
  by simp

lemma sh_quoted_last: "sh_words Blank [] (shell_quote s) = Some [s]"
  using sh_shell_quote [of s "[]"] by simp

lemma plain_words:
  "sh_plain ''convert''" "sh_plain ''-c''" "sh_plain ''--keep-mtime''" "sh_plain ''true''" "sh_plain ''-f''"
  "sh_plain ''reembed''" "sh_plain ''--dng''" "sh_plain ''--preview''" "sh_plain ''--output''" "sh_plain ''--seed''"
  "sh_plain ''-n''" "sh_plain ''-overwrite_original_in_place''"
  by code_simp+

lemma sh_plain_orientation: "sh_plain (''-Orientation='' @ dec_int i)"
proof -
  have "sh_plain ''-Orientation=''" by code_simp
  moreover have "\<not> sh_special c \<and> c \<notin> {CHR '' '', CHR 0x09, CHR 0x27, CHR 0x5C}" if "c \<in> set (dec_int i)" for c
    using that by (auto simp: dec_int_def isdigit_def sh_special_def dest!: dec_nat_digits split: if_splits)
  ultimately show ?thesis by (auto simp: sh_plain_def)
qed

text \<open>
  C35: No file name can inject shell syntax: for every source, destination, preview and seed,
  with any characters at all, the shell splits the three command lines into exactly the
  intended arguments, each name being one argument unchanged, when the configured binaries
  are plain words; and the compression argument is always one of the two dnglab accepts.
\<close>

theorem commands_split_as_intended:
  assumes "sh_plain (eng_bin e)" "sh_plain (emb_bin m)" "sh_plain (emb_exif m)"
  shows "sh_words Blank [] (convert_cmd e src dst s) =
      Some [eng_bin e, ''convert'', src, dst, ''-c'', engine_compression s, ''--keep-mtime'', ''true'', ''-f'']
    \<and> engine_compression s \<in> {''lossless'', ''uncompressed''}
    \<and> sh_words Blank [] (embed_cmd m dng jpeg sd) =
      Some [emb_bin m, ''reembed'', ''--dng'', dng, ''--preview'', jpeg, ''--output'', dng, ''--seed'', sd]
    \<and> sh_words Blank [] (set_orientation_cmd m dng ori) =
      Some [emb_exif m, ''-Orientation='' @ dec_int ori, ''-n'', ''-overwrite_original_in_place'', dng]"
proof (intro conjI)
  note lits = sh_lit [OF plain_words(1), unfolded append.simps] sh_lit [OF plain_words(2), unfolded append.simps]
    sh_lit [OF plain_words(3), unfolded append.simps] sh_lit [OF plain_words(4), unfolded append.simps]
    sh_plain_last [OF plain_words(5)]
    sh_lit [OF plain_words(6), unfolded append.simps] sh_lit [OF plain_words(7), unfolded append.simps]
    sh_lit [OF plain_words(8), unfolded append.simps] sh_lit [OF plain_words(9), unfolded append.simps]
    sh_lit [OF plain_words(10), unfolded append.simps] sh_lit [OF plain_words(11), unfolded append.simps]
    sh_lit [OF plain_words(12), unfolded append.simps]
  show "sh_words Blank [] (convert_cmd e src dst s) =
      Some [eng_bin e, ''convert'', src, dst, ''-c'', engine_compression s, ''--keep-mtime'', ''true'', ''-f'']"
    using sh_lit [OF assms(1)] sh_lit [OF engine_compression_plain]
    by (simp add: convert_cmd_def lits sh_quoted_word del: sh_words.simps sh_shell_quote)
  show "engine_compression s \<in> {''lossless'', ''uncompressed''}" by (simp add: engine_compression_def)
  show "sh_words Blank [] (embed_cmd m dng jpeg sd) =
      Some [emb_bin m, ''reembed'', ''--dng'', dng, ''--preview'', jpeg, ''--output'', dng, ''--seed'', sd]"
    using sh_lit [OF assms(2)]
    by (simp add: embed_cmd_def lits sh_quoted_word sh_quoted_last del: sh_words.simps sh_shell_quote)
  show "sh_words Blank [] (set_orientation_cmd m dng ori) =
      Some [emb_exif m, ''-Orientation='' @ dec_int ori, ''-n'', ''-overwrite_original_in_place'', dng]"
    using sh_lit [OF assms(3)] sh_lit [OF sh_plain_orientation, of ori]
    by (simp add: set_orientation_cmd_def lits sh_quoted_last del: sh_words.simps sh_shell_quote)
qed

theorem commands_split_as_intended_witness:
  "sh_words Blank [] (convert_cmd \<lparr>eng_name = ''dnglab'', eng_bin = ''dnglab''\<rparr>
      (''it'' @ CHR 0x27 # ''s; rm -rf $HOME'') ''o.dng'' default_settings) =
    Some [''dnglab'', ''convert'', ''it'' @ CHR 0x27 # ''s; rm -rf $HOME'', ''o.dng'', ''-c'', ''lossless'',
          ''--keep-mtime'', ''true'', ''-f'']"
proof -
  have "sh_plain ''dnglab''" by code_simp
  moreover have "engine_compression default_settings = ''lossless''"
    by (simp add: engine_compression_def default_settings_def)
  ultimately show ?thesis
    using commands_split_as_intended [of "\<lparr>eng_name = ''dnglab'', eng_bin = ''dnglab''\<rparr>"
        "\<lparr>emb_bin = ''dnglab'', emb_exif = ''dnglab''\<rparr>" "''it'' @ CHR 0x27 # ''s; rm -rf $HOME''" "''o.dng''" default_settings]
    by simp
qed

text \<open>
  The factories: whatever \<open>CONVERTER_ENGINE\<close> says, the engine is the dnglab one by name; it
  and the embedder use the same binary; an explicit \<open>CONVERTER_ENGINE_BIN\<close> always wins, and
  otherwise the binary is one of the three places, the first two only if a file is there.
\<close>

theorem factories_choice:
  "eng_name (MakeConverter fs cfg) = ''dnglab''
   \<and> emb_bin (MakeEmbedder fs cfg) = eng_bin (MakeConverter fs cfg)
   \<and> eng_bin (MakeConverter fs cfg) \<in>
       (if converter_engine_bin cfg \<noteq> [] then {converter_engine_bin cfg}
        else {p. p \<in> {appdata_dir cfg @ ''/engines/'' @ engine_choice cfg, ''/usr/local/bin/'' @ engine_choice cfg}
                 \<and> content fs p \<noteq> None} \<union> {engine_choice cfg})"
  by (simp add: MakeConverter_def MakeEmbedder_def ResolveEngineBinary_def Let_def)

end
