(* ===== verification/Rotation.thy ===== *)
theory Rotation
  imports Locks Converter "HOL-Library.AList"
begin

text \<open>
  The rotation manager (\<open>src/src/rotation.cpp\<close>): intents queued per import with a grace
  deadline, the worker's turn that dispatches what is due, the dispatch under a processing lock,
  and the dispatch of the rest at shutdown. A turn is modelled here without a \<open>Queue\<close> call falling
  into the gap where the worker has released the mutex; \<open>Due_Loop\<close> has the turn with such calls.
\<close>

section \<open>State\<close>

record pending_rot =
  pr_orientation :: int
  pr_path :: path
  pr_client :: string
  pr_deadline :: int

text \<open>\<open>pending\<close> in the hash table's iteration order; times in milliseconds of the steady clock.\<close>

type_synonym pendings = "(int \<times> pending_rot) list"

record rot_cfg =
  rc_exiftool :: string
  rc_grace :: int
  rc_immich :: string
  rc_digikam :: bool

definition rot_config :: "config \<Rightarrow> rot_cfg" where
  "rot_config cfg =
     \<lparr>rc_exiftool = (if exiftool_bin cfg = [] then ''exiftool'' else exiftool_bin cfg),
      rc_grace = (if rotation_grace_ms cfg > 0 then rotation_grace_ms cfg else 1500),
      rc_immich = immich_url cfg,
      rc_digikam = (digikam_rescan cfg = ''dbus'')\<rparr>"

text \<open>
  The outside: the database, the shell commands run so far with their results, the answer
  \<open>system\<close> gives to the k-th command, and the wall clock in seconds at the k-th reading.
\<close>

record rot_world =
  rw_db :: db
  rw_cmds :: "(string \<times> int) list"
  rw_sys :: "nat \<Rightarrow> int"
  rw_clock :: "nat \<Rightarrow> int"
  rw_ticks :: nat

definition run_system :: "string \<Rightarrow> rot_world \<Rightarrow> int \<times> rot_world" where
  "run_system cmd s =
     (let r = rw_sys s (length (rw_cmds s)) in (r, s\<lparr>rw_cmds := rw_cmds s @ [(cmd, r)]\<rparr>))"

definition acquire_rot :: "int \<Rightarrow> rot_world \<Rightarrow> bool \<times> rot_world" where
  "acquire_rot i s =
     (let (ok, d) = AcquireLock i ''rotation-mgr'' 30 (rw_clock s (rw_ticks s)) (rw_clock s (rw_ticks s + 1)) [] (rw_db s)
      in (ok, s\<lparr>rw_db := d, rw_ticks := rw_ticks s + 2\<rparr>))"

definition rot_on_db :: "(db \<Rightarrow> 'r \<times> db) \<Rightarrow> rot_world \<Rightarrow> rot_world" where
  "rot_on_db f s = s\<lparr>rw_db := snd (f (rw_db s))\<rparr>"

section \<open>Operations\<close>

definition Queue :: "rot_cfg \<Rightarrow> int \<Rightarrow> int \<Rightarrow> path \<Rightarrow> int \<Rightarrow> string \<Rightarrow> pendings \<Rightarrow> pendings" where
  "Queue rc now i dng ori client pend =
     AList.update i \<lparr>pr_orientation = ori, pr_path = dng, pr_client = client, pr_deadline = now + rc_grace rc\<rparr> pend"

definition rotation_cmd :: "rot_cfg \<Rightarrow> pending_rot \<Rightarrow> string" where
  "rotation_cmd rc rot =
     rc_exiftool rc @ '' -Orientation='' @ dec_int (pr_orientation rot) @
     '' -n -overwrite_original_in_place '' @ pr_path rot"

definition immich_cmd :: "rot_cfg \<Rightarrow> string" where
  "immich_cmd rc =
     ''curl -s -o /dev/null -X POST '' @ CHR 0x22 # rc_immich rc @ ''/api/jobs'' @ CHR 0x22 # '' -H '' @
     CHR 0x22 # ''Content-Type: application/json'' @ CHR 0x22 # '' -d '' @ CHR 0x27 # CHR ''{'' #
     CHR 0x22 # ''type'' @ CHR 0x22 # CHR '':'' # CHR 0x22 # ''sidecar'' @ CHR 0x22 # CHR ''}'' # [CHR 0x27]"

definition Dispatch :: "rot_cfg \<Rightarrow> int \<Rightarrow> pending_rot \<Rightarrow> rot_world \<Rightarrow> rot_world" where
  "Dispatch rc i rot s =
     (let (locked, s1) = acquire_rot i s
      in if \<not> locked then s1
         else
           let (r, s2) = run_system (rotation_cmd rc rot) s1;
               s3 = (if r \<noteq> 0 then s2 else rot_on_db (UpdateOrientation i (pr_orientation rot)) s2);
               s4 = (if rc_immich rc \<noteq> [] then snd (run_system (immich_cmd rc) s3) else s3);
               s5 = (if rc_digikam rc then snd (run_system ''touch /tmp/digikam_rescan.trigger'' s4) else s4)
           in rot_on_db (ReleaseLock i) s5)"

text \<open>The worker's wait: the earliest deadline.\<close>

definition soonest :: "pendings \<Rightarrow> int option" where
  "soonest pend = (if pend = [] then None else Some (Min ((\<lambda>(_, r). pr_deadline r) ` set pend)))"

text \<open>The loop over \<open>pending\<close> at time \<open>now\<close>: due entries are erased and dispatched, in order.\<close>

fun dispatch_due :: "rot_cfg \<Rightarrow> int \<Rightarrow> pendings \<Rightarrow> rot_world \<Rightarrow> pendings \<times> rot_world" where
  "dispatch_due rc now [] s = ([], s)"
| "dispatch_due rc now ((i, rot) # pend) s =
     (if pr_deadline rot \<le> now then dispatch_due rc now pend (Dispatch rc i rot s)
      else let (rest, s') = dispatch_due rc now pend s in ((i, rot) # rest, s'))"

text \<open>The dispatch of the remaining intents in \<open>Stop\<close>, after the worker has ended.\<close>

fun stop_dispatch :: "rot_cfg \<Rightarrow> pendings \<Rightarrow> rot_world \<Rightarrow> rot_world" where
  "stop_dispatch rc [] s = s"
| "stop_dispatch rc ((i, rot) # pend) s =
     (let (locked, s1) = acquire_rot i s
      in if \<not> locked then stop_dispatch rc pend s1
         else
           let s2 = snd (run_system (rotation_cmd rc rot) s1);
               s3 = rot_on_db (UpdateOrientation i (pr_orientation rot)) s2
           in stop_dispatch rc pend (rot_on_db (ReleaseLock i) s3))"

section \<open>Coalescing\<close>

text \<open>An intent: time, import, path, orientation, client.\<close>

type_synonym intent = "int \<times> int \<times> path \<times> int \<times> string"

fun queue_all :: "rot_cfg \<Rightarrow> intent list \<Rightarrow> pendings \<Rightarrow> pendings" where
  "queue_all rc [] pend = pend"
| "queue_all rc ((now, i, dng, ori, client) # ints) pend = queue_all rc ints (Queue rc now i dng ori client pend)"

definition rot_of :: "rot_cfg \<Rightarrow> intent \<Rightarrow> pending_rot" where
  "rot_of rc x = (case x of (now, i, dng, ori, client) \<Rightarrow>
     \<lparr>pr_orientation = ori, pr_path = dng, pr_client = client, pr_deadline = now + rc_grace rc\<rparr>)"

lemma queue_all_last:
  "map_of (queue_all rc ints pend) i =
     (case [x \<leftarrow> ints. fst (snd x) = i] of [] \<Rightarrow> map_of pend i | xs \<Rightarrow> Some (rot_of rc (last xs)))"
proof (induction rc ints pend rule: queue_all.induct)
  case (2 rc now j dng ori client ints pend)
  show ?case
  proof (cases "[x \<leftarrow> ints. fst (snd x) = i]")
    case Nil
    with 2 show ?thesis by (auto simp: Queue_def update_conv rot_of_def)
  next
    case (Cons y ys)
    with 2 show ?thesis by (auto simp: Queue_def update_conv)
  qed
qed simp

lemma queue_all_distinct: "distinct (map fst pend) \<Longrightarrow> distinct (map fst (queue_all rc ints pend))"
  by (induction rc ints pend rule: queue_all.induct) (auto simp: Queue_def distinct_update)

text \<open>
  Rotation intents coalesce: after any sequence of intents there is at most one pending
  job per import, the one of its last intent, and its deadline is that intent's time plus the
  grace period.
\<close>

theorem intents_coalesce:
  "distinct (map fst (queue_all rc ints [])) \<and>
   map_of (queue_all rc ints []) i =
     (case [x \<leftarrow> ints. fst (snd x) = i] of [] \<Rightarrow> None | xs \<Rightarrow> Some (rot_of rc (last xs)))"
  using queue_all_distinct [of "[]" rc ints] queue_all_last [of rc ints "[]" i] by (simp split: list.split)

section \<open>Dispatch\<close>

lemma dispatch_due_rest: "fst (dispatch_due rc now pend s) = [(i, r) \<leftarrow> pend. now < pr_deadline r]"
  by (induction rc now pend s rule: dispatch_due.induct) (auto simp: split_beta)

lemma acquire_rot_frame:
  "rw_cmds (snd (acquire_rot i s)) = rw_cmds s" "rw_sys (snd (acquire_rot i s)) = rw_sys s"
  "rw_clock (snd (acquire_rot i s)) = rw_clock s"
  by (simp_all add: acquire_rot_def split_beta)

lemma acquire_rot_busy:
  assumes "locks (rw_db s) i = Some (w, e)" "w \<noteq> ''rotation-mgr''" "rw_clock s (rw_ticks s + 1) < e"
  shows "fst (acquire_rot i s) = False \<and> locks (rw_db (snd (acquire_rot i s))) = locks (rw_db s)"
proof -
  have "worker_fits ''rotation-mgr''" by (simp add: worker_fits_def)
  then obtain d where "AcquireLock i ''rotation-mgr'' 30 (rw_clock s (rw_ticks s)) (rw_clock s (rw_ticks s + 1)) [] (rw_db s)
      = (False, d)" "locks d = locks (rw_db s)"
    using db_lock.busy_refused [OF assms(1,3,2)] by blast
  then show ?thesis by (simp add: acquire_rot_def)
qed

lemma acquire_rot_rows: "import_rows (rw_db (snd (acquire_rot i s))) = import_rows (rw_db s)"
  by (auto simp: acquire_rot_def AcquireLock_def select_lock_def upsert_lock_def send_def split_beta Let_def
      split: option.split)

text \<open>
  A due intent whose import is locked by someone else is dropped: it leaves the pending
  map, no command is run for it, the lock and every import row stay as they are, and nothing
  retries it.
\<close>

theorem busy_intent_dropped:
  assumes "pr_deadline rot \<le> now" "locks (rw_db s) i = Some (w, e)" "w \<noteq> ''rotation-mgr''"
    and "rw_clock s (rw_ticks s + 1) < e"
  shows "let (rest, s') = dispatch_due rc now [(i, rot)] s
         in rest = [] \<and> rw_cmds s' = rw_cmds s \<and> locks (rw_db s') = locks (rw_db s) \<and>
            import_rows (rw_db s') = import_rows (rw_db s)"
  using assms(1) acquire_rot_busy [OF assms(2-4)] acquire_rot_frame(1) [of i s] acquire_rot_rows [of i s]
  by (simp add: Dispatch_def split_beta Let_def)

definition rot_demo :: "db \<Rightarrow> (nat \<Rightarrow> int) \<Rightarrow> rot_world" where
  "rot_demo d sys = \<lparr>rw_db = d, rw_cmds = [], rw_sys = sys, rw_clock = (\<lambda>_. 100), rw_ticks = 0\<rparr>"

definition demo_rot :: pending_rot where
  "demo_rot = \<lparr>pr_orientation = 6, pr_path = ''/output/IMG_1.dng'', pr_client = ''lr'', pr_deadline = 1500\<rparr>"

theorem busy_intent_dropped_witness:
  "rw_cmds (snd (dispatch_due (rot_config default_config) 2000 [(1, demo_rot)]
      (rot_demo (two_imports\<lparr>locks := [1 \<mapsto> (''api'', 130)]\<rparr>) (\<lambda>_. 0)))) = []"
  using busy_intent_dropped [of demo_rot 2000 "rot_demo (two_imports\<lparr>locks := [1 \<mapsto> (''api'', 130)]\<rparr>) (\<lambda>_. 0)"
      1 "''api''" 130 "rot_config default_config"]
  by (simp add: demo_rot_def rot_demo_def split_beta)

text \<open>What a dispatch that gets its lock does to the imports table.\<close>

lemma update_import_rows:
  assumes "stmt_ok (srv d) (stmt_no d)" "0 \<le> ori" "ori \<le> 255"
  shows "import_rows (snd (UpdateOrientation i ori d)) =
     map (\<lambda>r. if rec_id r = i then r\<lparr>orientation := ori\<rparr> else r) (import_rows d)"
  using assms by (auto simp: UpdateOrientation_def update_import_def send_def unsigned_col_def
      intro!: map_idI [symmetric])

lemma acquire_rot_db:
  "srv (rw_db (snd (acquire_rot i s))) = srv (rw_db s)"
  by (auto simp: acquire_rot_def AcquireLock_def select_lock_def upsert_lock_def send_def split_beta Let_def
      split: option.split)

lemma ReleaseLock_rows: "import_rows (snd (ReleaseLock i d)) = import_rows d"
  by (simp add: ReleaseLock_def send_def)

lemma run_system_frame [simp]:
  "rw_db (snd (run_system c s)) = rw_db s" "fst (run_system c s) = rw_sys s (length (rw_cmds s))"
  "rw_cmds (snd (run_system c s)) = rw_cmds s @ [(c, rw_sys s (length (rw_cmds s)))]"
  by (simp_all add: run_system_def Let_def)

text \<open>
  Shutdown trusts a command the grace path does not: with the lock free and a failing
  ExifTool, the worker's dispatch leaves the stored orientation alone, while the dispatch in
  \<open>Stop\<close> stores the new one although the file was not changed.
\<close>

theorem stop_ignores_failure:
  assumes "\<forall>k. stmt_ok (srv (rw_db s)) k" "fst (acquire_rot i s)" "rw_sys s (length (rw_cmds s)) \<noteq> 0"
    and "0 \<le> pr_orientation rot" "pr_orientation rot \<le> 255"
  shows "import_rows (rw_db (Dispatch rc i rot s)) = import_rows (rw_db s) \<and>
     import_rows (rw_db (stop_dispatch rc [(i, rot)] s)) =
       map (\<lambda>r. if rec_id r = i then r\<lparr>orientation := pr_orientation rot\<rparr> else r) (import_rows (rw_db s))"
proof
  have sys: "rw_sys (snd (acquire_rot i s)) (length (rw_cmds (snd (acquire_rot i s)))) \<noteq> 0"
    using assms(3) by (simp add: acquire_rot_frame)
  show "import_rows (rw_db (Dispatch rc i rot s)) = import_rows (rw_db s)"
    using assms(2) sys
    by (simp add: Dispatch_def split_beta Let_def rot_on_db_def ReleaseLock_rows acquire_rot_rows)
  have "stmt_ok (srv (rw_db (snd (acquire_rot i s)))) k" for k
    using assms(1) acquire_rot_db by simp
  then show "import_rows (rw_db (stop_dispatch rc [(i, rot)] s)) =
       map (\<lambda>r. if rec_id r = i then r\<lparr>orientation := pr_orientation rot\<rparr> else r) (import_rows (rw_db s))"
    using assms(2,4,5)
    by (simp add: split_beta Let_def rot_on_db_def ReleaseLock_rows update_import_rows acquire_rot_rows)
qed

lemma InsertImport_frame: "conn (snd (InsertImport r d)) = conn d" "locks (snd (InsertImport r d)) = locks d"
  by (simp_all add: InsertImport_def send_def)

theorem stop_ignores_failure_witness:
  "map orientation (import_rows (rw_db (stop_dispatch (rot_config default_config) [(1, demo_rot)]
      (rot_demo two_imports (\<lambda>_. 1))))) = [6, 0] \<and>
   map orientation (import_rows (rw_db (Dispatch (rot_config default_config) 1 demo_rot (rot_demo two_imports (\<lambda>_. 1)))))
     = [0, 0]"
proof -
  have rows: "map (\<lambda>r. (rec_id r, orientation r)) (import_rows two_imports) = [(1, 0), (2, 0)]"
    unfolding two_imports_def example_db_def by code_simp
  have "conn two_imports" "locks two_imports = Map.empty"
    using example_db_free by (simp_all add: two_imports_def InsertImport_frame)
  then have "fst (acquire_rot 1 (rot_demo two_imports (\<lambda>_. 1)))"
    by (simp add: acquire_rot_def rot_demo_def AcquireLock_def select_lock_def upsert_lock_def send_def
        effective_worker_def lock_busy_def varchar_def good_server_def Let_def)
  moreover have "\<forall>k. stmt_ok (srv (rw_db (rot_demo two_imports (\<lambda>_. 1)))) k" by (simp add: rot_demo_def good_server_def)
  ultimately have th: "import_rows (rw_db (Dispatch (rot_config default_config) 1 demo_rot (rot_demo two_imports (\<lambda>_. 1))))
        = import_rows two_imports \<and>
      import_rows (rw_db (stop_dispatch (rot_config default_config) [(1, demo_rot)] (rot_demo two_imports (\<lambda>_. 1)))) =
        map (\<lambda>r. if rec_id r = 1 then r\<lparr>orientation := 6\<rparr> else r) (import_rows two_imports)"
    using stop_ignores_failure [of "rot_demo two_imports (\<lambda>_. 1)" 1 demo_rot "rot_config default_config"]
    by (simp add: rot_demo_def demo_rot_def)
  obtain r1 r2 where "import_rows two_imports = [r1, r2]" "rec_id r1 = 1" "orientation r1 = 0" "rec_id r2 = 2" "orientation r2 = 0"
    using rows by (auto simp: map_eq_Cons_conv)
  with th show ?thesis by (simp add: demo_rot_def)
qed

section \<open>The command line\<close>

text \<open>
  The rotation manager does not quote its path: a path that is a plain word reaches ExifTool
  as one argument, but a path with a space in it is split into two, so ExifTool is run on files
  that do not exist (the same command of the preview embedder keeps it whole).
\<close>

theorem rotation_path_unquoted:
  assumes "sh_plain (rc_exiftool rc)" "sh_plain u" "sh_plain v" "pr_path rot = u @ '' '' @ v"
  shows "sh_words Blank [] (rotation_cmd rc rot) =
      Some [rc_exiftool rc, ''-Orientation='' @ dec_int (pr_orientation rot), ''-n'',
            ''-overwrite_original_in_place'', u, v]"
  using sh_lit [OF assms(1)] sh_lit [OF sh_plain_orientation, of "pr_orientation rot"]
    sh_lit [OF assms(2)] sh_plain_last [OF assms(3)] assms(4)
  by (simp add: rotation_cmd_def sh_lit [OF plain_words(11), unfolded append.simps]
      sh_lit [OF plain_words(12), unfolded append.simps] del: sh_words.simps)

theorem rotation_path_unquoted_witness:
  "sh_words Blank [] (rotation_cmd (rot_config default_config) (demo_rot\<lparr>pr_path := ''/output/my photos/IMG_1.dng''\<rparr>))
   = Some [''exiftool'', ''-Orientation=6'', ''-n'', ''-overwrite_original_in_place'', ''/output/my'', ''photos/IMG_1.dng'']"
proof -
  have p: "sh_plain ''exiftool''" "sh_plain ''/output/my''" "sh_plain ''photos/IMG_1.dng''" by code_simp+
  have e: "rc_exiftool (rot_config default_config) = ''exiftool''" by code_simp
  have d: "dec_int 6 = ''6''" by code_simp
  show ?thesis
    using rotation_path_unquoted [of "rot_config default_config" "''/output/my''" "''photos/IMG_1.dng''"
        "demo_rot\<lparr>pr_path := ''/output/my photos/IMG_1.dng''\<rparr>"] p e d
    by (simp add: demo_rot_def)
qed

end
