(* ===== verification/Metrics_Model.thy ===== *)
theory Metrics_Model
  imports Prelude Complex_Main
begin

text \<open>
  \<open>src/src/metrics.cpp\<close>: the counters, the six duration histograms and the Prometheus text.
  A \<open>double\<close> is its rational value; \<open>rnd\<close> is the rounding of IEEE arithmetic, so a decimal
  constant of the source is \<open>rnd\<close> of it and a floating-point sum is \<open>rnd\<close> of the exact sum.
  The counters are 64-bit and count events, so they do not overflow in practice; they are
  unbounded here. \<open>show_double\<close> is the stream's formatting of a double.
\<close>

section \<open>Histograms\<close>

record histogram =
  buckets :: "int list"
  hsum :: rat
  hcount :: int

definition empty_histogram :: histogram where
  "empty_histogram = \<lparr>buckets = replicate 10 0, hsum = 0, hcount = 0\<rparr>"

definition conversion_edges :: "rat list" where
  "conversion_edges = [1, 2, 5, 10, 20, 30, 60, 120, 300]"

definition short_edges :: "rat list" where
  "short_edges = [1/1000, 2/1000, 5/1000, 1/100, 2/100, 5/100, 1/10, 2/10, 5/10]"

definition stage_edges :: "rat list" where
  "stage_edges = [1/100, 2/100, 5/100, 1/10, 2/10, 5/10, 1, 2, 5]"

text \<open>The loop \<open>while (b < 9 && seconds > edges[b]) ++b\<close>, on the edges from \<open>b\<close> on.\<close>

fun bucket_index :: "(rat \<Rightarrow> rat) \<Rightarrow> rat list \<Rightarrow> rat \<Rightarrow> nat" where
  "bucket_index rnd [] s = 0"
| "bucket_index rnd (e # es) s = (if s > rnd e then Suc (bucket_index rnd es s) else 0)"

definition observe :: "(rat \<Rightarrow> rat) \<Rightarrow> rat list \<Rightarrow> rat \<Rightarrow> histogram \<Rightarrow> histogram" where
  "observe rnd edges s h =
     (let b = bucket_index rnd edges s
      in h\<lparr>buckets := (buckets h)[b := buckets h ! b + 1], hsum := rnd (hsum h + s), hcount := hcount h + 1\<rparr>)"

fun cumulate :: "int \<Rightarrow> int list \<Rightarrow> int list" where
  "cumulate cum [] = []"
| "cumulate cum (x # xs) = (cum + x) # cumulate (cum + x) xs"

definition le_labels :: "string list" where
  "le_labels = [''1'', ''2'', ''5'', ''10'', ''20'', ''30'', ''60'', ''120'', ''300'', ''+Inf'']"

definition bucket_line :: "string \<Rightarrow> string \<Rightarrow> int \<Rightarrow> string" where
  "bucket_line name le cum =
     name @ ''_bucket{le='' @ CHR 0x22 # le @ CHR 0x22 # ''} '' @ dec_int cum @ [CHR 0x0A]"

definition bucket_lines :: "string \<Rightarrow> histogram \<Rightarrow> string list" where
  "bucket_lines name h = map2 (bucket_line name) le_labels (cumulate 0 (buckets h))"

definition render_histogram :: "(rat \<Rightarrow> string) \<Rightarrow> string \<Rightarrow> histogram \<Rightarrow> string" where
  "render_histogram show_double name h =
     ''# TYPE '' @ name @ '' histogram'' @ CHR 0x0A # concat (bucket_lines name h) @
     name @ ''_sum '' @ show_double (hsum h) @ CHR 0x0A #
     name @ ''_count '' @ dec_int (hcount h) @ [CHR 0x0A]"

section \<open>The metrics object\<close>

record metrics =
  files_detected :: int
  conv_completed :: int
  conv_failed :: int
  dur_hist :: histogram
  m_queue_depth :: int
  db_size_bytes :: int
  fp_hist :: histogram
  hash_hist :: histogram
  exif_hist :: histogram
  db_hist :: histogram
  arch_hist :: histogram

definition initial_metrics :: metrics where
  "initial_metrics = \<lparr>files_detected = 0, conv_completed = 0, conv_failed = 0,
     dur_hist = empty_histogram, m_queue_depth = 0, db_size_bytes = 0, fp_hist = empty_histogram,
     hash_hist = empty_histogram, exif_hist = empty_histogram, db_hist = empty_histogram,
     arch_hist = empty_histogram\<rparr>"

definition inc_files_detected :: "int \<Rightarrow> metrics \<Rightarrow> metrics" where
  "inc_files_detected n m = m\<lparr>files_detected := files_detected m + n\<rparr>"

definition inc_conversions_completed :: "string \<Rightarrow> int \<Rightarrow> metrics \<Rightarrow> metrics" where
  "inc_conversions_completed st n m =
     (if st = ''failed'' then m\<lparr>conv_failed := conv_failed m + n\<rparr>
      else m\<lparr>conv_completed := conv_completed m + n\<rparr>)"

definition set_queue_depth :: "int \<Rightarrow> metrics \<Rightarrow> metrics" where
  "set_queue_depth n m = m\<lparr>m_queue_depth := n\<rparr>"

definition set_db_size_bytes :: "int \<Rightarrow> metrics \<Rightarrow> metrics" where
  "set_db_size_bytes n m = m\<lparr>db_size_bytes := n\<rparr>"

definition observe_conversion_duration :: "(rat \<Rightarrow> rat) \<Rightarrow> rat \<Rightarrow> metrics \<Rightarrow> metrics" where
  "observe_conversion_duration rnd s m = m\<lparr>dur_hist := observe rnd conversion_edges s (dur_hist m)\<rparr>"

definition observe_fast_fingerprint_duration :: "(rat \<Rightarrow> rat) \<Rightarrow> rat \<Rightarrow> metrics \<Rightarrow> metrics" where
  "observe_fast_fingerprint_duration rnd s m = m\<lparr>fp_hist := observe rnd short_edges s (fp_hist m)\<rparr>"

definition observe_hash_duration :: "(rat \<Rightarrow> rat) \<Rightarrow> rat \<Rightarrow> metrics \<Rightarrow> metrics" where
  "observe_hash_duration rnd s m = m\<lparr>hash_hist := observe rnd stage_edges s (hash_hist m)\<rparr>"

definition observe_exif_duration :: "(rat \<Rightarrow> rat) \<Rightarrow> rat \<Rightarrow> metrics \<Rightarrow> metrics" where
  "observe_exif_duration rnd s m = m\<lparr>exif_hist := observe rnd stage_edges s (exif_hist m)\<rparr>"

definition observe_db_duration :: "(rat \<Rightarrow> rat) \<Rightarrow> rat \<Rightarrow> metrics \<Rightarrow> metrics" where
  "observe_db_duration rnd s m = m\<lparr>db_hist := observe rnd short_edges s (db_hist m)\<rparr>"

definition observe_archive_duration :: "(rat \<Rightarrow> rat) \<Rightarrow> rat \<Rightarrow> metrics \<Rightarrow> metrics" where
  "observe_archive_duration rnd s m = m\<lparr>arch_hist := observe rnd stage_edges s (arch_hist m)\<rparr>"

definition sample :: "string \<Rightarrow> string \<Rightarrow> int \<Rightarrow> string" where
  "sample name labels v = name @ labels @ '' '' @ dec_int v @ [CHR 0x0A]"

definition type_line :: "string \<Rightarrow> string \<Rightarrow> string" where
  "type_line name kind = ''# TYPE '' @ name @ '' '' @ kind @ [CHR 0x0A]"

definition status_label :: "string \<Rightarrow> string" where
  "status_label st = ''{status='' @ CHR 0x22 # st @ CHR 0x22 # ''}''"

definition Render :: "(rat \<Rightarrow> string) \<Rightarrow> metrics \<Rightarrow> string" where
  "Render show_double m =
     type_line ''rawimport_files_detected_total'' ''counter'' @
     sample ''rawimport_files_detected_total'' [] (files_detected m) @
     type_line ''rawimport_conversions_completed_total'' ''counter'' @
     sample ''rawimport_conversions_completed_total'' (status_label ''completed'') (conv_completed m) @
     sample ''rawimport_conversions_completed_total'' (status_label ''failed'') (conv_failed m) @
     render_histogram show_double ''rawimport_conversion_duration_seconds'' (dur_hist m) @
     type_line ''rawimport_queue_depth'' ''gauge'' @
     sample ''rawimport_queue_depth'' [] (m_queue_depth m) @
     type_line ''rawimport_db_size_bytes'' ''gauge'' @
     sample ''rawimport_db_size_bytes'' [] (db_size_bytes m) @
     render_histogram show_double ''rawimport_fast_fingerprint_duration_seconds'' (fp_hist m) @
     render_histogram show_double ''rawimport_hash_duration_seconds'' (hash_hist m) @
     render_histogram show_double ''rawimport_exif_duration_seconds'' (exif_hist m) @
     render_histogram show_double ''rawimport_db_duration_seconds'' (db_hist m) @
     render_histogram show_double ''rawimport_archive_duration_seconds'' (arch_hist m)"

section \<open>What the buckets count\<close>

text \<open>The meaning of a Prometheus histogram: observations at most each edge, and all of them.\<close>

definition le_counts :: "(rat \<Rightarrow> rat) \<Rightarrow> rat list \<Rightarrow> rat list \<Rightarrow> int list" where
  "le_counts rnd edges obs =
     map (\<lambda>e. int (length [s \<leftarrow> obs. s \<le> rnd e])) edges @ [int (length obs)]"

lemma bucket_index_le: "bucket_index rnd edges s \<le> length edges"
  by (induction edges) auto

lemma cumulate_add:
  "b < length xs \<Longrightarrow> cumulate cum (xs[b := xs ! b + 1]) = map2 (\<lambda>i c. if b \<le> i then c + 1 else c)
     [0..<length xs] (cumulate cum xs)"
proof (induction xs arbitrary: b cum)
  case (Cons x xs)
  have shift: "map2 f [Suc 0..<Suc n] ys = map2 (\<lambda>i. f (Suc i)) [0..<n] ys" for f :: "nat \<Rightarrow> int \<Rightarrow> int" and n ys
    by (simp add: map_Suc_upt [symmetric] zip_map1 split_def comp_def del: map_Suc_upt upt_Suc)
  have up: "[0..<length (x # xs)] = 0 # [Suc 0..<Suc (length xs)]" by (simp add: upt_conv_Cons del: upt_Suc)
  show ?case
  proof (cases b)
    case 0
    have "cumulate (c + 1) ys = map2 (\<lambda>i v. v + 1) [0..<length ys] (cumulate c ys)" for c ys
    proof (induction ys arbitrary: c)
      case (Cons y ys)
      have "[0..<length (y # ys)] = 0 # [Suc 0..<Suc (length ys)]" by (simp add: upt_conv_Cons del: upt_Suc)
      with Cons.IH [of "c + y"] show ?case by (simp add: shift add.commute add.left_commute del: upt_Suc)
    qed simp
    from this [of "cum + x" xs] show ?thesis
      unfolding up by (simp add: 0 shift add.assoc del: upt_Suc)
  next
    case (Suc a)
    with Cons show ?thesis unfolding up by (simp add: shift del: upt_Suc)
  qed
qed simp

lemma cumulate_length [simp]: "length (cumulate cum xs) = length xs"
  by (induction xs arbitrary: cum) auto

lemma bucket_index_nth:
  assumes "sorted edges" "mono rnd" "i < length edges"
  shows "bucket_index rnd edges s \<le> i \<longleftrightarrow> s \<le> rnd (edges ! i)"
  using assms
proof (induction edges arbitrary: i)
  case (Cons e es)
  have le: "rnd e \<le> rnd ((e # es) ! i)"
    using Cons.prems by (cases i) (auto intro: monoD [OF Cons.prems(2)])
  show ?case
  proof (cases i)
    case 0
    then show ?thesis by auto
  next
    case (Suc j)
    with Cons have "bucket_index rnd es s \<le> j \<longleftrightarrow> s \<le> rnd (es ! j)" by simp
    with Suc le show ?thesis by auto
  qed
qed simp

definition observe_all :: "(rat \<Rightarrow> rat) \<Rightarrow> rat list \<Rightarrow> rat list \<Rightarrow> histogram" where
  "observe_all rnd edges obs = fold (observe rnd edges) obs empty_histogram"

lemma observe_all_snoc: "observe_all rnd edges (obs @ [s]) = observe rnd edges s (observe_all rnd edges obs)"
  by (simp add: observe_all_def)

lemma observe_all_length [simp]: "length (buckets (observe_all rnd edges obs)) = 10"
  by (induction obs rule: rev_induct)
    (auto simp: observe_all_snoc observe_def Let_def, simp add: observe_all_def empty_histogram_def)

lemma observe_all_count [simp]: "hcount (observe_all rnd edges obs) = int (length obs)"
  by (induction obs rule: rev_induct)
    (auto simp: observe_all_snoc observe_def Let_def, simp add: observe_all_def empty_histogram_def)

lemma cumulate_zeros: "cumulate 0 (replicate n 0) = replicate n 0"
  by (induction n) auto

lemma le_counts_snoc:
  assumes "sorted edges" "mono rnd" "length edges = 9"
  shows "le_counts rnd edges (obs @ [s]) = map2 (\<lambda>i c. if bucket_index rnd edges s \<le> i then c + 1 else c)
      [0..<10] (le_counts rnd edges obs)"
proof (rule nth_equalityI)
  fix i assume "i < length (le_counts rnd edges (obs @ [s]))"
  then have i: "i < 10" using assms(3) by (simp add: le_counts_def)
  show "le_counts rnd edges (obs @ [s]) ! i = map2 (\<lambda>i c. if bucket_index rnd edges s \<le> i then c + 1 else c)
      [0..<10] (le_counts rnd edges obs) ! i"
  proof (cases "i < 9")
    case True
    with bucket_index_nth [OF assms(1,2), of i s] assms(3) i show ?thesis
      by (simp add: le_counts_def nth_append)
  next
    case False
    then have "i = 9" using i by simp
    with bucket_index_le [of rnd edges s] assms(3) show ?thesis
      by (simp add: le_counts_def nth_append)
  qed
qed (use assms(3) in \<open>simp add: le_counts_def\<close>)

lemma cumulate_observe_all:
  assumes "sorted edges" "mono rnd" "length edges = 9"
  shows "cumulate 0 (buckets (observe_all rnd edges obs)) = le_counts rnd edges obs"
proof (induction obs rule: rev_induct)
  case Nil
  have "le_counts rnd edges [] = replicate 9 0 @ [0]"
    using assms(3) by (simp add: le_counts_def map_replicate_const)
  also have "\<dots> = replicate 10 (0::int)" by (simp add: eval_nat_numeral)
  finally show ?case by (simp add: observe_all_def empty_histogram_def cumulate_zeros)
next
  case (snoc s obs)
  let ?h = "observe_all rnd edges obs" and ?b = "bucket_index rnd edges s"
  have b: "?b < length (buckets ?h)" using bucket_index_le [of rnd edges s] assms(3) by simp
  have "cumulate 0 (buckets (observe rnd edges s ?h)) = cumulate 0 ((buckets ?h)[?b := buckets ?h ! ?b + 1])"
    by (simp add: observe_def Let_def)
  also have "\<dots> = map2 (\<lambda>i c. if ?b \<le> i then c + 1 else c) [0..<10] (le_counts rnd edges obs)"
    using cumulate_add [OF b, of 0] snoc by simp
  finally show ?case by (simp only: observe_all_snoc le_counts_snoc [OF assms])
qed

lemma edges_ok:
  "sorted conversion_edges \<and> length conversion_edges = 9"
  "sorted short_edges \<and> length short_edges = 9" "sorted stage_edges \<and> length stage_edges = 9"
  by (simp_all add: conversion_edges_def short_edges_def stage_edges_def)

text \<open>
  C37: The conversion-duration histogram is a correct Prometheus histogram: after any
  observations, with any monotone rounding, the line labelled \<open>le="e"\<close> reports exactly the
  number of observations of at most e seconds, the last line all of them, and so does the
  count.
\<close>

theorem conversion_histogram_correct:
  assumes "mono rnd"
  shows "bucket_lines name (observe_all rnd conversion_edges obs) =
           map2 (bucket_line name) le_labels (le_counts rnd conversion_edges obs)
         \<and> hcount (observe_all rnd conversion_edges obs) = int (length obs)"
  using cumulate_observe_all [OF _ assms, of conversion_edges obs] edges_ok(1)
  by (simp add: bucket_lines_def)

theorem conversion_histogram_correct_witness:
  "bucket_lines ''d'' (observe_all id conversion_edges [3, 200]) ! 2 = bucket_line ''d'' ''5'' 1"
proof -
  have "mono (id :: rat \<Rightarrow> rat)" by (simp add: mono_def)
  from conversion_histogram_correct [OF this, of "''d''" "[3, 200]"] show ?thesis
    by (simp add: le_labels_def le_counts_def conversion_edges_def)
qed

text \<open>
  The five per-stage histograms are exported under the wrong labels: they are binned by
  their own edges but printed with those of the conversion histogram. A single hashing of half
  a second, which every scraper must see counted under \<open>le="1"\<close>, is first counted under
  \<open>le="30"\<close>.
\<close>

theorem stage_histogram_mislabelled:
  "let h = hash_hist (observe_hash_duration id (1/2) initial_metrics)
   in bucket_lines ''h'' h ! 0 = bucket_line ''h'' ''1'' 0 \<and>
      bucket_lines ''h'' h ! 4 = bucket_line ''h'' ''20'' 0 \<and>
      bucket_lines ''h'' h ! 5 = bucket_line ''h'' ''30'' 1"
  by (simp add: observe_hash_duration_def initial_metrics_def empty_histogram_def observe_def
      bucket_lines_def le_labels_def stage_edges_def eval_nat_numeral)

end
