(* ===== verification/Api.thy ===== *)
theory Api
  imports Rotation Metrics_Model
begin

text \<open>
  The HTTP server (\<open>src/src/api.cpp\<close>): reading a request from the socket, the query and JSON
  helpers, authorisation, and every route with its effect on the database and the rotation
  queue. The result of a request is a reply, the termination of the process by an uncaught
  \<open>std::stoi\<close> exception, or undefined behaviour (a signed overflow).
\<close>

section \<open>Reading the request\<close>

definition crlf :: string where
  "crlf = [CHR 0x0D, CHR 0x0A]"

record reading =
  rd_req :: string
  rd_total :: nat
  rd_done :: bool
  rd_cl :: int

definition content_length :: "string \<Rightarrow> int" where
  "content_length req =
     (case (case find_sub ''Content-Length:'' req of None \<Rightarrow> find_sub ''content-length:'' req | Some i \<Rightarrow> Some i) of
        None \<Rightarrow> 0
      | Some clpos \<Rightarrow>
          let e = (case str_find req crlf clpos of None \<Rightarrow> length req | Some cs \<Rightarrow> cs)
          in case stol (substr req (clpos + 15) (e - (clpos + 15))) of Inl _ \<Rightarrow> 0 | Inr v \<Rightarrow> v)"

text \<open>
  The receive loop over what the successive \<open>recv\<close> calls return (an empty chunk is a closed or
  timed-out connection). \<open>req += buf\<close> stops at a NUL byte. \<open>None\<close>: \<open>header_len + cl\<close> overflows.
\<close>

fun read_loop :: "string list \<Rightarrow> reading \<Rightarrow> reading option" where
  "read_loop [] r = Some r"
| "read_loop (buf # bufs) r =
     (if rd_total r \<ge> 65536 \<or> buf = [] then Some r
      else
        let req = rd_req r @ c_str buf;
            r1 = r\<lparr>rd_req := req, rd_total := rd_total r + length buf\<rparr>
        in case find_sub (crlf @ crlf) req of
             None \<Rightarrow> read_loop bufs r1
           | Some hpos \<Rightarrow>
               let r2 = (if rd_done r then r1 else r1\<lparr>rd_done := True, rd_cl := content_length req\<rparr>);
                   need = int (hpos + 4) + rd_cl r2
               in if need > int64_max then None
                  else if int (length req) \<ge> need then Some r2
                  else read_loop bufs r2)"

definition read_request :: "string list \<Rightarrow> string option" where
  "read_request bufs =
     map_option rd_req (read_loop bufs \<lparr>rd_req = [], rd_total = 0, rd_done = False, rd_cl = 0\<rparr>)"

section \<open>Helpers\<close>

definition escape_char :: "char \<Rightarrow> string" where
  "escape_char c =
     (if c = CHR 0x22 \<or> c = CHR 0x5C then [CHR 0x5C, c]
      else if c = CHR 0x0A then [CHR 0x5C, CHR ''n'']
      else if c = CHR 0x0D then [CHR 0x5C, CHR ''r'']
      else if c = CHR 0x09 then [CHR 0x5C, CHR ''t'']
      else [c])"

definition json_escape :: "string \<Rightarrow> string" where
  "json_escape s = concat (map escape_char s)"

definition quoted :: "string \<Rightarrow> string" where
  "quoted s = CHR 0x22 # s @ [CHR 0x22]"

definition json_field :: "string \<Rightarrow> string \<Rightarrow> string" where
  "json_field k v = quoted k @ CHR '':'' # quoted v"

definition record_to_json :: "import_record \<Rightarrow> string" where
  "record_to_json r =
     ''{'' @ json_field ''sequence'' (json_escape (sequence_name r)) @ '','' @
     json_field ''source_path'' (json_escape (source_path r)) @ '','' @
     json_field ''source_hash'' (json_escape (source_hash r)) @ '','' @
     json_field ''output_path'' (json_escape (output_path r)) @ '','' @
     json_field ''output_hash'' (json_escape (output_hash r)) @ '','' @
     json_field ''camera_model'' (json_escape (camera_model r)) @ '','' @
     json_field ''capture_date'' (json_escape (capture_date r)) @ '','' @
     json_field ''capture_time'' (json_escape (capture_time r)) @ '','' @
     json_field ''folder_schema'' (json_escape (folder_schema r)) @ '','' @
     json_field ''status'' (status_string (status r)) @ '','' @
     json_field ''created_at'' (json_escape (created_at r)) @ '','' @
     json_field ''completed_at'' (json_escape (completed_at r)) @ '','' @
     quoted ''orientation'' @ CHR '':'' # dec_int (orientation r) @ ''}''"

text \<open>
  \<open>parse_query\<close>: with an ampersand before the equals sign the length \<open>amp - eq - 1\<close> wraps
  around, so the value is the rest of the query.
\<close>

function parse_query_from :: "string \<Rightarrow> nat \<Rightarrow> (string \<rightharpoonup> string) \<Rightarrow> (string \<rightharpoonup> string)" where
  "parse_query_from q i m =
     (if i < length q
      then case str_find q ''='' i of
             None \<Rightarrow> m
           | Some eq \<Rightarrow>
               let k = substr q i (eq - i)
               in case str_find q ''&'' i of
                    None \<Rightarrow> m(k \<mapsto> substr_from q (eq + 1))
                  | Some amp \<Rightarrow>
                      let v = (if amp < eq then substr_from q (eq + 1) else substr q (eq + 1) (amp - eq - 1))
                      in parse_query_from q (amp + 1) (m(k \<mapsto> v))
      else m)"
  by pat_completeness auto
termination
  by (relation "measure (\<lambda>(q, i, m). length q - i)") (auto dest: str_find_bounds)

declare parse_query_from.simps [simp del]

definition parse_query :: "string \<Rightarrow> (string \<rightharpoonup> string)" where
  "parse_query q = parse_query_from q 0 Map.empty"

definition json_ws :: "char \<Rightarrow> bool" where
  "json_ws c \<longleftrightarrow> c = CHR '' '' \<or> c = CHR 0x09"

definition json_get :: "string \<Rightarrow> string \<Rightarrow> string" where
  "json_get body key =
     (let pat = quoted key @ '':''
      in case find_sub pat body of
           None \<Rightarrow> []
         | Some pos \<Rightarrow>
             (case dropWhile json_ws (drop (pos + length pat) body) of
                [] \<Rightarrow> []
              | c # t \<Rightarrow>
                  if c = CHR 0x22
                  then (case find_sub [CHR 0x22] t of None \<Rightarrow> [] | Some e \<Rightarrow> take e t)
                  else takeWhile (\<lambda>x. x \<noteq> CHR '','' \<and> x \<noteq> CHR ''}'' \<and> x \<noteq> CHR '' '') (c # t)))"

section \<open>Requests and replies\<close>

record request =
  rq_text :: string
  rq_method :: string
  rq_path :: string
  rq_query :: "string \<rightharpoonup> string"

definition parse_request :: "string \<Rightarrow> request option" where
  "parse_request req =
     (case find_sub '' '' req of
        None \<Rightarrow> None
      | Some sp1 \<Rightarrow>
          (case str_find req '' '' (sp1 + 1) of
             None \<Rightarrow> None
           | Some sp2 \<Rightarrow>
               let full = substr req (sp1 + 1) (sp2 - sp1 - 1);
                   qpos = find_sub ''?'' full
               in Some \<lparr>rq_text = req, rq_method = substr req 0 sp1,
                        rq_path = (case qpos of None \<Rightarrow> full | Some i \<Rightarrow> substr full 0 i),
                        rq_query = parse_query (case qpos of None \<Rightarrow> [] | Some i \<Rightarrow> substr_from full (i + 1))\<rparr>))"

definition authorised :: "string \<Rightarrow> string \<Rightarrow> bool" where
  "authorised token req =
     (case find_sub ''Authorization:'' req of
        None \<Rightarrow> False
      | Some ah \<Rightarrow>
          (case str_find req ''Bearer '' ah of
             None \<Rightarrow> False
           | Some b \<Rightarrow>
               let tok = substr_from req (b + 7)
               in (case find_sub crlf tok of None \<Rightarrow> tok | Some nl \<Rightarrow> substr tok 0 nl) = token))"

datatype api_result = Reply int string string | Terminated conv_error | Undefined

definition json_type :: string where
  "json_type = ''application/json''"

definition json_reply :: "int \<Rightarrow> string \<Rightarrow> api_result" where
  "json_reply code body = Reply code body json_type"

definition err :: "string \<Rightarrow> string" where
  "err msg = ''{'' @ json_field ''error'' msg @ ''}''"

text \<open>\<open>send_response\<close>: the bytes of a reply.\<close>

definition reason :: "int \<Rightarrow> string" where
  "reason code = (if code = 200 then ''OK'' else if code = 404 then ''Not Found''
     else if code = 401 then ''Unauthorized'' else if code = 503 then ''Service Unavailable'' else ''Error'')"

definition send_response :: "int \<Rightarrow> string \<Rightarrow> string \<Rightarrow> string" where
  "send_response code body content_type =
     ''HTTP/1.1 '' @ dec_int code @ '' '' @ reason code @ crlf @
     ''Content-Type: '' @ content_type @ crlf @
     ''Content-Length: '' @ dec_nat (length body) @ crlf @
     ''Connection: close'' @ crlf @ crlf @ body"

text \<open>
  What a handler reads and changes. \<open>as_alive\<close> is the answer of \<open>mysql_ping\<close>, \<open>as_sha\<close> the
  hash of a file on disk, \<open>as_now\<close> the steady clock; \<open>as_rot\<close> is the rotation manager's map,
  \<open>None\<close> when there is none.
\<close>

record api_state =
  as_cfg :: config
  as_db :: db
  as_rot :: "pendings option"
  as_alive :: bool
  as_sha :: "path \<Rightarrow> string"
  as_now :: int
  as_metrics :: string

type_synonym handler_result = "api_result \<times> api_state"

definition api_db :: "(db \<Rightarrow> 'r \<times> db) \<Rightarrow> api_state \<Rightarrow> 'r \<times> api_state" where
  "api_db f s = (let (r, d) = f (as_db s) in (r, s\<lparr>as_db := d\<rparr>))"

definition body_of :: "request \<Rightarrow> string" where
  "body_of rq = (case find_sub (crlf @ crlf) (rq_text rq) of None \<Rightarrow> [] | Some b \<Rightarrow> substr_from (rq_text rq) (b + 4))"

definition get_param :: "request \<Rightarrow> string \<Rightarrow> string" where
  "get_param rq k = (case rq_query rq k of None \<Rightarrow> [] | Some v \<Rightarrow> v)"

definition not_found :: api_result where
  "not_found = json_reply 404 (err ''not-found'')"

definition record_reply :: "import_record option \<times> api_state \<Rightarrow> handler_result" where
  "record_reply x = (case x of (None, s) \<Rightarrow> (not_found, s) | (Some r, s) \<Rightarrow> (json_reply 200 (record_to_json r), s))"

definition num_field :: "string \<Rightarrow> int \<Rightarrow> string" where
  "num_field k v = quoted k @ CHR '':'' # dec_int v"

definition stats_json :: "stats \<Rightarrow> string" where
  "stats_json st = ''{'' @ num_field ''total'' (st_total st) @ '','' @ num_field ''completed'' (st_completed st) @ '','' @
     num_field ''failed'' (st_failed st) @ '','' @ num_field ''queue_depth'' (st_queue_depth st) @ ''}''"

definition api_stats :: "api_state \<Rightarrow> handler_result" where
  "api_stats s = (let (st, s1) = api_db GetStats s in (json_reply 200 (stats_json st), s1))"

definition api_ready :: "api_state \<Rightarrow> handler_result" where
  "api_ready s =
     (if Ping (as_alive s) (as_db s)
      then (json_reply 200 (''{'' @ json_field ''status'' ''ready'' @ '','' @ json_field ''db'' ''ok'' @ ''}''), s)
      else (json_reply 503 (''{'' @ json_field ''status'' ''not-ready'' @ '','' @ json_field ''db'' ''unavailable'' @ ''}''), s))"

fun join_comma :: "string list \<Rightarrow> string" where
  "join_comma [] = []"
| "join_comma [x] = x"
| "join_comma (x # y # ys) = x @ '','' @ join_comma (y # ys)"

definition api_list :: "request \<Rightarrow> api_state \<Rightarrow> handler_result" where
  "api_list rq s =
     (case (case rq_query rq ''page'' of None \<Rightarrow> Inr 1 | Some v \<Rightarrow> stoi v) of
        Inl e \<Rightarrow> (Terminated e, s)
      | Inr page0 \<Rightarrow>
     (case (case rq_query rq ''limit'' of None \<Rightarrow> Inr 50 | Some v \<Rightarrow> stoi v) of
        Inl e \<Rightarrow> (Terminated e, s)
      | Inr limit0 \<Rightarrow>
          let page = (if page0 < 1 then 1 else page0);
              limit = (if limit0 < 1 then 50 else limit0)
          in case ListImports page limit (get_param rq ''status'') (get_param rq ''camera'') (as_db s) of
               None \<Rightarrow> (Undefined, s)
             | Some (rows, d1) \<Rightarrow>
                 let (st, s1) = api_db GetStats (s\<lparr>as_db := d1\<rparr>)
                 in (json_reply 200 (''{'' @ num_field ''total'' (st_total st) @ '','' @ num_field ''page'' page @ '','' @
                       num_field ''limit'' limit @ '','' @ quoted ''data'' @ '':['' @
                       join_comma (map record_to_json rows) @ '']}''), s1)))"

definition api_reconvert :: "request \<Rightarrow> api_state \<Rightarrow> handler_result" where
  "api_reconvert rq s =
     (let seq0 = substr_from (rq_path rq) (length ''/api/v1/imports/'');
          seq = (case find_sub ''/reconvert'' seq0 of None \<Rightarrow> seq0 | Some i \<Rightarrow> substr seq0 0 i)
      in case api_db (GetImportBySequence seq) s of
           (None, s1) \<Rightarrow> (not_found, s1)
         | (Some r, s1) \<Rightarrow>
             let body = body_of rq;
                 comp = json_get body ''compression'';
                 job = new_job\<lparr>job_import_id := rec_id r, job_previous_hash := output_hash r,
                   job_settings := default_settings\<lparr>compression := (if comp = [] then ''lossless'' else comp)\<rparr>,
                   job_reason := json_get body ''reason''\<rparr>;
                 (rid, s2) = api_db (InsertReconversion (rec_id r) job) s1
             in (json_reply 200 (''{'' @ num_field ''reconversion_id'' rid @ '','' @
                   json_field ''sequence'' (json_escape seq) @ '','' @ json_field ''status'' ''pending'' @ '','' @
                   json_field ''queued_at'' [] @ ''}''), s2))"

definition api_preview_updated :: "request \<Rightarrow> api_state \<Rightarrow> handler_result" where
  "api_preview_updated rq s =
     (let op = json_get (body_of rq) ''output_path''
      in if op = [] then (json_reply 400 (err ''missing-output_path''), s)
         else case api_db (GetImportByOutputPath op) s of
           (None, s1) \<Rightarrow> (not_found, s1)
         | (Some r, s1) \<Rightarrow>
             let new_hash = as_sha s1 op
             in if new_hash = [] then (json_reply 500 (err ''hash-failed''), s1)
                else
                  let s2 = snd (api_db (UpdateOutputHash (rec_id r) new_hash) s1);
                      s3 = snd (api_db (RecordPreviewEdit (rec_id r) ''api-preview-updated'' (output_hash r) new_hash 0 0 0) s2)
                  in (json_reply 200 (''{'' @ json_field ''status'' ''synced'' @ ''}''), s3))"

definition api_rotation_updated :: "request \<Rightarrow> api_state \<Rightarrow> handler_result" where
  "api_rotation_updated rq s =
     (case as_rot s of
        None \<Rightarrow> (json_reply 503 (err ''rotation-disabled''), s)
      | Some pend \<Rightarrow>
          let body = body_of rq;
              sp = json_get body ''source_path'';
              os = json_get body ''orientation''
          in case (if os = [] then Inr 1 else stoi os) of
               Inl e \<Rightarrow> (Terminated e, s)
             | Inr orient \<Rightarrow>
                 (case api_db (GetImportBySourcePath sp) s of
                    (None, s1) \<Rightarrow> (not_found, s1)
                  | (Some r, s1) \<Rightarrow>
                      (json_reply 200 (''{'' @ json_field ''status'' ''queued'' @ ''}''),
                       s1\<lparr>as_rot := Some (Queue (rot_config (as_cfg s1)) (as_now s1) (rec_id r) (output_path r) orient
                            (json_get body ''client_id'') pend)\<rparr>)))"

definition route :: "request \<Rightarrow> api_state \<Rightarrow> handler_result" where
  "route rq s =
     (let get = (rq_method rq = ''GET''); post = (rq_method rq = ''POST''); path = rq_path rq
      in if get \<and> path = ''/health'' then (json_reply 200 (''{'' @ json_field ''status'' ''ok'' @ ''}''), s)
         else if get \<and> path = ''/ready'' then api_ready s
         else if get \<and> path = ''/metrics'' then (Reply 200 (as_metrics s) ''text/plain; version=0.0.4'', s)
         else if get \<and> path = ''/api/v1/stats'' then api_stats s
         else if get \<and> path = ''/api/v1/alerts'' then (json_reply 200 (''{'' @ quoted ''alerts'' @ '':[]}''), s)
         else if get \<and> path = ''/api/v1/imports'' then api_list rq s
         else if get \<and> starts_with path ''/api/v1/imports/hash/''
         then record_reply (api_db (GetImportByHash (substr_from path (length ''/api/v1/imports/hash/''))) s)
         else if get \<and> starts_with path ''/api/v1/imports/by-source''
         then record_reply (api_db (GetImportBySourcePath (get_param rq ''path'')) s)
         else if get \<and> starts_with path ''/api/v1/imports/''
         then record_reply (api_db (GetImportBySequence (substr_from path (length ''/api/v1/imports/''))) s)
         else if post \<and> starts_with path ''/api/v1/imports/'' \<and> contains path ''/reconvert'' then api_reconvert rq s
         else if post \<and> path = ''/api/v1/imports/by-path/preview-updated'' then api_preview_updated rq s
         else if post \<and> path = ''/api/v1/imports/by-source/rotation-updated'' then api_rotation_updated rq s
         else (json_reply 404 (err ''no-route''), s))"

definition handle :: "string \<Rightarrow> api_state \<Rightarrow> handler_result" where
  "handle req s =
     (if req = [] then (json_reply 400 (err ''empty''), s)
      else case parse_request req of
             None \<Rightarrow> (json_reply 400 (err ''bad-request''), s)
           | Some rq \<Rightarrow>
               let token = api_token (as_cfg s)
               in if rq_path rq \<noteq> ''/health'' \<and> token \<noteq> [] \<and> \<not> authorised token req
                  then (json_reply 401 (err ''unauthorized''), s)
                  else route rq s)"

section \<open>Authorisation\<close>

lemma authorised_bearer:
  assumes "authorised token req"
  shows "sublist (''Bearer '' @ token) req"
proof -
  obtain ah b where b: "find_sub ''Authorization:'' req = Some ah" "str_find req ''Bearer '' ah = Some b"
    "(case find_sub crlf (substr_from req (b + 7)) of None \<Rightarrow> substr_from req (b + 7)
      | Some nl \<Rightarrow> substr (substr_from req (b + 7)) 0 nl) = token"
    using assms by (auto simp: authorised_def Let_def split: option.splits)
  have "take 7 (drop b req) = ''Bearer ''"
  proof -
    obtain i where "find_sub ''Bearer '' (drop ah req) = Some i" "b = ah + i"
      using b(2) by (auto simp: str_find_def split: if_splits)
    moreover have "length ''Bearer '' = 7" by simp
    ultimately show ?thesis
      using find_sub_Some [of "''Bearer ''" "drop ah req" i] by (simp only: drop_drop add.commute)
  qed
  then have "drop b req = ''Bearer '' @ drop (b + 7) req"
    by (metis append_take_drop_id drop_drop add.commute)
  moreover have "prefix token (drop (b + 7) req)"
    using b(3) by (auto simp: substr_from_def substr_def take_is_prefix split: option.splits)
  ultimately have "prefix (''Bearer '' @ token) (drop b req)" by simp
  then show ?thesis by (metis sublist_drop prefix_imp_sublist sublist_order.order_trans)
qed

lemma route_health: "rq_path rq = ''/health'' \<Longrightarrow> snd (route rq s) = s \<and>
    (\<exists>code body ty. fst (route rq s) = Reply code body ty)"
proof -
  assume p: "rq_path rq = ''/health''"
  have "\<not> starts_with ''/health'' ''/api/v1/imports/''" "\<not> starts_with ''/health'' ''/api/v1/imports/hash/''"
    "\<not> starts_with ''/health'' ''/api/v1/imports/by-source''" by code_simp+
  with p show ?thesis by (simp add: route_def json_reply_def api_ready_def Let_def)
qed

lemma no_token_handled:
  assumes "api_token (as_cfg s) \<noteq> []" "\<not> sublist (''Bearer '' @ api_token (as_cfg s)) req"
  shows "snd (handle req s) = s \<and>
    (\<exists>code body ty. fst (handle req s) = Reply code body ty \<and>
       (code \<in> {400, 401} \<or> (\<exists>rq. parse_request req = Some rq \<and> rq_path rq = ''/health'')))"
proof -
  have "\<not> authorised (api_token (as_cfg s)) req" using authorised_bearer assms(2) by blast
  then show ?thesis
    using assms(1) route_health
    by (auto simp: handle_def json_reply_def Let_def split: option.split)
qed

text \<open>
  Without the token nothing is reachable: when a token is configured and the text
  \<open>Bearer <token>\<close> occurs nowhere in the request, the request changes no state, and the answer
  is an error 400 or 401 or concerns the path \<open>/health\<close> only.
\<close>

theorem no_token_no_effect:
  assumes "api_token (as_cfg s) \<noteq> []" "\<not> sublist (''Bearer '' @ api_token (as_cfg s)) req"
  shows "snd (handle req s) = s \<and>
    (\<exists>code body ty. fst (handle req s) = Reply code body ty \<and>
       (code \<in> {400, 401} \<or> (\<exists>rq. parse_request req = Some rq \<and> rq_path rq = ''/health'')))"
  by (rule no_token_handled [OF assms])

definition api_demo :: "string \<Rightarrow> db \<Rightarrow> api_state" where
  "api_demo token d = \<lparr>as_cfg = default_config\<lparr>api_token := token\<rparr>, as_db = d, as_rot = Some [], as_alive = True,
     as_sha = (\<lambda>_. ''ab''), as_now = 0, as_metrics = []\<rparr>"

definition get_stats_req :: string where
  "get_stats_req = ''GET /api/v1/stats HTTP/1.1'' @ crlf @ ''Authorization: Bearer nope'' @ crlf @ crlf"

theorem no_token_no_effect_witness:
  "snd (handle get_stats_req (api_demo ''secret'' two_imports)) = api_demo ''secret'' two_imports"
proof -
  have "\<not> contains get_stats_req (''Bearer '' @ ''secret'')" by code_simp
  then show ?thesis
    using no_token_no_effect [of "api_demo ''secret'' two_imports" get_stats_req]
    by (simp add: contains_sublist api_demo_def)
qed

section \<open>Reads and failures\<close>

definition only_sent :: "db \<Rightarrow> db \<Rightarrow> bool" where
  "only_sent d d' \<longleftrightarrow> (\<exists>n. d' = d\<lparr>stmt_no := n\<rparr>)"

lemma select_import_sent: "only_sent d (snd (select_import P d))"
  by (auto simp: only_sent_def select_import_eq)

lemma reads_only_sent:
  "only_sent d (snd (GetImportBySequence x d))" "only_sent d (snd (GetImportByHash x d))"
  "only_sent d (snd (GetImportBySourcePath x d))" "only_sent d (snd (GetImportByOutputPath x d))"
  "only_sent d (snd (GetStats d))"
  using select_import_sent
  by (auto simp: only_sent_def GetImportBySequence_eq GetImportByHash_def GetImportBySourcePath_def
      GetImportByOutputPath_def GetStats_def count_query_def send_def)

lemma ListImports_sent: "ListImports pg lmt sf cf d = Some (rows, d') \<Longrightarrow> only_sent d d'"
  by (auto simp: ListImports_def send_def only_sent_def Let_def split: if_splits)

lemma only_sent_trans: "only_sent a b \<Longrightarrow> only_sent b c \<Longrightarrow> only_sent a c"
  by (auto simp: only_sent_def)

lemma only_sent_refl [simp]: "only_sent d d"
  by (auto simp: only_sent_def intro: exI [of _ "stmt_no d"])

lemma api_db_eq [simp]:
  "as_db (snd (api_db f s)) = snd (f (as_db s))" "as_rot (snd (api_db f s)) = as_rot s"
  "fst (api_db f s) = fst (f (as_db s))" "as_sha (snd (api_db f s)) = as_sha s"
  by (simp_all add: api_db_def split_beta)

definition reads :: "api_state \<Rightarrow> api_state \<Rightarrow> bool" where
  "reads s s' \<longleftrightarrow> only_sent (as_db s) (as_db s') \<and> as_rot s' = as_rot s"

lemma record_reply_reads: "snd (record_reply x) = snd x"
  by (auto simp: record_reply_def split: prod.split option.split)

lemma api_list_reads: "reads s (snd (api_list rq s))"
proof -
  have "only_sent (as_db s) (snd (GetStats d1))"
    if "ListImports pg lmt sf cf (as_db s) = Some (rows, d1)" for pg lmt sf cf rows d1
    using ListImports_sent [OF that] reads_only_sent(5) only_sent_trans by blast
  then show ?thesis
    by (auto simp: api_list_def reads_def api_db_def Let_def split_beta split: sum.split option.split)
qed

text \<open>
  A GET request only reads: whatever it asks for, on every server, it leaves every table and
  the rotation queue as they are (it only sends statements).
\<close>

theorem get_is_read_only:
  assumes "parse_request req = Some rq" "rq_method rq = ''GET''"
  shows "only_sent (as_db s) (as_db (snd (handle req s))) \<and> as_rot (snd (handle req s)) = as_rot s"
proof -
  have "reads s s" by (simp add: reads_def)
  have db: "reads s (snd (api_db f s))" if "only_sent (as_db s) (snd (f (as_db s)))" for f :: "db \<Rightarrow> 'r \<times> db"
    using that by (simp add: reads_def)
  have "reads s (snd (route rq s))"
    using assms(2) \<open>reads s s\<close> api_list_reads [of s rq] reads_only_sent
    by (simp add: route_def record_reply_reads db api_ready_def api_stats_def split_beta Let_def)
  with \<open>reads s s\<close> assms(1) show ?thesis
    by (auto simp: handle_def reads_def Let_def)
qed

theorem get_is_read_only_witness:
  "import_rows (as_db (snd (handle get_stats_req (api_demo [] two_imports)))) = import_rows two_imports"
proof -
  have "map_option rq_method (parse_request get_stats_req) = Some ''GET''" by code_simp
  then obtain rq where "parse_request get_stats_req = Some rq" "rq_method rq = ''GET''" by auto
  from get_is_read_only [OF this, of "api_demo [] two_imports"] show ?thesis
    by (auto simp: only_sent_def api_demo_def)
qed


definition bad_page_req :: string where
  "bad_page_req = ''GET /api/v1/imports?page=abc HTTP/1.1'' @ crlf @ crlf"

lemma bad_page_parse:
  "map_option (\<lambda>rq. (rq_method rq, rq_path rq, rq_query rq ''page'')) (parse_request bad_page_req)
     = Some (''GET'', ''/api/v1/imports'', Some ''abc'')"
  by code_simp

lemma bad_page_terminates:
  "fst (handle bad_page_req (api_demo [] d)) = Terminated InvalidArgument"
proof -
  obtain rq where rq: "parse_request bad_page_req = Some rq" "rq_method rq = ''GET''" "rq_path rq = ''/api/v1/imports''"
    "rq_query rq ''page'' = Some ''abc''"
    using bad_page_parse by auto
  have "stoi ''abc'' = Inl InvalidArgument" by code_simp
  moreover have "bad_page_req \<noteq> []" by (simp add: bad_page_req_def)
  ultimately show ?thesis using rq
    by (simp add: handle_def route_def api_list_def api_demo_def Let_def)
qed


section \<open>JSON strings\<close>

text \<open>A JSON string after its opening quote: the value and what follows the closing quote.\<close>

definition unescape :: "char \<Rightarrow> char option" where
  "unescape d =
     (if d = CHR 0x22 \<or> d = CHR 0x5C then Some d
      else if d = CHR ''n'' then Some (CHR 0x0A)
      else if d = CHR ''r'' then Some (CHR 0x0D)
      else if d = CHR ''t'' then Some (CHR 0x09)
      else None)"

definition control :: "char \<Rightarrow> bool" where
  "control c \<longleftrightarrow> (of_char c :: nat) < 32"

fun json_string :: "string \<Rightarrow> (string \<times> string) option" where
  "json_string [] = None"
| "json_string (c # cs) =
     (if c = CHR 0x22 then Some ([], cs)
      else if c = CHR 0x5C
      then (case cs of
              [] \<Rightarrow> None
            | d # ds \<Rightarrow> (case unescape d of
                           None \<Rightarrow> None
                         | Some x \<Rightarrow> map_option (\<lambda>(v, r). (x # v, r)) (json_string ds)))
      else if control c then None
      else map_option (\<lambda>(v, r). (c # v, r)) (json_string cs))"

definition json_safe :: "string \<Rightarrow> bool" where
  "json_safe s \<longleftrightarrow> (\<forall>c \<in> set s. control c \<longrightarrow> c \<in> {CHR 0x0A, CHR 0x0D, CHR 0x09})"

text \<open>
  C28: Escaping is faithful: a JSON reader that starts after the opening quote of an escaped field
  gets exactly the original text back and stops at the field's own closing quote, whatever
  follows, for every text without control characters other than newline, carriage return and
  tab; so no path or name can break out of its field.
\<close>

theorem json_escape_roundtrip:
  assumes "json_safe s"
  shows "json_string (json_escape s @ CHR 0x22 # rest) = Some (s, rest)"
  using assms
proof (induction s)
  case Nil
  then show ?case by (simp add: json_escape_def)
next
  case (Cons c s)
  then have IH: "json_string (json_escape s @ CHR 0x22 # rest) = Some (s, rest)" by (simp add: json_safe_def)
  have step: "json_escape (c # s) = escape_char c @ json_escape s" by (simp add: json_escape_def)
  have "control c \<longrightarrow> c \<in> {CHR 0x0A, CHR 0x0D, CHR 0x09}" using Cons.prems by (simp add: json_safe_def)
  with IH show ?case unfolding step by (auto simp: escape_char_def unescape_def)
qed

theorem json_escape_roundtrip_witness:
  "json_string (json_escape (''a'' @ CHR 0x22 # CHR 0x5C # [CHR 0x0A]) @ CHR 0x22 # '',x'')
     = Some (''a'' @ CHR 0x22 # CHR 0x5C # [CHR 0x0A], '',x'')"
proof (rule json_escape_roundtrip)
  show "json_safe (''a'' @ CHR 0x22 # CHR 0x5C # [CHR 0x0A])" by (simp add: json_safe_def control_def)
qed

section \<open>The preview notification\<close>

text \<open>
  A preview edit reported through the API is never audited: in strict mode the worker name
  the route passes is longer than its column, so the row is refused; the client still gets 200
  for every file the database knows and the service can hash.
\<close>

theorem preview_update_not_audited:
  assumes "strict (srv (as_db s))"
  shows "preview_edits (as_db (snd (api_preview_updated rq s))) = preview_edits (as_db s) \<and>
    (json_get (body_of rq) ''output_path'' \<noteq> [] \<and> as_sha s (json_get (body_of rq) ''output_path'') \<noteq> [] \<and>
     fst (GetImportByOutputPath (json_get (body_of rq) ''output_path'') (as_db s)) = Some r
       \<longrightarrow> fst (api_preview_updated rq s) = json_reply 200 (''{'' @ json_field ''status'' ''synced'' @ ''}''))"
proof -
  have long: "RecordPreviewEdit i ''api-preview-updated'' ph nh w h q d = (False, d\<lparr>stmt_no := Suc (stmt_no d)\<rparr>)"
    if "strict (srv d)" for i ph nh w h q d
    using that by (simp add: RecordPreviewEdit_def varchar_def send_def Let_def)
  have upd: "srv (snd (UpdateOutputHash i h d)) = srv d \<and> preview_edits (snd (UpdateOutputHash i h d)) = preview_edits d"
    for i h d
    by (simp add: UpdateOutputHash_def update_import_def send_def split: option.split)
  obtain n where g: "snd (GetImportByOutputPath x (as_db s)) = (as_db s)\<lparr>stmt_no := n x\<rparr>" for x
    using reads_only_sent(4) [of "as_db s"] unfolding only_sent_def by metis
  show ?thesis
    using assms upd
    by (auto simp: api_preview_updated_def api_db_def Let_def split_beta g long split: option.split prod.split)
qed

definition published_db :: db where
  "published_db = snd (InsertImport (new_record\<lparr>sequence_id := 1, output_path := ''o''\<rparr>) example_db)"

definition preview_req :: request where
  "preview_req = \<lparr>rq_text = ''POST /p HTTP/1.1'' @ crlf @ crlf @ ''{'' @ json_field ''output_path'' ''o'' @ ''}'',
     rq_method = ''POST'', rq_path = ''/p'', rq_query = Map.empty\<rparr>"

theorem preview_update_not_audited_witness:
  "preview_edits (as_db (snd (api_preview_updated preview_req (api_demo [] published_db)))) = [] \<and>
   fst (api_preview_updated preview_req (api_demo [] published_db))
     = json_reply 200 (''{'' @ json_field ''status'' ''synced'' @ ''}'')"
proof -
  have "json_get (body_of preview_req) ''output_path'' = ''o''" by code_simp
  moreover have "strict (srv published_db)" "preview_edits published_db = []" unfolding published_db_def by code_simp+
  moreover have "map_option rec_id (fst (GetImportByOutputPath ''o'' published_db)) = Some 1"
    unfolding published_db_def by code_simp
  then obtain r where "fst (GetImportByOutputPath ''o'' published_db) = Some r" by auto
  ultimately show ?thesis
    using preview_update_not_audited [of "api_demo [] published_db" preview_req r]
    by (simp add: api_demo_def)
qed

end
