(* ===== verification/Reconcile.thy ===== *)
theory Reconcile
  imports Import_Store Config_Model
begin

text \<open>
  Start-up reconciliation (\<open>src/src/reconcile.cpp\<close>): the scan of the output and archive trees
  for \<open>IMG_<n>.dng\<close>, the legacy rows it inserts, and the loop that moves the sequence counter
  past the largest number found. The loop is proved once over the \<open>sequencer\<close> interface.
\<close>

section \<open>File names\<close>

text \<open>
  The match of \<open>^IMG_(\d+)\.dng$\<close>, case-insensitive, on a whole file name: its digits.
\<close>

definition img_match :: "string \<Rightarrow> string option" where
  "img_match name =
     (let mid = take (length name - 8) (drop 4 name)
      in if 9 \<le> length name \<and> map tolower (take 4 name) = ''img_'' \<and>
            map tolower (drop (length name - 4) name) = ''.dng'' \<and> (\<forall>c \<in> set mid. isdigit c)
         then Some mid else None)"

definition img_number :: "path \<Rightarrow> int option" where
  "img_number p = map_option strtoll (img_match (filename p))"

lemma img_match_seq_name: "0 \<le> n \<Longrightarrow> img_match (seq_name n @ ''.dng'') = Some (dec_int n)"
proof -
  assume n: "0 \<le> n"
  then have dec: "dec_int n = dec_nat (nat n)" by (simp add: dec_int_def)
  have len: "0 < length (dec_nat (nat n))" by simp
  have low: "map tolower ''IMG_'' = ''img_''" "map tolower ''.dng'' = ''.dng''" by code_simp+
  have digits: "\<forall>c \<in> set (dec_nat (nat n)). isdigit c" using dec_nat_digits by blast
  let ?name = "''IMG_'' @ dec_nat (nat n) @ ''.dng''"
  have "take 4 ?name = ''IMG_''" "drop (length ?name - 4) ?name = ''.dng''"
    "take (length ?name - 8) (drop 4 ?name) = dec_nat (nat n)" by simp_all
  moreover have "9 \<le> length ?name" using len by (simp add: Suc_le_eq)
  ultimately show ?thesis
    unfolding img_match_def seq_name_def dec Let_def append_assoc using low digits by presburger
qed

lemma img_number_seq_name:
  assumes "0 \<le> n" "n \<le> int64_max"
  shows "img_number (dir @ ''/'' @ seq_name n @ ''.dng'') = Some n"
proof -
  have "CHR ''/'' \<notin> set (dec_int n)" using assms(1)
    by (auto simp: dec_int_def isdigit_def dest: dec_nat_digits)
  then have "CHR ''/'' \<notin> set (seq_name n @ ''.dng'')" by (simp add: seq_name_def)
  from filename_of_join [OF this] img_match_seq_name [OF assms(1)] show ?thesis
    using assms strtoll_dec_int [of n] by (simp add: img_number_def)
qed

section \<open>The scan\<close>

definition fs_absolute :: "path \<Rightarrow> path \<Rightarrow> path" where
  "fs_absolute cwd p = (if starts_with p ''/'' then p else cwd @ ''/'' @ p)"

definition legacy_schema :: "path \<Rightarrow> path \<Rightarrow> string" where
  "legacy_schema root p =
     (let parent = parent_path p
      in if length parent > length root then substr_from parent (length root + 1) else [])"

definition legacy_record :: "(path \<Rightarrow> string) \<Rightarrow> path \<Rightarrow> path \<Rightarrow> path \<Rightarrow> int \<Rightarrow> import_record" where
  "legacy_record sha root p ab n =
     new_record\<lparr>sequence_id := n, sequence_name := ''IMG_'' @ dec_int n,
       source_hash := ''legacy:IMG_'' @ dec_int n, output_path := ab, output_hash := sha ab,
       camera_model := ''legacy'', folder_schema := legacy_schema root p,
       conv_settings := ''{}'', status := Legacy\<rparr>"

record scan =
  sc_max :: int
  sc_found :: nat
  sc_inserted :: nat
  sc_db :: db

text \<open>One directory entry: its path and whether it is a regular file.\<close>

definition scan_entry ::
  "(path \<Rightarrow> string) \<Rightarrow> path \<Rightarrow> path \<Rightarrow> path \<times> bool \<Rightarrow> scan \<Rightarrow> scan" where
  "scan_entry sha cwd root e sc =
     (let (p, regular) = e
      in if \<not> regular then sc
         else case img_number p of
           None \<Rightarrow> sc
         | Some n \<Rightarrow>
             let sc1 = sc\<lparr>sc_max := (if n > sc_max sc then n else sc_max sc), sc_found := sc_found sc + 1\<rparr>;
                 ab = fs_absolute cwd p;
                 (existing, d1) = GetImportBySourcePath ab (sc_db sc)
             in case existing of
                  Some _ \<Rightarrow> sc1\<lparr>sc_db := d1\<rparr>
                | None \<Rightarrow>
                    let (i, d2) = InsertImport (legacy_record sha root p ab n) d1
                    in sc1\<lparr>sc_db := d2, sc_inserted := (if i \<noteq> 0 then sc_inserted sc + 1 else sc_inserted sc)\<rparr>)"

text \<open>\<open>walk root\<close> is what the recursive iterator lists, \<open>None\<close> if the root does not exist.\<close>

definition scan_dir ::
  "(path \<Rightarrow> string) \<Rightarrow> path \<Rightarrow> (path \<Rightarrow> (path \<times> bool) list option) \<Rightarrow> path \<Rightarrow> scan \<Rightarrow> scan" where
  "scan_dir sha cwd walk root sc =
     (if root = [] then sc
      else case walk root of None \<Rightarrow> sc | Some es \<Rightarrow> fold (scan_entry sha cwd root) es sc)"

text \<open>
  The reservation loop; the flag is false when it stopped at a failed allocation (which is
  only logged). \<open>tok i\<close> is the random token of the i-th call.
\<close>

fun reserve ::
  "('t \<Rightarrow> 's \<Rightarrow> (int \<times> string) \<times> 's) \<Rightarrow> (nat \<Rightarrow> 't) \<Rightarrow> nat \<Rightarrow> int \<Rightarrow> 's \<Rightarrow> bool \<times> 's" where
  "reserve alloc tok 0 m s = (True, s)"
| "reserve alloc tok (Suc k) m s =
     (let ((n, name), s1) = alloc (tok k) s
      in if n = 0 then (False, s1)
         else if n \<ge> m then (True, s1)
         else reserve alloc tok k m s1)"

definition scan_library ::
  "config \<Rightarrow> (path \<Rightarrow> string) \<Rightarrow> path \<Rightarrow> (path \<Rightarrow> (path \<times> bool) list option) \<Rightarrow> db \<Rightarrow> scan" where
  "scan_library cfg sha cwd walk d =
     scan_dir sha cwd walk (archive_dir cfg) (scan_dir sha cwd walk (output_dir cfg)
       \<lparr>sc_max = 0, sc_found = 0, sc_inserted = 0, sc_db = d\<rparr>)"

definition ReconcileLibrary ::
  "config \<Rightarrow> (path \<Rightarrow> string) \<Rightarrow> path \<Rightarrow> (path \<Rightarrow> (path \<times> bool) list option) \<Rightarrow> (nat \<Rightarrow> string) \<Rightarrow> db
     \<Rightarrow> bool \<times> db" where
  "ReconcileLibrary cfg sha cwd walk tok d =
     (let sc = scan_library cfg sha cwd walk d
      in if sc_max sc > 0 then reserve AllocateSequence tok (nat (sc_max sc)) (sc_max sc) (sc_db sc)
         else (True, sc_db sc))"

section \<open>The counter ends past every number found\<close>

context sequencer begin

lemma reserve_bounds:
  "ok s \<Longrightarrow> reserve alloc tok k m s = (True, s') \<Longrightarrow>
     ok s' \<and> (m < nxt s' \<or> nxt s + int k \<le> nxt s')"
proof (induction k arbitrary: s)
  case 0
  then show ?case by simp
next
  case (Suc k)
  obtain n name s1 where a: "alloc (tok k) s = ((n, name), s1)" by (metis prod.exhaust)
  have n: "n \<noteq> 0" using Suc.prems(2) a by auto
  note al = allocated [OF Suc.prems(1) a n]
  have ok1: "ok s1" using ok_kept [OF Suc.prems(1), of "tok k"] a by simp
  show ?case
  proof (cases "n \<ge> m")
    case True
    with Suc.prems a n al ok1 show ?thesis by simp
  next
    case False
    then have "reserve alloc tok k m s1 = (True, s')" using Suc.prems(2) a n by simp
    from Suc.IH [OF ok1 this] al show ?thesis by auto
  qed
qed

lemma reserve_ok: "ok s \<Longrightarrow> ok (snd (reserve alloc tok k m s))"
proof (induction k arbitrary: s)
  case (Suc k)
  have "ok (snd (alloc (tok k) s))" by (rule ok_kept [OF Suc.prems])
  with Suc.IH show ?case by (auto simp: split_beta)
qed simp

lemma reserve_past:
  assumes "ok s" "reserve alloc tok (nat m) m s = (True, s')" "0 < m"
  shows "m < nxt s'"
  using reserve_bounds [OF assms(1,2)] positive [OF assms(1)] assms(3) by auto

end

definition found_numbers :: "config \<Rightarrow> (path \<Rightarrow> (path \<times> bool) list option) \<Rightarrow> int set" where
  "found_numbers cfg walk =
     {n. \<exists>root es p. root \<in> {output_dir cfg, archive_dir cfg} \<and> root \<noteq> [] \<and> walk root = Some es \<and>
           (p, True) \<in> set es \<and> img_number p = Some n}"

lemma scan_entry_max:
  "sc_max (scan_entry sha cwd root (p, reg) sc) =
     (case img_number p of None \<Rightarrow> sc_max sc | Some n \<Rightarrow> if reg then max (sc_max sc) n else sc_max sc)"
  by (auto simp: scan_entry_def split_beta Let_def max_def split: option.splits)

lemma scan_entries_max:
  "sc_max sc \<le> sc_max (fold (scan_entry sha cwd root) es sc) \<and>
   ((p, True) \<in> set es \<longrightarrow> img_number p = Some n \<longrightarrow> n \<le> sc_max (fold (scan_entry sha cwd root) es sc))"
proof (induction es arbitrary: sc)
  case (Cons e es)
  obtain q reg where e: "e = (q, reg)" by fastforce
  have "sc_max sc \<le> sc_max (scan_entry sha cwd root e sc)"
    by (simp add: e scan_entry_max split: option.split)
  moreover have "n \<le> sc_max (scan_entry sha cwd root e sc)" if "e = (p, True)" "img_number p = Some n"
    using that by (simp add: scan_entry_max)
  ultimately show ?case using Cons [of "scan_entry sha cwd root e sc"] by fastforce
qed simp

lemma scan_dir_max:
  "sc_max sc \<le> sc_max (scan_dir sha cwd walk root sc)"
  "root \<noteq> [] \<Longrightarrow> walk root = Some es \<Longrightarrow> (p, True) \<in> set es \<Longrightarrow> img_number p = Some n \<Longrightarrow>
     n \<le> sc_max (scan_dir sha cwd walk root sc)"
  using scan_entries_max [of sc sha cwd root _ p n]
  by (auto simp: scan_dir_def split: option.split)

lemma scan_library_max: "n \<in> found_numbers cfg walk \<Longrightarrow> n \<le> sc_max (scan_library cfg sha cwd walk d)"
  unfolding found_numbers_def scan_library_def
  using scan_dir_max order_trans by (elim CollectE exE conjE insertE) blast+

lemma GetImportBySourcePath_db: "GetImportBySourcePath p d = (r, d') \<Longrightarrow> d' = d\<lparr>stmt_no := Suc (stmt_no d)\<rparr>"
  by (auto simp: GetImportBySourcePath_def select_import_eq)

lemma scan_entry_inv:
  assumes "\<And>root p ab n d. Q d \<Longrightarrow> Q (snd (InsertImport (legacy_record sha root p ab n) d))" "\<And>d. Q d \<Longrightarrow> Q (d\<lparr>stmt_no := Suc (stmt_no d)\<rparr>)"
    and "Q (sc_db sc)"
  shows "Q (sc_db (scan_entry sha cwd root e sc))"
proof -
  obtain p reg where e: "e = (p, reg)" by fastforce
  show ?thesis
  proof (cases "img_number p")
    case (Some n)
    obtain r d1 where l: "GetImportBySourcePath (fs_absolute cwd p) (sc_db sc) = (r, d1)" by fastforce
    have "Q d1" using GetImportBySourcePath_db [OF l] assms(2,3) by simp
    with assms Some l e show ?thesis
      by (auto simp: scan_entry_def split_beta Let_def split: option.split)
  qed (use assms(3) e in \<open>simp add: scan_entry_def\<close>)
qed

lemma scan_library_inv:
  assumes "\<And>root p ab n d. Q d \<Longrightarrow> Q (snd (InsertImport (legacy_record sha root p ab n) d))" "\<And>d. Q d \<Longrightarrow> Q (d\<lparr>stmt_no := Suc (stmt_no d)\<rparr>)"
    and "Q d"
  shows "Q (sc_db (scan_library cfg sha cwd walk d))"
proof -
  have "Q (sc_db (fold (scan_entry sha cwd root) es sc))" if "Q (sc_db sc)" for root es sc
    using that
  proof (induction es arbitrary: sc)
    case (Cons e es)
    from scan_entry_inv [of Q, OF assms(1,2) Cons.prems] Cons.IH show ?case by simp
  qed simp
  then have "Q (sc_db (scan_dir sha cwd walk root sc))" if "Q (sc_db sc)" for root sc
    using that by (simp add: scan_dir_def split: option.split)
  with assms(3) show ?thesis by (simp add: scan_library_def)
qed

lemma scan_library_wf: "db_wf d \<Longrightarrow> db_wf (sc_db (scan_library cfg sha cwd walk d))"
  by (rule scan_library_inv [of db_wf]) (simp_all add: InsertImport_wf, simp add: db_wf_def)

text \<open>
  After reconciliation new imports cannot collide with the library: if no allocation of
  the reservation loop failed, every number the sequence allocator hands out afterwards is
  larger than the number of every \<open>IMG_<n>.dng\<close> file in the output and archive trees.
\<close>

theorem reconcile_no_collision:
  assumes "db_wf d" "ReconcileLibrary cfg sha cwd walk tok d = (True, d')"
    and "AllocateSequence t d' = ((k, name), d'')" "k \<noteq> 0"
  shows "\<forall>n \<in> found_numbers cfg walk. n < k"
proof
  fix n assume n: "n \<in> found_numbers cfg walk"
  define sc where "sc = scan_library cfg sha cwd walk d"
  have le: "n \<le> sc_max sc" using scan_library_max [OF n] by (simp add: sc_def)
  have wf: "db_wf (sc_db sc)" using scan_library_wf [OF assms(1)] by (simp add: sc_def)
  show "n < k"
  proof (cases "sc_max sc > 0")
    case True
    then have r: "reserve AllocateSequence tok (nat (sc_max sc)) (sc_max sc) (sc_db sc) = (True, d')"
      using assms(2) by (simp add: ReconcileLibrary_def sc_def [symmetric])
    from alloc_seq.reserve_past [OF wf r True] have "sc_max sc < seq_next d'" .
    moreover have "db_wf d'" using alloc_seq.reserve_ok [OF wf] r by (metis snd_conv)
    then have "seq_next d' \<le> k" using alloc_seq.allocated [OF _ assms(3,4)] by simp
    ultimately show ?thesis using le by simp
  next
    case False
    then have "d' = sc_db sc" using assms(2) by (simp add: ReconcileLibrary_def sc_def [symmetric])
    then have "seq_next d' \<le> k" "1 \<le> seq_next d'"
      using alloc_seq.allocated [OF _ assms(3,4)] alloc_seq.positive wf by simp_all
    with le False show ?thesis by simp
  qed
qed

definition example_walk :: "path \<Rightarrow> (path \<times> bool) list option" where
  "example_walk root = (if root = ''/output'' then Some [(''/output/2024'', False),
     (''/output/2024/IMG_2.dng'', True), (''/output/2024/img_3.DNG'', True)] else None)"

definition reconcile_cfg :: config where
  "reconcile_cfg = default_config\<lparr>output_dir := ''/output'', archive_dir := []\<rparr>"

theorem reconcile_no_collision_witness:
  "found_numbers reconcile_cfg example_walk \<subseteq> {..<4}"
proof -
  let ?d = "(empty_db good_server)\<lparr>seq_next := 3\<rparr>"
  let ?r = "ReconcileLibrary reconcile_cfg (\<lambda>_. ''ab'') ''/'' example_walk (\<lambda>_. ''x'') ?d"
  obtain b d' where r: "?r = (b, d')" by fastforce
  obtain k name d'' where a: "AllocateSequence ''x'' d' = ((k, name), d'')" by (metis prod.exhaust)
  have "fst ?r" "fst (fst (AllocateSequence ''x'' (snd ?r))) = 4" by code_simp+
  then have "b" "k = 4" using r a by simp_all
  moreover have "db_wf ?d" using empty_db_wf [of good_server]
    by (simp add: db_wf_def seqs_wf_def imports_wf_def empty_db_def)
  ultimately show ?thesis using reconcile_no_collision [OF _ _ a] r by auto
qed

section \<open>Which legacy rows are inserted\<close>

text \<open>
  On a database without sequence rows the scan inserts nothing: a legacy row refers to the
  sequence of its number, which the loop only creates afterwards, so every INSERT fails on the
  foreign key.
\<close>

theorem reconcile_fresh_inserts_nothing:
  assumes "sequences d = []"
  shows "import_rows (sc_db (scan_library cfg sha cwd walk d)) = import_rows d"
proof -
  have "sequences (sc_db (scan_library cfg sha cwd walk d)) = [] \<and>
        import_rows (sc_db (scan_library cfg sha cwd walk d)) = import_rows d"
  proof (rule scan_library_inv [where Q = "\<lambda>x. sequences x = [] \<and> import_rows x = import_rows d"])
    show "sequences (snd (InsertImport (legacy_record sha root p ab n) x)) = [] \<and>
        import_rows (snd (InsertImport (legacy_record sha root p ab n) x)) = import_rows d"
      if "sequences x = [] \<and> import_rows x = import_rows d" for root p ab n x
      using that by (simp add: InsertImport_def send_def)
  qed (use assms in simp_all)
  then show ?thesis ..
qed

theorem reconcile_fresh_inserts_nothing_witness:
  "let sc = scan_library reconcile_cfg (\<lambda>_. ''ab'') ''/'' example_walk (empty_db good_server)
   in sc_found sc = 2 \<and> import_rows (sc_db sc) = []"
proof -
  have "sc_found (scan_library reconcile_cfg (\<lambda>_. ''ab'') ''/'' example_walk (empty_db good_server)) = 2"
    by code_simp
  moreover have "sequences (empty_db good_server) = []" "import_rows (empty_db good_server) = []"
    by (simp_all add: empty_db_def)
  ultimately show ?thesis
    using reconcile_fresh_inserts_nothing [of "empty_db good_server" reconcile_cfg "\<lambda>_. ''ab''" "''/''" example_walk]
    by (simp add: Let_def)
qed

text \<open>
  The "already known" test never recognises a legacy row: it looks the path up among the
  source paths, which the legacy rows leave empty, so as long as no import has that source path
  a file whose sequence exists is inserted at every start, next to the row it already has.
\<close>

theorem reconcile_reinserts:
  assumes "img_number p = Some n" "\<forall>k. stmt_ok (srv (sc_db sc)) k" "n \<in> fst ` set (sequences (sc_db sc))"
    and "\<forall>r. row_ok (srv (sc_db sc)) r" "1 \<le> imp_next (sc_db sc)"
    and "\<forall>r \<in> set (import_rows (sc_db sc)). \<not> txt_eq (srv (sc_db sc)) (source_path r) (fs_absolute cwd p)"
  shows "let sc' = scan_entry sha cwd root (p, True) sc
    in length (import_rows (sc_db sc')) = length (import_rows (sc_db sc)) + 1 \<and>
       output_path (last (import_rows (sc_db sc'))) = fs_absolute cwd p \<and>
       source_path (last (import_rows (sc_db sc'))) = [] \<and> sc_inserted sc' = sc_inserted sc + 1"
proof -
  let ?d = "sc_db sc" and ?p = "fs_absolute cwd p"
  have "[r \<leftarrow> import_rows ?d. txt_eq (srv ?d) (source_path r) ?p] = []"
    using assms(6) by (simp add: filter_empty_conv)
  then have "GetImportBySourcePath ?p ?d = (None, ?d\<lparr>stmt_no := Suc (stmt_no ?d)\<rparr>)"
    using assms(2) by (simp add: GetImportBySourcePath_def select_import_eq first_row_def limit1_def)
  then show ?thesis
    using assms by (simp add: scan_entry_def InsertImport_def send_def legacy_record_def new_record_def Let_def)
qed

definition restart_db :: db where
  "restart_db = (snd (InsertImport (legacy_record (\<lambda>_. ''ab'') ''/output'' ''/output/IMG_1.dng'' ''/output/IMG_1.dng'' 1)
     example_db))"

theorem reconcile_reinserts_witness:
  "let sc' = scan_entry (\<lambda>_. ''ab'') ''/'' ''/output'' (''/output/IMG_1.dng'', True)
       \<lparr>sc_max = 0, sc_found = 0, sc_inserted = 0, sc_db = restart_db\<rparr>
   in map output_path (import_rows (sc_db sc')) = [''/output/IMG_1.dng'', ''/output/IMG_1.dng''] \<and> sc_inserted sc' = 1"
proof -
  let ?sc = "\<lparr>sc_max = 0, sc_found = 0, sc_inserted = 0, sc_db = restart_db\<rparr>"
  let ?sc' = "scan_entry (\<lambda>_. ''ab'') ''/'' ''/output'' (''/output/IMG_1.dng'', True) ?sc"
  have srv: "srv restart_db = good_server"
    by (simp add: restart_db_def InsertImport_def send_def)
  have facts: "img_number ''/output/IMG_1.dng'' = Some 1" "1 \<in> fst ` set (sequences restart_db)"
    "1 \<le> imp_next restart_db"
    "\<forall>r \<in> set (import_rows restart_db). \<not> ci_eq (source_path r) (fs_absolute ''/'' ''/output/IMG_1.dng'')"
    unfolding restart_db_def example_db_def by code_simp+
  then have "sc_inserted ?sc' = 1"
    using reconcile_reinserts [of "''/output/IMG_1.dng''" 1 ?sc "''/''" "\<lambda>_. ''ab''" "''/output''"] srv
    by (simp add: Let_def good_server_def)
  moreover have "map output_path (import_rows (sc_db ?sc')) = [''/output/IMG_1.dng'', ''/output/IMG_1.dng'']"
    unfolding restart_db_def example_db_def by code_simp
  ultimately show ?thesis by (simp add: Let_def)
qed

text \<open>
  The folder of a legacy row: the path below the root, provided the root has no slash at its
  end. With one, the first character of the folder is lost.
\<close>

lemma parent_path_join: "CHR ''/'' \<notin> set n \<Longrightarrow> parent_path (q @ ''/'' @ n) = q"
proof -
  assume "CHR ''/'' \<notin> set n"
  then have "dropWhile (\<lambda>c. c \<noteq> CHR ''/'') (rev n @ CHR ''/'' # rev q) = CHR ''/'' # rev q"
    by (subst dropWhile_append2) auto
  then show ?thesis by (simp add: parent_path_def)
qed

lemma legacy_schema_subdir:
  "CHR ''/'' \<notin> set n \<Longrightarrow> rel \<noteq> [] \<Longrightarrow> legacy_schema root (root @ ''/'' @ rel @ ''/'' @ n) = rel"
  using parent_path_join [of n "root @ ''/'' @ rel"]
  by (simp add: legacy_schema_def Let_def substr_from_def)

lemma legacy_schema_slash_root:
  "CHR ''/'' \<notin> set n \<Longrightarrow> rel \<noteq> [] \<Longrightarrow> legacy_schema (root @ ''/'') (root @ ''/'' @ rel @ ''/'' @ n) = tl rel"
  using parent_path_join [of n "root @ ''/'' @ rel"]
  by (cases rel) (auto simp: legacy_schema_def Let_def substr_from_def)

end
