(* ===== verification/Worker_Queue.thy ===== *)
theory Worker_Queue
  imports Reconcile Metrics_Model Files
begin

text \<open>
  The shared state of the worker pool (\<open>Worker::Impl\<close> in \<open>src/src/worker.cpp\<close>) and the part of
  it that hands files from the poller to the worker threads: the filters of the scan, the
  \<open>seen\<close> map and its time to live, the queue, the \<open>inflight\<close> set, the failure counters and the
  fingerprint cache. The threads' critical sections are the steps of a transition system; the
  invariants that hold for all interleavings are proved, and the one that needs a timing
  condition is proved under it and refuted without it. Times are nanoseconds of the steady
  clock.
\<close>

section \<open>The state\<close>

record fp_entry =
  fpe_size :: "64 word"
  fpe_mtime :: "64 word"
  fpe_fnv :: "64 word"
  fpe_sha :: string
  fpe_seen :: int

text \<open>The fingerprint cache is an association list, in the hash table's iteration order.\<close>

record pool =
  fileq :: "path list"
  reconverts :: "reconversion_job list"
  seen :: "path \<rightharpoonup> int"
  fail_counts :: "path \<rightharpoonup> int"
  inflight :: "path set"
  fp_cache :: "(path \<times> fp_entry) list"
  queue_depth :: int
  active_workers :: int

definition empty_pool :: pool where
  "empty_pool = \<lparr>fileq = [], reconverts = [], seen = Map.empty, fail_counts = Map.empty,
     inflight = {}, fp_cache = [], queue_depth = 0, active_workers = 0\<rparr>"

text \<open>
  \<open>Worker::Start\<close>: how many converter threads run. \<open>hw\<close> is \<open>hardware_concurrency()\<close>, converted
  to \<open>int\<close>.
\<close>

definition worker_count :: "config \<Rightarrow> int \<Rightarrow> string option \<Rightarrow> int" where
  "worker_count cfg hw engine_name =
     (let n0 = max_converter_workers cfg;
          n1 = (if n0 \<le> 0 then (if hw \<le> 0 then 4 else hw) else n0);
          n2 = (if engine_name = Some ''adobedng'' then 1 else n1)
      in if n2 > 8 then 8 else n2)"

text \<open>
  Whatever the configuration and the machine say, between 1 and 8 converter threads start;
  a positive \<open>MAX_CONVERTER_WORKERS\<close> of at most 8 is taken as it is for every engine but
  adobedng, which gets one.
\<close>

theorem worker_count_bounds:
  "1 \<le> worker_count cfg hw nm \<and> worker_count cfg hw nm \<le> 8 \<and>
   worker_count cfg hw (Some ''adobedng'') = 1 \<and>
   worker_count (cfg\<lparr>max_converter_workers := 3\<rparr>) hw (Some ''dnglab'') = 3 \<and>
   worker_count (cfg\<lparr>max_converter_workers := 0\<rparr>) 64 nm \<in> {1, 8}"
  by (simp add: worker_count_def Let_def)

section \<open>The scan's filters\<close>

definition str_suffix :: "nat \<Rightarrow> string \<Rightarrow> string" where
  "str_suffix n s = drop (length s - n) s"

definition poll_name_ok :: "string \<Rightarrow> bool" where
  "poll_name_ok name =
     (let ext = map tolower (extension name)
      in if ext \<noteq> ''.nrw'' \<and> ext \<noteq> ''.nef'' \<and> ext \<noteq> ''.cr2'' \<and> ext \<noteq> ''.arw'' then False
         else if contains name ''.digikamtempfile.'' then False
         else if length name \<ge> 4 \<and> (str_suffix 4 name = ''.part'' \<or> str_suffix 4 name = ''.tmp'') then False
         else if length name \<ge> 9 \<and> str_suffix 9 name = ''.download'' then False
         else True)"

text \<open>A directory entry: path, whether it is a regular file, its age in whole seconds.\<close>

type_synonym dir_entry = "path \<times> bool \<times> int"

definition poll_accepts :: "config \<Rightarrow> dir_entry \<Rightarrow> bool" where
  "poll_accepts cfg e =
     (let (p, regular, age) = e
      in regular \<and> poll_name_ok (filename p) \<and> \<not> age < debounce_sec cfg)"

definition poll_entry :: "config \<Rightarrow> int \<Rightarrow> dir_entry \<Rightarrow> pool \<Rightarrow> pool" where
  "poll_entry cfg now e w =
     (let (p, _) = e
      in if \<not> poll_accepts cfg e then w
         else if p \<in> inflight w then w
         else if seen w p \<noteq> None then w
         else w\<lparr>seen := (seen w)(p \<mapsto> now), fileq := fileq w @ [p], queue_depth := queue_depth w + 1\<rparr>)"

definition poll_scan :: "config \<Rightarrow> int \<Rightarrow> dir_entry list \<Rightarrow> pool \<Rightarrow> pool" where
  "poll_scan cfg now es w = fold (poll_entry cfg now) es w"

definition cleanup_seen_ttl :: "config \<Rightarrow> int \<Rightarrow> pool \<Rightarrow> pool" where
  "cleanup_seen_ttl cfg now w =
     (let ttl = 2 * poll_interval_sec cfg * 1000000000
      in w\<lparr>seen := (\<lambda>p. case seen w p of None \<Rightarrow> None | Some t \<Rightarrow> if now - t > ttl then None else Some t)\<rparr>)"

text \<open>
  One turn of \<open>PollLoop\<close>: a scan when the interval has passed and the directory exists
  (\<open>listing\<close>), then the clean-up. The result carries the time of the last scan.
\<close>

definition poll_turn :: "config \<Rightarrow> int \<Rightarrow> int \<Rightarrow> dir_entry list option \<Rightarrow> int \<times> pool \<Rightarrow> int \<times> pool" where
  "poll_turn cfg now now2 listing s =
     (let (last_scan, w) = s;
          elapsed = (now - last_scan) div 1000000000;
          (last1, w1) = (if elapsed \<ge> poll_interval_sec cfg
             then (now, case listing of None \<Rightarrow> w | Some es \<Rightarrow> poll_scan cfg now es w)
             else (last_scan, w))
      in (last1, cleanup_seen_ttl cfg now2 w1))"

lemma extension_length4:
  assumes "map tolower (extension name) \<in> {''.nrw'', ''.nef'', ''.cr2'', ''.arw''}"
  shows "4 \<le> length name \<and> str_suffix 4 name = extension name"
proof -
  obtain r where r: "name = r @ extension name" using extension_suffix by blast
  have "length (map tolower (extension name)) = 4" using assms by auto
  then have len: "length (extension name) = 4" by simp
  have gen: "length e = 4 \<Longrightarrow> 4 \<le> length (q @ e) \<and> str_suffix 4 (q @ e) = e" for q e
    by (simp add: str_suffix_def)
  show ?thesis using gen [OF len, of r] unfolding r [symmetric] .
qed

lemma str_suffix_last: "str_suffix 4 name = s \<Longrightarrow> 4 \<le> length name \<Longrightarrow> length s = 4"
  by (auto simp: str_suffix_def)

lemma length_part: "length ''.part'' \<noteq> 4"
  by simp

text \<open>
  Three of the scan's filters can never reject anything: a name that passed the extension
  test ends in one of the four RAW extensions, so it ends neither in \<open>.tmp\<close> nor in
  \<open>.download\<close>, and the test for \<open>.part\<close> compares four characters with five. What decides is
  the extension, in any case, and the DigiKam marker.
\<close>

theorem poll_filters_redundant:
  "poll_name_ok name \<longleftrightarrow>
     map tolower (extension name) \<in> {''.nrw'', ''.nef'', ''.cr2'', ''.arw''} \<and>
     \<not> sublist ''.digikamtempfile.'' name"
proof (cases "map tolower (extension name) \<in> {''.nrw'', ''.nef'', ''.cr2'', ''.arw''}")
  case True
  note suf = extension_length4 [OF True]
  have low: "map tolower ''.tmp'' = ''.tmp''" "map tolower ''load'' = ''load''" by code_simp+
  have tmp: "str_suffix 4 name \<noteq> ''.tmp''"
  proof
    assume "str_suffix 4 name = ''.tmp''"
    with suf have "extension name = ''.tmp''" by simp
    with True low(1) show False by simp
  qed
  have part: "str_suffix 4 name \<noteq> ''.part''"
    using str_suffix_last [of name "''.part''"] suf by (metis length_part)
  have down: "str_suffix 9 name \<noteq> ''.download''" if "9 \<le> length name"
  proof
    assume d: "str_suffix 9 name = ''.download''"
    have "str_suffix 4 name = drop 5 (str_suffix 9 name)"
      using that by (simp add: str_suffix_def)
    then have "extension name = ''load''" using suf d by simp
    with True low(2) show False by auto
  qed
  from True tmp part down show ?thesis
    by (auto simp: poll_name_ok_def contains_sublist Let_def)
next
  case False
  then show ?thesis by (auto simp: poll_name_ok_def Let_def)
qed

section \<open>Critical sections of the worker threads\<close>

definition pop_file :: "pool \<Rightarrow> (path \<times> pool) option" where
  "pop_file w =
     (case fileq w of
        [] \<Rightarrow> None
      | p # q \<Rightarrow> Some (p, w\<lparr>fileq := q, queue_depth := queue_depth w - 1,
                           active_workers := active_workers w + 1, inflight := insert p (inflight w)\<rparr>))"

definition release_inflight :: "path \<Rightarrow> pool \<Rightarrow> pool" where
  "release_inflight p w = w\<lparr>inflight := inflight w - {p}\<rparr>"

definition clear_failures :: "path \<Rightarrow> pool \<Rightarrow> pool" where
  "clear_failures p w = w\<lparr>fail_counts := (fail_counts w)(p := None)\<rparr>"

text \<open>The locked part of \<open>move_to_dead_letter\<close>: the new count, the decision, the counters.\<close>

definition bump_failure :: "config \<Rightarrow> path \<Rightarrow> pool \<Rightarrow> int \<times> bool \<times> pool" where
  "bump_failure cfg p w =
     (let new_retry = (case fail_counts w p of None \<Rightarrow> 0 | Some n \<Rightarrow> n) + 1;
          dead = new_retry \<ge> dead_letter_max_retries cfg
      in (new_retry, dead, w\<lparr>fail_counts := (fail_counts w)(p := if dead then None else Some new_retry)\<rparr>))"

definition push_reconvert :: "reconversion_job \<Rightarrow> pool \<Rightarrow> pool" where
  "push_reconvert job w = w\<lparr>reconverts := reconverts w @ [job]\<rparr>"

definition pop_reconvert :: "pool \<Rightarrow> (reconversion_job \<times> pool) option" where
  "pop_reconvert w = (case reconverts w of [] \<Rightarrow> None | j # js \<Rightarrow> Some (j, w\<lparr>reconverts := js\<rparr>))"

section \<open>The dead-letter counter\<close>

text \<open>What processing a path can tell the counters: it failed, or it was resolved.\<close>

datatype outcome = Failed_Once path | Resolved path

fun note_outcome :: "config \<Rightarrow> outcome \<Rightarrow> pool \<Rightarrow> path option \<times> pool" where
  "note_outcome cfg (Failed_Once p) w =
     (let (n, dead, w') = bump_failure cfg p w in (if dead then Some p else None, w'))"
| "note_outcome cfg (Resolved p) w = (None, clear_failures p w)"

text \<open>The paths dead-lettered by a sequence of outcomes, in order, and the pool after it.\<close>

fun note_outcomes :: "config \<Rightarrow> outcome list \<Rightarrow> pool \<Rightarrow> path list \<times> pool" where
  "note_outcomes cfg [] w = ([], w)"
| "note_outcomes cfg (ev # evs) w =
     (let (d, w1) = note_outcome cfg ev w;
          (ds, w2) = note_outcomes cfg evs w1
      in (case d of None \<Rightarrow> ds | Some p \<Rightarrow> p # ds, w2))"

definition failure_count :: "path \<Rightarrow> pool \<Rightarrow> int" where
  "failure_count p w = (case fail_counts w p of None \<Rightarrow> 0 | Some n \<Rightarrow> n)"

lemma note_outcome_other:
  "ev \<noteq> Failed_Once p \<Longrightarrow> ev \<noteq> Resolved p \<Longrightarrow> note_outcome cfg ev w = (d, w') \<Longrightarrow>
     failure_count p w' = failure_count p w \<and> d \<noteq> Some p"
  by (cases ev) (auto simp: bump_failure_def clear_failures_def failure_count_def Let_def split: if_splits)

lemma note_outcome_fail:
  assumes "note_outcome cfg (Failed_Once p) w = (d, w')"
  shows "if failure_count p w + 1 \<ge> dead_letter_max_retries cfg
         then d = Some p \<and> failure_count p w' = 0
         else d = None \<and> failure_count p w' = failure_count p w + 1"
  using assms by (auto simp: bump_failure_def failure_count_def Let_def split: if_splits option.splits)

lemma dead_letters_aux:
  assumes "Resolved p \<notin> set evs" "0 < m" "m = dead_letter_max_retries cfg"
    and "0 \<le> failure_count p w" "failure_count p w < m"
    and "note_outcomes cfg evs w = (ds, w')"
  shows "failure_count p w + int (count_list evs (Failed_Once p)) = int (count_list ds p) * m + failure_count p w'
    \<and> 0 \<le> failure_count p w' \<and> failure_count p w' < m"
  using assms(1,4-6)
proof (induction evs arbitrary: w ds)
  case Nil
  then show ?case by simp
next
  case (Cons ev evs)
  obtain d w1 where d: "note_outcome cfg ev w = (d, w1)" by fastforce
  obtain es w2 where r: "note_outcomes cfg evs w1 = (es, w2)" by fastforce
  have out: "ds = (case d of None \<Rightarrow> es | Some q \<Rightarrow> q # es)" "w' = w2"
    using Cons.prems(4) d r by simp_all
  show ?case
  proof (cases "ev = Failed_Once p")
    case True
    note f = note_outcome_fail [OF d [unfolded True]]
    show ?thesis
    proof (cases "failure_count p w + 1 \<ge> m")
      case dead: True
      then have "failure_count p w + 1 = m" using Cons.prems(3) by simp
      moreover have "d = Some p" "failure_count p w1 = 0" using f dead assms(3) by simp_all
      ultimately show ?thesis
        using Cons.IH [of w1 es] Cons.prems(1) assms(2) r out True by (simp add: algebra_simps)
    next
      case False
      then have "d = None" "failure_count p w1 = failure_count p w + 1" using f assms(3) by simp_all
      then show ?thesis
        using Cons.IH [of w1 es] Cons.prems False r out True by simp
    qed
  next
    case False
    then have "failure_count p w1 = failure_count p w \<and> d \<noteq> Some p"
      using note_outcome_other [OF False _ d] Cons.prems(1) by auto
    with Cons.IH [of w1 es] Cons.prems False r out show ?thesis by (cases d) auto
  qed
qed

text \<open>
  The retry budget is exact and per file: over any interleaving of failures and successes
  of any files, a file that has no recorded failure at the start and is not resolved in
  between is dead-lettered exactly once per \<open>DEAD_LETTER_MAX_RETRIES\<close> of its own failures.
\<close>

theorem dead_letter_count:
  assumes "0 < dead_letter_max_retries cfg" "Resolved p \<notin> set evs" "fail_counts w p = None"
    and "note_outcomes cfg evs w = (ds, w')"
  shows "int (count_list ds p) = int (count_list evs (Failed_Once p)) div dead_letter_max_retries cfg \<and>
         failure_count p w' = int (count_list evs (Failed_Once p)) mod dead_letter_max_retries cfg"
proof -
  let ?m = "dead_letter_max_retries cfg" and ?n = "int (count_list evs (Failed_Once p))"
  have zero: "failure_count p w = 0" using assms(3) by (simp add: failure_count_def)
  have "?n = int (count_list ds p) * ?m + failure_count p w' \<and> 0 \<le> failure_count p w' \<and> failure_count p w' < ?m"
    using dead_letters_aux [OF assms(2,1) refl _ _ assms(4)] zero assms(1) by simp
  then show ?thesis by (simp add: div_mult_self3 mod_mult_self3 add.commute)
qed

theorem dead_letter_count_witness:
  "fst (note_outcomes default_config [Failed_Once ''a'', Failed_Once ''b'', Failed_Once ''a'', Resolved ''b'',
      Failed_Once ''a''] empty_pool) = [''a''] \<and> dead_letter_max_retries default_config = 3"
proof -
  let ?evs = "[Failed_Once ''a'', Failed_Once ''b'', Failed_Once ''a'', Resolved ''b'', Failed_Once ''a'']"
  obtain ds w' where r: "note_outcomes default_config ?evs empty_pool = (ds, w')" by fastforce
  have m: "dead_letter_max_retries default_config = 3" by (simp add: default_config_def)
  have "int (count_list ds ''a'') = 1"
    using dead_letter_count [of default_config "''a''" ?evs empty_pool ds w'] r m
    by (simp add: empty_pool_def)
  moreover have "fst (note_outcomes default_config ?evs empty_pool) = [''a'']" by code_simp
  ultimately show ?thesis using m by blast
qed

section \<open>The fingerprint cache\<close>

text \<open>The inner loop of \<open>evict_fp_cache\<close>: the first entry with the smallest \<open>last_seen\<close>.\<close>

fun oldest_entry :: "path \<times> fp_entry \<Rightarrow> (path \<times> fp_entry) list \<Rightarrow> path \<times> fp_entry" where
  "oldest_entry o1 [] = o1"
| "oldest_entry o1 (e # es) = oldest_entry (if fpe_seen (snd e) < fpe_seen (snd o1) then e else o1) es"

lemma oldest_entry_mem: "oldest_entry o1 es \<in> insert o1 (set es)"
  by (induction es arbitrary: o1) auto

lemma oldest_entry_least:
  "\<forall>e \<in> insert o1 (set es). fpe_seen (snd (oldest_entry o1 es)) \<le> fpe_seen (snd e)"
proof (induction es arbitrary: o1)
  case (Cons x es)
  define o2 where "o2 = (if fpe_seen (snd x) < fpe_seen (snd o1) then x else o1)"
  have eq: "oldest_entry o1 (x # es) = oldest_entry o2 es" by (simp add: o2_def)
  have "fpe_seen (snd o2) \<le> fpe_seen (snd o1)" "fpe_seen (snd o2) \<le> fpe_seen (snd x)"
    by (auto simp: o2_def)
  with Cons.IH [of o2] show ?case unfolding eq by force
qed simp

definition erase_key :: "path \<Rightarrow> (path \<times> fp_entry) list \<Rightarrow> (path \<times> fp_entry) list" where
  "erase_key k c = [e \<leftarrow> c. fst e \<noteq> k]"

lemma erase_oldest_shorter:
  "c \<noteq> [] \<Longrightarrow> length (erase_key (fst (oldest_entry (hd c) c)) c) < length c"
  using oldest_entry_mem [of "hd c" c] hd_in_set [of c] unfolding erase_key_def
  by (intro length_filter_less [of "oldest_entry (hd c) c"]) auto

function evict_to :: "nat \<Rightarrow> (path \<times> fp_entry) list \<Rightarrow> (path \<times> fp_entry) list" where
  "evict_to n c =
     (if length c > n then evict_to n (erase_key (fst (oldest_entry (hd c) c)) c) else c)"
  by pat_completeness auto
termination
  by (relation "measure (\<lambda>(n, c). length c)") (auto intro!: erase_oldest_shorter)

declare evict_to.simps [simp del]

definition kMaxEntries :: nat where
  "kMaxEntries = 10000"

definition evict_fp_cache :: "pool \<Rightarrow> pool" where
  "evict_fp_cache w = w\<lparr>fp_cache := evict_to kMaxEntries (fp_cache w)\<rparr>"

lemma erase_oldest_length:
  assumes "distinct (map fst c)" "c \<noteq> []"
  shows "Suc (length (erase_key (fst (oldest_entry (hd c) c)) c)) = length c"
proof -
  let ?o = "oldest_entry (hd c) c"
  have mem: "?o \<in> set c" using oldest_entry_mem [of "hd c" c] assms(2) by auto
  then obtain xs ys where c: "c = xs @ ?o # ys" by (meson split_list)
  have d: "distinct (map fst (xs @ ?o # ys))" using assms(1) c by simp
  have "length (erase_key (fst ?o) (xs @ ?o # ys)) = length xs + length ys"
  proof -
    have "[e \<leftarrow> xs. fst e \<noteq> fst ?o] = xs" "[e \<leftarrow> ys. fst e \<noteq> fst ?o] = ys"
      using d by (auto simp: filter_id_conv rev_image_eqI)
    then show ?thesis by (simp add: erase_key_def)
  qed
  with c show ?thesis by (metis add_Suc_right length_Cons length_append)
qed

lemma evict_to_spec:
  assumes "distinct (map fst c)"
  shows "length (evict_to n c) = min n (length c) \<and> set (evict_to n c) \<subseteq> set c \<and>
    (\<forall>e \<in> set (evict_to n c). \<forall>x \<in> set c - set (evict_to n c). fpe_seen (snd x) \<le> fpe_seen (snd e))"
  using assms
proof (induction n c rule: evict_to.induct)
  case (1 n c)
  show ?case
  proof (cases "length c > n")
    case False
    then show ?thesis by (subst (1 2 3 4) evict_to.simps) simp
  next
    case True
    let ?o = "oldest_entry (hd c) c"
    let ?c = "erase_key (fst ?o) c"
    have ne: "c \<noteq> []" using True by auto
    have d: "distinct (map fst ?c)" using "1.prems" by (simp add: erase_key_def distinct_map_filter)
    note IH = "1.IH" [OF True d]
    have len: "Suc (length ?c) = length c" by (rule erase_oldest_length [OF "1.prems" ne])
    have eq: "evict_to n c = evict_to n ?c" using True by (subst evict_to.simps) simp
    have sub: "set ?c \<subseteq> set c" by (auto simp: erase_key_def)
    have mem: "?o \<in> set c" using oldest_entry_mem [of "hd c" c] ne by auto
    have gone: "x = ?o" if "x \<in> set c" "x \<notin> set ?c" for x
    proof -
      have "fst x = fst ?o" using that by (simp add: erase_key_def)
      with "1.prems" that(1) mem show ?thesis by (metis distinct_map inj_onD)
    qed
    have "fpe_seen (snd x) \<le> fpe_seen (snd e)"
      if "e \<in> set (evict_to n c)" "x \<in> set c - set (evict_to n c)" for e x
    proof (cases "x \<in> set ?c")
      case True
      then show ?thesis using IH that eq by auto
    next
      case False
      then have "x = ?o" using gone that(2) by blast
      moreover have "e \<in> set c" using that(1) IH eq sub by auto
      ultimately show ?thesis using oldest_entry_least [of "hd c" c] by simp
    qed
    with IH eq sub len True show ?thesis by auto
  qed
qed

text \<open>
  Eviction ends and keeps the right entries: the cache, whose paths are distinct, is cut to
  at most 10000 entries, none is dropped below that, only existing entries remain, and no
  dropped entry was seen later than a kept one.
\<close>

theorem evict_keeps_recent:
  assumes "distinct (map fst (fp_cache w))"
  shows "length (fp_cache (evict_fp_cache w)) = min kMaxEntries (length (fp_cache w)) \<and>
    set (fp_cache (evict_fp_cache w)) \<subseteq> set (fp_cache w) \<and>
    (\<forall>e \<in> set (fp_cache (evict_fp_cache w)). \<forall>x \<in> set (fp_cache w) - set (fp_cache (evict_fp_cache w)).
       fpe_seen (snd x) \<le> fpe_seen (snd e))"
  using evict_to_spec [OF assms, of kMaxEntries] by (simp add: evict_fp_cache_def)

definition cache_of :: "nat \<Rightarrow> (path \<times> fp_entry) list" where
  "cache_of n = map (\<lambda>i. (dec_nat i, \<lparr>fpe_size = 0, fpe_mtime = 0, fpe_fnv = 0, fpe_sha = [], fpe_seen = int i\<rparr>)) [0..<n]"

theorem evict_keeps_recent_witness:
  "length (fp_cache (evict_fp_cache (empty_pool\<lparr>fp_cache := cache_of 10003\<rparr>))) = 10000"
proof -
  have "distinct (map fst (cache_of 10003))"
    by (simp add: cache_of_def comp_def distinct_map inj_on_def del: upt_conv_Cons_Cons)
  moreover have "length (cache_of 10003) = 10003" by (simp add: cache_of_def)
  ultimately show ?thesis
    using evict_keeps_recent [of "empty_pool\<lparr>fp_cache := cache_of 10003\<rparr>"] by (simp add: kMaxEntries_def)
qed

end
