(* ===== verification/Worker_Process.thy ===== *)
theory Worker_Process
  imports Worker_Queue "HOL-Library.AList"
begin

text \<open>
  \<open>Worker::ProcessFile\<close>, \<open>move_to_dead_letter\<close> and \<open>ReconvertDrain\<close> of \<open>src/src/worker.cpp\<close>,
  stage by stage, on the world they change: the pool, the file system, the database and the
  metrics. What comes from outside (random tokens, clocks, ExifTool, the engine, the operating
  system's answers) is in the record \<open>answers\<close>.
\<close>

section \<open>The world and its answers\<close>

record world =
  w_pool :: pool
  w_fs :: fsys
  w_db :: db
  w_met :: metrics

type_synonym engine_run = "path \<Rightarrow> path \<Rightarrow> conversion_settings \<Rightarrow> fsys \<Rightarrow> bool \<times> fsys"

record answers =
  a_fp_open :: bool
  a_now :: int
  a_local :: "int \<Rightarrow> tm"
  a_daemon :: "(fsys \<Rightarrow> path \<Rightarrow> exif_result) option"
  a_tok :: string
  a_engine :: "engine_run option"
  a_mkdir_dup :: bool
  a_mkdir_out :: bool
  a_mkdir_arch :: bool
  a_mkdir_dead :: bool
  a_move_dup :: os_answers
  a_move_arch :: os_answers
  a_move_dead :: os_answers
  a_thumb_open :: bool
  a_thumb_now :: int
  a_rnd :: "rat \<Rightarrow> rat"
  a_dur :: "nat \<Rightarrow> rat"

definition on_pool :: "(pool \<Rightarrow> pool) \<Rightarrow> world \<Rightarrow> world" where
  "on_pool f s = s\<lparr>w_pool := f (w_pool s)\<rparr>"

definition on_met :: "(metrics \<Rightarrow> metrics) \<Rightarrow> world \<Rightarrow> world" where
  "on_met f s = s\<lparr>w_met := f (w_met s)\<rparr>"

definition on_db :: "(db \<Rightarrow> 'r \<times> db) \<Rightarrow> world \<Rightarrow> 'r \<times> world" where
  "on_db f s = (let (r, d) = f (w_db s) in (r, s\<lparr>w_db := d\<rparr>))"

definition on_fs :: "(fsys \<Rightarrow> 'r \<times> fsys) \<Rightarrow> world \<Rightarrow> 'r \<times> world" where
  "on_fs f s = (let (r, x) = f (w_fs s) in (r, s\<lparr>w_fs := x\<rparr>))"

section \<open>Stages 1 and 2: the fingerprint gate and the hash\<close>

definition zero_fingerprint :: fingerprint where
  "zero_fingerprint = \<lparr>fp_size = 0, fp_mtime = 0, fp_fnv = 0\<rparr>"

definition cache_hit :: "pool \<Rightarrow> path \<Rightarrow> fingerprint \<Rightarrow> fp_entry option" where
  "cache_hit w p fp =
     (case map_of (fp_cache w) p of
        None \<Rightarrow> None
      | Some e \<Rightarrow> if fpe_size e = fp_size fp \<and> fpe_mtime e = fp_mtime fp \<and> fpe_fnv e = fp_fnv fp
                  then Some e else None)"

definition hash_stage :: "config \<Rightarrow> ('c, 'm) digest_scheme \<Rightarrow> answers \<Rightarrow> path \<Rightarrow> world \<Rightarrow> string \<times> world" where
  "hash_stage cfg D a p s =
     (let fp = (if fast_fingerprint cfg then compute_fast_fingerprint (a_fp_open a) (w_fs s) p else zero_fingerprint);
          hit = (if fast_fingerprint cfg then cache_hit (w_pool s) p fp else None);
          fp_met = observe_fast_fingerprint_duration (a_rnd a) (a_dur a 0)
      in case hit of
           Some e \<Rightarrow>
             (fpe_sha e, on_met fp_met (on_pool (\<lambda>w. w\<lparr>fp_cache := AList.update p (e\<lparr>fpe_seen := a_now a\<rparr>) (fp_cache w)\<rparr>) s))
         | None \<Rightarrow>
             let src = sha256_file D (w_fs s) p;
                 s1 = on_met (observe_hash_duration (a_rnd a) (a_dur a 1)) (on_met fp_met s)
             in (src,
                 if src \<noteq> [] \<and> fast_fingerprint cfg
                 then on_pool (\<lambda>w. evict_fp_cache (w\<lparr>fp_cache := AList.update p
                        \<lparr>fpe_size = fp_size fp, fpe_mtime = fp_mtime fp, fpe_fnv = fp_fnv fp,
                         fpe_sha = src, fpe_seen = a_now a\<rparr> (fp_cache w)\<rparr>)) s1
                 else s1))"

section \<open>Failure and duplicate\<close>

definition dead_path :: "config \<Rightarrow> path \<Rightarrow> int \<Rightarrow> path" where
  "dead_path cfg p n = archive_dir cfg @ ''/failed/'' @ filename p @ ''.failcount.'' @ dec_int n"

definition move_to_dead_letter :: "config \<Rightarrow> answers \<Rightarrow> path \<Rightarrow> world \<Rightarrow> world" where
  "move_to_dead_letter cfg a p s =
     (let s1 = on_pool (release_inflight p) s;
          (new_retry, dead, w) = bump_failure cfg p (w_pool s1);
          s2 = s1\<lparr>w_pool := w\<rparr>
      in if \<not> dead then s2
         else
           let s3 = snd (on_fs (ensure_dir (a_mkdir_dead a) (archive_dir cfg @ ''/failed'')) s2);
               (moved, s4) = on_fs (move_file (a_move_dead a) p (dead_path cfg p new_retry)) s3
           in if \<not> moved then s4
              else snd (on_db (InsertAlert ''error'' ''worker''
                     (''Dead letter after '' @ dec_int new_retry @ '' retries: '' @ p) []) s4))"

definition dup_path :: "config \<Rightarrow> path \<Rightarrow> path" where
  "dup_path cfg p = archive_dir cfg @ ''/duplicates/'' @ filename p"

definition duplicate_stage :: "config \<Rightarrow> answers \<Rightarrow> path \<Rightarrow> world \<Rightarrow> world" where
  "duplicate_stage cfg a p s =
     (let s1 = on_pool (clear_failures p) s;
          s2 = snd (on_fs (ensure_dir (a_mkdir_dup a) (archive_dir cfg @ ''/duplicates'')) s1);
          s3 = snd (on_fs (move_file (a_move_dup a) p (dup_path cfg p)) s2)
      in on_pool (release_inflight p) s3)"

section \<open>Stages 3 to 8\<close>

definition worker_settings :: "config \<Rightarrow> conversion_settings" where
  "worker_settings cfg = default_settings\<lparr>compression := def_compression cfg\<rparr>"

definition import_of ::
  "config \<Rightarrow> path \<Rightarrow> string \<Rightarrow> int \<times> string \<Rightarrow> path \<Rightarrow> string \<Rightarrow> exif_result \<Rightarrow> string \<Rightarrow> import_record" where
  "import_of cfg p src_hash sq dst out_hash ex fld =
     new_record\<lparr>sequence_id := fst sq, sequence_name := snd sq, source_path := p, source_hash := src_hash,
       output_path := dst, output_hash := out_hash, camera_model := ''unknown'',
       capture_date := ex_date ex, capture_time := ex_time ex, folder_schema := fld,
       conv_settings := CHR ''{'' # CHR 0x22 # ''compression'' @ CHR 0x22 # CHR '':'' # CHR 0x22 #
         def_compression cfg @ CHR 0x22 # ''}'',
       status := Completed, orientation := 0\<rparr>"

definition exif_stage :: "answers \<Rightarrow> path \<Rightarrow> fsys \<Rightarrow> exif_result" where
  "exif_stage a p fs = (case a_daemon a of Some f \<Rightarrow> f fs p | None \<Rightarrow> exif_from_mtime (a_local a) fs p)"

definition out_path_of :: "config \<Rightarrow> string \<Rightarrow> string \<Rightarrow> path" where
  "out_path_of cfg fld name = output_dir cfg @ ''/'' @ fld @ ''/'' @ name @ ''.dng''"

definition thumb_path_of :: "config \<Rightarrow> string \<Rightarrow> string \<Rightarrow> path" where
  "thumb_path_of cfg fld name = output_dir cfg @ ''/'' @ fld @ ''/'' @ name @ ''.thumb.jpg''"

definition arch_path_of :: "config \<Rightarrow> string \<Rightarrow> path \<Rightarrow> path" where
  "arch_path_of cfg fld p = archive_dir cfg @ ''/'' @ fld @ ''/'' @ filename p"

text \<open>What follows a successful conversion.\<close>

definition finish_import ::
  "config \<Rightarrow> ('c, 'm) digest_scheme \<Rightarrow> answers \<Rightarrow> path \<Rightarrow> string \<Rightarrow> int \<times> string \<Rightarrow> exif_result \<Rightarrow> string \<Rightarrow> world \<Rightarrow> world" where
  "finish_import cfg D a p src_hash sq ex fld s =
     (let dst = out_path_of cfg fld (snd sq);
          s1 = on_pool (clear_failures p) s;
          out_hash = sha256_file D (w_fs s1) dst;
          s2 = on_met (observe_hash_duration (a_rnd a) (a_dur a 5)) s1;
          s3 = snd (on_db (InsertImport (import_of cfg p src_hash sq dst out_hash ex fld)) s2);
          s4 = on_met (observe_db_duration (a_rnd a) (a_dur a 6)) s3;
          s5 = (if gen_thumb_jpeg cfg
                then snd (on_fs (extract_thumbnail (a_thumb_open a) (a_thumb_now a) dst (thumb_path_of cfg fld (snd sq))) s4)
                else s4);
          s6 = snd (on_fs (ensure_dir (a_mkdir_arch a) (archive_dir cfg @ ''/'' @ fld)) s5);
          s7 = snd (on_fs (move_file (a_move_arch a) p (arch_path_of cfg fld p)) s6);
          s8 = on_met (observe_archive_duration (a_rnd a) (a_dur a 7)) s7
      in on_met (inc_conversions_completed ''completed'' 1) s8)"

text \<open>Stage 5: the output directory and the engine; the result is whether it converted.\<close>

definition engine_stage :: "config \<Rightarrow> answers \<Rightarrow> path \<Rightarrow> string \<Rightarrow> string \<Rightarrow> world \<Rightarrow> bool \<times> world" where
  "engine_stage cfg a p fld name s =
     (let s1 = snd (on_fs (ensure_dir (a_mkdir_out a) (output_dir cfg @ ''/'' @ fld)) s);
          dst = out_path_of cfg fld name;
          (conv_ok, s2) = (case a_engine a of
             None \<Rightarrow> (False, s1)
           | Some run \<Rightarrow> on_fs (run p dst (worker_settings cfg)) s1)
      in (conv_ok, on_met (observe_conversion_duration (a_rnd a) (a_dur a 4)) s2))"

definition result_stage ::
  "config \<Rightarrow> ('c, 'm) digest_scheme \<Rightarrow> answers \<Rightarrow> path \<Rightarrow> string \<Rightarrow> int \<times> string \<Rightarrow> exif_result \<Rightarrow> string \<Rightarrow>
     bool \<times> world \<Rightarrow> world" where
  "result_stage cfg D a p src_hash sq ex fld r =
     (let (conv_ok, s) = r
      in if conv_ok then finish_import cfg D a p src_hash sq ex fld s
         else move_to_dead_letter cfg a p (on_met (inc_conversions_completed ''failed'' 1) s))"

definition convert_stage :: "config \<Rightarrow> ('c, 'm) digest_scheme \<Rightarrow> answers \<Rightarrow> path \<Rightarrow> string \<Rightarrow> world \<Rightarrow> world" where
  "convert_stage cfg D a p src_hash s =
     (let ex = exif_stage a p (w_fs s);
          s1 = on_met (observe_exif_duration (a_rnd a) (a_dur a 2)) s;
          (sq, s2) = on_db (AllocateSequence (a_tok a)) s1;
          s3 = on_met (observe_db_duration (a_rnd a) (a_dur a 3)) s2
      in if fst sq = 0 then move_to_dead_letter cfg a p s3
         else
           let fld = build_folder_schema (cfg_folder_schema cfg) (ex_date ex);
               r = engine_stage cfg a p fld (snd sq) s3
           in on_pool (release_inflight p) (result_stage cfg D a p src_hash sq ex fld r))"

definition ProcessFile :: "config \<Rightarrow> ('c, 'm) digest_scheme \<Rightarrow> answers \<Rightarrow> path \<Rightarrow> world \<Rightarrow> world" where
  "ProcessFile cfg D a p s =
     (let s0 = on_met (inc_files_detected 1) s;
          (src_hash, s1) = hash_stage cfg D a p s0
      in if src_hash = [] then move_to_dead_letter cfg a p s1
         else
           let (dup, s2) = on_db (GetImportByHash src_hash) s1
           in if dup \<noteq> None then duplicate_stage cfg a p s2
              else convert_stage cfg D a p src_hash s2)"

text \<open>
  One turn of \<open>WorkerThread\<close>'s loop: with an empty queue it waits, otherwise it takes the front of
  the queue, processes it and steps \<open>active_workers\<close> down. The loop is a sequence of such turns, in
  any interleaving with what the other threads do to the shared pool in between (scans, expiries,
  the turns of other workers); \<open>stop_\<close> ends it between two turns.
\<close>

definition worker_turn :: "config \<Rightarrow> ('c, 'm) digest_scheme \<Rightarrow> answers \<Rightarrow> world \<Rightarrow> world" where
  "worker_turn cfg D a s =
     (case pop_file (w_pool s) of
        None \<Rightarrow> s
      | Some (p, w) \<Rightarrow>
          on_pool (\<lambda>w. w\<lparr>active_workers := active_workers w - 1\<rparr>) (ProcessFile cfg D a p (s\<lparr>w_pool := w\<rparr>)))"

datatype loop_event = Others "pool \<Rightarrow> pool" | Own_Turn answers

fun loop_step :: "config \<Rightarrow> ('c, 'm) digest_scheme \<Rightarrow> loop_event \<Rightarrow> world \<Rightarrow> world" where
  "loop_step cfg D (Others f) s = on_pool f s"
| "loop_step cfg D (Own_Turn a) s = worker_turn cfg D a s"

definition worker_loop :: "config \<Rightarrow> ('c, 'm) digest_scheme \<Rightarrow> loop_event list \<Rightarrow> world \<Rightarrow> world" where
  "worker_loop cfg D evs s = fold (loop_step cfg D) evs s"

lemma worker_turn_cases:
  obtains "fileq (w_pool s) = []" "worker_turn cfg D a s = s"
  | p w where "pop_file (w_pool s) = Some (p, w)" "fileq (w_pool s) \<noteq> []"
      "worker_turn cfg D a s = on_pool (\<lambda>w. w\<lparr>active_workers := active_workers w - 1\<rparr>) (ProcessFile cfg D a p (s\<lparr>w_pool := w\<rparr>))"
  by (cases "fileq (w_pool s)") (auto simp: worker_turn_def pop_file_def)

section \<open>The source file is never lost\<close>

text \<open>
  The engine writes only its output (documented behaviour of \<open>dnglab convert\<close>).
\<close>

definition engine_frame :: "answers \<Rightarrow> bool" where
  "engine_frame a \<longleftrightarrow> (\<forall>run src dst st fs q. a_engine a = Some run \<longrightarrow> q \<noteq> dst \<longrightarrow>
     content (snd (run src dst st fs)) q = content fs q)"

definition watched :: "config \<Rightarrow> path \<Rightarrow> bool" where
  "watched cfg p \<longleftrightarrow> \<not> starts_with p (archive_dir cfg @ ''/'') \<and> \<not> starts_with p (output_dir cfg @ ''/'')"

lemma watched_neq:
  assumes "watched cfg p"
  shows "p \<noteq> dead_path cfg p n" "p \<noteq> dup_path cfg p" "p \<noteq> out_path_of cfg fld name"
    "p \<noteq> thumb_path_of cfg fld name" "p \<noteq> arch_path_of cfg fld p"
proof -
  have "starts_with (q @ ''/'' @ r) (q @ ''/'')" for q r
    using starts_with_append [of "q @ ''/''" r] by simp
  then have *: "p \<noteq> archive_dir cfg @ ''/'' @ r" "p \<noteq> output_dir cfg @ ''/'' @ r" for r
    using assms unfolding watched_def by metis+
  show "p \<noteq> dead_path cfg p n" "p \<noteq> dup_path cfg p" "p \<noteq> out_path_of cfg fld name"
    "p \<noteq> thumb_path_of cfg fld name" "p \<noteq> arch_path_of cfg fld p"
    unfolding dead_path_def dup_path_def out_path_of_def thumb_path_of_def arch_path_of_def
    using *(1) [of "''failed/'' @ filename p @ ''.failcount.'' @ dec_int n"] *(1) [of "''duplicates/'' @ filename p"]
      * by simp_all
qed

lemma world_frames [simp]:
  "w_fs (on_pool f s) = w_fs s" "w_fs (on_met g s) = w_fs s" "w_fs (snd (on_db h s)) = w_fs s"
  "w_db (on_pool f s) = w_db s" "w_db (on_met g s) = w_db s" "w_db (snd (on_fs k s)) = w_db s"
  "w_pool (on_met g s) = w_pool s" "w_pool (snd (on_db h s)) = w_pool s" "w_pool (snd (on_fs k s)) = w_pool s"
  "w_fs (snd (on_fs k s)) = snd (k (w_fs s))" "w_db (snd (on_db h s)) = snd (h (w_db s))"
  "fst (on_fs k s) = fst (k (w_fs s))" "fst (on_db h s) = fst (h (w_db s))"
  "w_pool (on_pool f s) = f (w_pool s)"
  by (simp_all add: on_pool_def on_met_def on_db_def on_fs_def split_beta Let_def)

text \<open>The bytes are at the path itself or somewhere below the archive.\<close>

definition survives :: "config \<Rightarrow> path \<Rightarrow> byte list \<Rightarrow> fsys \<Rightarrow> bool" where
  "survives cfg p bs fs \<longleftrightarrow>
     (\<exists>q. (q = p \<or> starts_with q (archive_dir cfg @ ''/'')) \<and> content fs q = Some bs)"

lemma survives_move:
  assumes "content fs p = Some bs" "p \<noteq> dst" "starts_with dst (archive_dir cfg @ ''/'')"
  shows "survives cfg p bs (snd (move_file os p dst fs))"
proof -
  obtain ok fs' where m: "move_file os p dst fs = (ok, fs')" by fastforce
  from mv.not_lost [OF assms(2,1) m] assms(3) m show ?thesis
    by (auto simp: survives_def split: if_splits)
qed

lemma dead_letter_survives:
  assumes "content (w_fs s) p = Some bs" "watched cfg p"
  shows "survives cfg p bs (w_fs (move_to_dead_letter cfg a p s))"
proof -
  obtain n dead w where b: "bump_failure cfg p (w_pool (on_pool (release_inflight p) s)) = (n, dead, w)"
    by (metis prod.exhaust)
  have "starts_with (dead_path cfg p n) (archive_dir cfg @ ''/'')" for n
    using starts_with_append [of "archive_dir cfg @ ''/''" "''failed/'' @ filename p @ ''.failcount.'' @ dec_int n"]
    by (simp add: dead_path_def)
  then have "survives cfg p bs (snd (move_file (a_move_dead a) p (dead_path cfg p n)
      (snd (ensure_dir (a_mkdir_dead a) (archive_dir cfg @ ''/failed'') (w_fs s)))))"
    using assms watched_neq(1) by (intro survives_move) simp_all
  moreover have "survives cfg p bs (w_fs s)" using assms(1) by (auto simp: survives_def)
  ultimately show ?thesis
    using b by (simp add: move_to_dead_letter_def split_beta Let_def)
qed

lemma hash_stage_fs [simp]:
  "w_fs (snd (hash_stage cfg D a p s)) = w_fs s" "w_db (snd (hash_stage cfg D a p s)) = w_db s"
  by (auto simp: hash_stage_def Let_def split: option.split)

lemma extract_thumbnail_frame: "q \<noteq> out \<Longrightarrow> content (snd (extract_thumbnail o1 now dng out fs)) q = content fs q"
  by (auto simp: extract_thumbnail_def split: option.split prod.split)

lemma finish_import_fs:
  assumes "content (w_fs s) p = Some bs" "watched cfg p"
  shows "survives cfg p bs (w_fs (finish_import cfg D a p src_hash sq ex fld s))"
proof -
  let ?fs = "if gen_thumb_jpeg cfg then snd (extract_thumbnail (a_thumb_open a) (a_thumb_now a)
      (out_path_of cfg fld (snd sq)) (thumb_path_of cfg fld (snd sq)) (w_fs s)) else w_fs s"
  have c: "content ?fs p = Some bs"
    using assms extract_thumbnail_frame [OF watched_neq(4) [OF assms(2)]] by simp
  have "starts_with (arch_path_of cfg fld p) (archive_dir cfg @ ''/'')"
    using starts_with_append [of "archive_dir cfg @ ''/''" "fld @ ''/'' @ filename p"]
    by (simp add: arch_path_of_def)
  with c have "survives cfg p bs (snd (move_file (a_move_arch a) p (arch_path_of cfg fld p)
      (snd (ensure_dir (a_mkdir_arch a) (archive_dir cfg @ ''/'' @ fld) ?fs))))"
    using watched_neq(5) [OF assms(2)] by (intro survives_move) simp_all
  then show ?thesis by (simp add: finish_import_def Let_def if_distrib [of w_fs] cong: if_cong)
qed

lemma engine_stage_keeps:
  assumes "watched cfg p" "engine_frame a"
  shows "content (w_fs (snd (engine_stage cfg a p fld name s))) p = content (w_fs s) p"
proof (cases "a_engine a")
  case None
  then show ?thesis by (simp add: engine_stage_def Let_def)
next
  case (Some run)
  have "content (snd (run p (out_path_of cfg fld name) (worker_settings cfg) fs)) p = content fs p" for fs
    using Some assms(2) watched_neq(3) [OF assms(1)] by (auto simp: engine_frame_def)
  with Some show ?thesis by (simp add: engine_stage_def Let_def split_beta)
qed

lemma result_stage_survives:
  assumes "content (w_fs (snd r)) p = Some bs" "watched cfg p"
  shows "survives cfg p bs (w_fs (result_stage cfg D a p h sq ex fld r))"
  using assms dead_letter_survives [of "on_met (inc_conversions_completed ''failed'' 1) (snd r)" p bs cfg a]
  by (simp add: result_stage_def split_beta finish_import_fs)

lemma convert_stage_survives:
  assumes "content (w_fs s) p = Some bs" "watched cfg p" "engine_frame a"
  shows "survives cfg p bs (w_fs (convert_stage cfg D a p h s))"
  using assms
  by (simp add: convert_stage_def Let_def split_beta dead_letter_survives result_stage_survives engine_stage_keeps)

definition demo_path :: path where
  "demo_path = ''/watch/DSC_1.NEF''"

definition demo_engine :: engine_run where
  "demo_engine src dst st fs = (if content fs src = None then (False, fs) else (True, write_file fs dst [7] 0))"

definition rename_ok :: os_answers where
  "rename_ok = \<lparr>os_rename = True, os_open_src = True, os_fstat = True, os_open_dst = True, os_ranges = [],
     os_copy = True, os_partial = [], os_remove = True, os_now = 0\<rparr>"

definition demo_answers :: answers where
  "demo_answers = \<lparr>a_fp_open = True, a_now = 0,
     a_local = (\<lambda>_. \<lparr>tm_year = 124, tm_mon = 4, tm_mday = 1, tm_hour = 0, tm_min = 0, tm_sec = 0\<rparr>),
     a_daemon = None, a_tok = ''x'', a_engine = Some demo_engine, a_mkdir_dup = True, a_mkdir_out = True,
     a_mkdir_arch = True, a_mkdir_dead = True, a_move_dup = rename_ok, a_move_arch = rename_ok,
     a_move_dead = rename_ok, a_thumb_open = True, a_thumb_now = 0, a_rnd = id, a_dur = (\<lambda>_. 0)\<rparr>"

definition demo_world :: "server \<Rightarrow> world" where
  "demo_world sv = \<lparr>w_pool = empty_pool,
     w_fs = \<lparr>files = [demo_path \<mapsto> \<lparr>f_data = [1, 2], f_mtime = 0\<rparr>], dirs = {}\<rparr>,
     w_db = empty_db sv, w_met = initial_metrics\<rparr>"

lemma demo_facts:
  "content (w_fs (demo_world sv)) demo_path = Some [1, 2]" "watched default_config demo_path"
  "engine_frame demo_answers" "a_engine demo_answers = Some demo_engine"
proof -
  show "content (w_fs (demo_world sv)) demo_path = Some [1, 2]" by (simp add: demo_world_def content_def)
  show "watched default_config demo_path" unfolding demo_path_def by code_simp
  show "engine_frame demo_answers" by (auto simp: engine_frame_def demo_answers_def demo_engine_def)
  show "a_engine demo_answers = Some demo_engine" by (simp add: demo_answers_def)
qed

lemma rename_always: "content fs p \<noteq> None \<Longrightarrow> fst (move_file rename_ok p q fs)"
  by (auto simp: move_file_def rename_ok_def content_def split: option.split)

text \<open>
  C4: The pipeline never loses an original: whatever fails on the way (hashing, the database, the
  engine, any file operation), after \<open>ProcessFile\<close> the bytes of the source are still at the source
  or in a file below the archive directory, provided the engine writes only its output and the
  source lies in neither of the two target trees.
\<close>

theorem ProcessFile_keeps_source:
  assumes "content (w_fs s) p = Some bs" "watched cfg p" "engine_frame a"
  shows "\<exists>q. (q = p \<or> starts_with q (archive_dir cfg @ ''/'')) \<and>
             content (w_fs (ProcessFile cfg D a p s)) q = Some bs"
proof -
  let ?h = "hash_stage cfg D a p (on_met (inc_files_detected 1) s)"
  have c1: "content (w_fs (snd ?h)) p = Some bs" using assms(1) by simp
  have dup: "survives cfg p bs (w_fs (duplicate_stage cfg a p x))" if "content (w_fs x) p = Some bs" for x
  proof -
    have "starts_with (dup_path cfg p) (archive_dir cfg @ ''/'')"
      using starts_with_append [of "archive_dir cfg @ ''/''" "''duplicates/'' @ filename p"]
      by (simp add: dup_path_def)
    then show ?thesis
      using that watched_neq(2) [OF assms(2)] by (simp add: duplicate_stage_def Let_def survives_move)
  qed
  have "survives cfg p bs (w_fs (ProcessFile cfg D a p s))"
    using dead_letter_survives [OF c1 assms(2), of a] c1 assms
    by (simp add: ProcessFile_def Let_def split_beta dup convert_stage_survives)
  then show ?thesis by (simp add: survives_def)
qed

theorem ProcessFile_keeps_source_witness:
  "\<exists>q. (q = demo_path \<or> starts_with q (archive_dir default_config @ ''/'')) \<and>
       content (w_fs (ProcessFile default_config concat_digest demo_answers demo_path (demo_world good_server))) q
         = Some [1, 2]"
  by (rule ProcessFile_keeps_source [OF demo_facts(1,2,3)])

section \<open>What a successful run leaves behind\<close>

definition moved_to :: "path \<Rightarrow> byte list \<Rightarrow> path \<Rightarrow> fsys \<Rightarrow> bool" where
  "moved_to p bs q fs \<longleftrightarrow> content fs q = Some bs \<and> content fs p = None"

lemma finish_import_pool [simp]:
  "w_pool (finish_import cfg D a p h sq ex fld s) = clear_failures p (w_pool s)"
  by (simp add: finish_import_def Let_def if_distrib [of w_pool] cong: if_cong)

lemma finish_import_db [simp]:
  "w_db (finish_import cfg D a p h sq ex fld s) =
     snd (InsertImport (import_of cfg p h sq (out_path_of cfg fld (snd sq))
       (sha256_file D (w_fs s) (out_path_of cfg fld (snd sq))) ex fld) (w_db s))"
  by (simp add: finish_import_def Let_def if_distrib [of w_db] cong: if_cong)

text \<open>The file system after \<open>finish_import\<close>: the optional thumbnail, then the archive move.\<close>

definition before_archive :: "config \<Rightarrow> answers \<Rightarrow> string \<Rightarrow> string \<Rightarrow> fsys \<Rightarrow> fsys" where
  "before_archive cfg a fld name fs =
     snd (ensure_dir (a_mkdir_arch a) (archive_dir cfg @ ''/'' @ fld)
       (if gen_thumb_jpeg cfg
        then snd (extract_thumbnail (a_thumb_open a) (a_thumb_now a) (out_path_of cfg fld name) (thumb_path_of cfg fld name) fs)
        else fs))"

lemma finish_import_fs_eq:
  "w_fs (finish_import cfg D a p h sq ex fld s) =
     snd (move_file (a_move_arch a) p (arch_path_of cfg fld p) (before_archive cfg a fld (snd sq) (w_fs s)))"
  by (simp add: finish_import_def before_archive_def Let_def if_distrib [of w_fs] cong: if_cong)

lemma before_archive_frame:
  "q \<noteq> thumb_path_of cfg fld name \<Longrightarrow> content (before_archive cfg a fld name fs) q = content fs q"
  by (simp add: before_archive_def extract_thumbnail_frame)

definition archive_works :: "config \<Rightarrow> answers \<Rightarrow> path \<Rightarrow> string \<Rightarrow> bool" where
  "archive_works cfg a p fld \<longleftrightarrow>
     (\<forall>fs. content fs p \<noteq> None \<longrightarrow> fst (move_file (a_move_arch a) p (arch_path_of cfg fld p) fs))"

lemma finish_import_moved:
  assumes "content (w_fs s) p = Some bs" "watched cfg p" "archive_works cfg a p fld"
  shows "moved_to p bs (arch_path_of cfg fld p) (w_fs (finish_import cfg D a p h sq ex fld s))"
proof -
  define fs1 where "fs1 = before_archive cfg a fld (snd sq) (w_fs s)"
  have c: "content fs1 p = Some bs"
    using assms(1) before_archive_frame [OF watched_neq(4) [OF assms(2)]] by (simp add: fs1_def)
  obtain ok fs' where m: "move_file (a_move_arch a) p (arch_path_of cfg fld p) fs1 = (ok, fs')" by fastforce
  have "ok" using assms(3) c m unfolding archive_works_def by (metis fst_conv option.distinct(1))
  with m have "move_file (a_move_arch a) p (arch_path_of cfg fld p) fs1 = (True, fs')" by simp
  from mv.moved [OF watched_neq(5) [OF assms(2)] this] c m show ?thesis
    by (simp add: moved_to_def finish_import_fs_eq fs1_def)
qed

text \<open>
  The archive move does not depend on the INSERT: once the engine has converted the file and
  the move succeeds, the original is at its archive path and gone from the watch directory,
  whatever \<open>InsertImport\<close> returned; if it failed, the database has no row for it.
\<close>

theorem archived_even_without_row:
  assumes "content (w_fs s) p = Some bs" "watched cfg p"
    and "archive_works cfg a p fld" "\<forall>r. \<not> row_ok (srv (w_db s)) r"
  shows "moved_to p bs (arch_path_of cfg fld p) (w_fs (finish_import cfg D a p h sq ex fld s)) \<and>
         import_rows (w_db (finish_import cfg D a p h sq ex fld s)) = import_rows (w_db s)"
  using finish_import_moved [OF assms(1-3)] assms(4) by (simp add: InsertImport_def send_def)

definition refusing_server :: server where
  "refusing_server = good_server\<lparr>row_ok := (\<lambda>_. False)\<rparr>"

lemma demo_archive_works: "archive_works cfg demo_answers p fld"
  by (simp add: archive_works_def demo_answers_def rename_always)

theorem archived_even_without_row_witness:
  "let s' = finish_import default_config concat_digest demo_answers demo_path ''ab'' (1, ''IMG_1'')
       \<lparr>ex_date = [], ex_time = [], ex_source = Mtime\<rparr> ''2024'' (demo_world refusing_server)
   in content (w_fs s') (arch_path_of default_config ''2024'' demo_path) = Some [1, 2] \<and>
      content (w_fs s') demo_path = None \<and> import_rows (w_db s') = []"
proof -
  have "\<forall>r. \<not> row_ok (srv (w_db (demo_world refusing_server))) r" "import_rows (w_db (demo_world refusing_server)) = []"
    by (simp_all add: demo_world_def empty_db_def refusing_server_def)
  then show ?thesis
    using archived_even_without_row [OF demo_facts(1,2) demo_archive_works, of refusing_server "''2024''"
        concat_digest "''ab''" "(1, ''IMG_1'')" "\<lparr>ex_date = [], ex_time = [], ex_source = Mtime\<rparr>"]
    by (simp add: moved_to_def Let_def del: finish_import_db)
qed

text \<open>
  What a fully successful conversion leaves: exactly one new row, with the allocated number,
  the source path and hash, the numbered output path and the hash of what the engine wrote
  there; the original at its archive path; no \<open>inflight\<close> mark and no failure count.
\<close>

theorem convert_stage_imports:
  assumes "content (w_fs s) p = Some bs" "watched cfg p" "engine_frame a" "a_engine a = Some run"
    and "\<forall>fs dst. fst (run p dst (worker_settings cfg) fs)"
    and "fld = build_folder_schema (cfg_folder_schema cfg) (ex_date (exif_stage a p (w_fs s)))"
    and "archive_works cfg a p fld" "db_wf (w_db s)"
    and "AllocateSequence (a_tok a) (w_db s) = ((n, name), d1)" "n \<noteq> 0"
    and "\<forall>r. row_ok (srv (w_db s)) r" "stmt_ok (srv (w_db s)) (stmt_no d1)"
  shows "\<exists>r out. import_rows (w_db (convert_stage cfg D a p h s)) = import_rows (w_db s) @ [r] \<and>
      sequence_id r = n \<and> source_path r = p \<and> source_hash r = h \<and> status r = Completed \<and>
      output_path r = output_dir cfg @ ''/'' @ fld @ ''/IMG_'' @ dec_int n @ ''.dng'' \<and>
      out = snd (run p (output_path r) (worker_settings cfg)
              (snd (ensure_dir (a_mkdir_out a) (output_dir cfg @ ''/'' @ fld) (w_fs s)))) \<and>
      output_hash r = sha256_file D out (output_path r) \<and>
      moved_to p bs (archive_dir cfg @ ''/'' @ fld @ ''/'' @ filename p) (w_fs (convert_stage cfg D a p h s)) \<and>
      p \<notin> inflight (w_pool (convert_stage cfg D a p h s)) \<and>
      fail_counts (w_pool (convert_stage cfg D a p h s)) p = None"
proof -
  let ?ex = "exif_stage a p (w_fs s)"
  define s3 where "s3 = on_met (observe_db_duration (a_rnd a) (a_dur a 3))
      (snd (on_db (AllocateSequence (a_tok a)) (on_met (observe_exif_duration (a_rnd a) (a_dur a 2)) s)))"
  have s3: "w_db s3 = d1" "w_fs s3 = w_fs s" "w_pool s3 = w_pool s" using assms(9) by (simp_all add: s3_def)
  define e where "e = engine_stage cfg a p fld name s3"
  let ?dst = "out_path_of cfg fld name"
  have e: "fst e" "w_db (snd e) = d1" "w_pool (snd e) = w_pool s"
    "w_fs (snd e) = snd (run p ?dst (worker_settings cfg)
       (snd (ensure_dir (a_mkdir_out a) (output_dir cfg @ ''/'' @ fld) (w_fs s))))"
    using assms(4,5) s3 by (simp_all add: e_def engine_stage_def Let_def split_beta)
  have ce: "content (w_fs (snd e)) p = Some bs"
    using engine_stage_keeps [OF assms(2,3)] assms(1) s3 by (simp add: e_def)
  let ?fin = "finish_import cfg D a p h (n, name) ?ex fld (snd e)"
  have conv: "convert_stage cfg D a p h s = on_pool (release_inflight p) ?fin"
    using assms(6,9,10) e(1)
    by (simp add: convert_stage_def Let_def split_beta result_stage_def e_def s3_def)
  have one: "1 \<le> seq_next (w_db s)" using assms(8) by (simp add: db_wf_def seqs_wf_def)
  from assms(9) one have al: "name = seq_name n" "n \<in> fst ` set (sequences d1)" "same_rest (w_db s) d1"
    using assms(10) by (auto elim!: AllocateSequence_cases)
  have ins: "import_rows (w_db ?fin) = import_rows (w_db s) @
      [(import_of cfg p h (n, name) ?dst (sha256_file D (w_fs (snd e)) ?dst) ?ex fld)\<lparr>rec_id := imp_next d1,
          rec_date_source := Exif, error_message := [], sequence_name := [],
          created_at := now_txt (srv d1) (stmt_no d1), completed_at := now_txt (srv d1) (stmt_no d1)\<rparr>]"
    using al(2,3) assms(11,12) e(2)
    by (simp add: InsertImport_def send_def import_of_def same_rest_def)
  have mov: "moved_to p bs (arch_path_of cfg fld p) (w_fs ?fin)"
    by (rule finish_import_moved [OF ce assms(2,7)])
  have paths: "output_dir cfg @ ''/'' @ fld @ ''/IMG_'' @ dec_int n @ ''.dng'' = ?dst"
    "archive_dir cfg @ ''/'' @ fld @ ''/'' @ filename p = arch_path_of cfg fld p"
    by (simp_all add: out_path_of_def arch_path_of_def al(1) seq_name_def)
  show ?thesis
    unfolding conv paths using ins mov e
    by (simp add: release_inflight_def clear_failures_def import_of_def)
qed

lemma demo_alloc: "fst (AllocateSequence ''x'' (empty_db good_server)) = (1, ''IMG_1'')"
  by code_simp

theorem convert_stage_imports_witness:
  "map source_path (import_rows (w_db (convert_stage (default_config\<lparr>gen_thumb_jpeg := True\<rparr>) concat_digest
      (demo_answers\<lparr>a_engine := Some (\<lambda>src dst st fs. (True, write_file fs dst [7] 0))\<rparr>)
      demo_path ''ab'' (demo_world good_server)))) = [demo_path]"
proof -
  let ?cfg = "default_config\<lparr>gen_thumb_jpeg := True\<rparr>"
  let ?run = "\<lambda>src dst st fs. (True, write_file fs dst [7] 0)"
  let ?a = "demo_answers\<lparr>a_engine := Some ?run\<rparr>" and ?s = "demo_world good_server"
  obtain d1 where al: "AllocateSequence (a_tok ?a) (w_db ?s) = ((1, ''IMG_1''), d1)"
    using demo_alloc by (simp add: demo_answers_def demo_world_def) (metis prod.collapse)
  have "watched ?cfg demo_path" using demo_facts(2) by (simp add: watched_def)
  moreover have "engine_frame ?a" by (auto simp: engine_frame_def)
  moreover have "archive_works ?cfg ?a demo_path fld" for fld
    using demo_archive_works [of ?cfg demo_path fld] by (simp add: archive_works_def arch_path_of_def)
  moreover have "db_wf (w_db ?s)" by (simp add: demo_world_def empty_db_wf)
  ultimately obtain r where "import_rows (w_db (convert_stage ?cfg concat_digest ?a demo_path ''ab'' ?s))
      = import_rows (w_db ?s) @ [r]" "source_path r = demo_path"
    using convert_stage_imports [of ?s demo_path "[1, 2]" ?cfg ?a ?run _ 1 "''IMG_1''" d1 concat_digest "''ab''"]
      demo_facts(1) al by (auto simp: demo_world_def empty_db_def good_server_def)
  then show ?thesis by (simp add: demo_world_def empty_db_def)
qed

text \<open>
  The archive can lose an earlier original: the archive path keeps the camera's file name, so
  when a later photo with the same name is archived under the same folder, it replaces the
  earlier one; if that was the last copy, its bytes are in no file afterwards.
\<close>

theorem archive_overwrites:
  assumes "content (w_fs s) p = Some bs" "watched cfg p" "archive_works cfg a p fld"
    and "\<not> gen_thumb_jpeg cfg" "content (w_fs s) (arch_path_of cfg fld p) = Some old" "old \<noteq> bs"
    and "\<forall>q. q \<noteq> arch_path_of cfg fld p \<longrightarrow> content (w_fs s) q \<noteq> Some old"
  shows "\<forall>q. content (w_fs (finish_import cfg D a p h sq ex fld s)) q \<noteq> Some old"
proof
  fix q
  note m = finish_import_moved [OF assms(1-3), of D h sq ex, unfolded moved_to_def]
  show "content (w_fs (finish_import cfg D a p h sq ex fld s)) q \<noteq> Some old"
  proof (cases "q = p \<or> q = arch_path_of cfg fld p")
    case True
    with m assms(6) show ?thesis by auto
  next
    case False
    have "content (snd (move_file os p (arch_path_of cfg fld p) fs)) q = content fs q" for os fs
      using mv.frame [of os p "arch_path_of cfg fld p" fs] False by (metis prod.collapse)
    moreover have "content (before_archive cfg a fld (snd sq) (w_fs s)) q = content (w_fs s) q"
      using assms(4) by (simp add: before_archive_def)
    ultimately show ?thesis using False assms(7) by (simp add: finish_import_fs_eq)
  qed
qed

theorem archive_overwrites_witness:
  "let fs = \<lparr>files = [demo_path \<mapsto> \<lparr>f_data = [1, 2], f_mtime = 0\<rparr>,
               arch_path_of default_config ''2024'' demo_path \<mapsto> \<lparr>f_data = [3], f_mtime = 0\<rparr>], dirs = {}\<rparr>
   in \<forall>q. content (w_fs (finish_import default_config concat_digest demo_answers demo_path ''ab'' (1, ''IMG_1'')
        \<lparr>ex_date = [], ex_time = [], ex_source = Mtime\<rparr> ''2024'' ((demo_world good_server)\<lparr>w_fs := fs\<rparr>))) q \<noteq> Some [3]"
proof -
  let ?fs = "\<lparr>files = [demo_path \<mapsto> \<lparr>f_data = [1, 2 :: byte], f_mtime = 0\<rparr>,
               arch_path_of default_config ''2024'' demo_path \<mapsto> \<lparr>f_data = [3], f_mtime = 0\<rparr>], dirs = {}\<rparr>"
  let ?s = "(demo_world good_server)\<lparr>w_fs := ?fs\<rparr>"
  have neq: "demo_path \<noteq> arch_path_of default_config ''2024'' demo_path"
    by (rule watched_neq(5) [OF demo_facts(2)])
  have "content (w_fs ?s) demo_path = Some [1, 2]" using neq by (simp add: content_def)
  moreover have "\<not> gen_thumb_jpeg default_config" by (simp add: default_config_def)
  moreover have "content (w_fs ?s) (arch_path_of default_config ''2024'' demo_path) = Some [3]" by (simp add: content_def)
  moreover have "\<forall>q. q \<noteq> arch_path_of default_config ''2024'' demo_path \<longrightarrow> content (w_fs ?s) q \<noteq> Some [3]"
    by (simp add: content_def)
  ultimately show ?thesis
    using archive_overwrites [OF _ demo_facts(2) demo_archive_works, of ?s "[1, 2]" "''2024''" "[3]"]
    by (simp add: Let_def)
qed

section \<open>Reconversion\<close>

text \<open>One job of \<open>ReconvertDrain\<close>.\<close>

definition reconvert_job :: "('c, 'm) digest_scheme \<Rightarrow> engine_run option \<Rightarrow> reconversion_job \<Rightarrow> world \<Rightarrow> world" where
  "reconvert_job D engine job s =
     (let (found, s1) = on_db (GetImportById (job_import_id job)) s
      in case found of
           None \<Rightarrow> s1
         | Some r \<Rightarrow>
             (case engine of
                None \<Rightarrow> s1
              | Some run \<Rightarrow>
                  let (ok, s2) = on_fs (run (source_path r) (output_path r) (job_settings job)) s1
                  in if ok
                     then let h = sha256_file D (w_fs s2) (output_path r);
                              s3 = snd (on_db (UpdateOutputHash (rec_id r) h) s2)
                          in snd (on_db (UpdateReconversion (job_id job) h Completed) s3)
                     else snd (on_db (UpdateReconversion (job_id job) [] Failed) s2)))"

text \<open>An engine that cannot convert a file that is not there.\<close>

definition needs_source :: "engine_run \<Rightarrow> bool" where
  "needs_source run \<longleftrightarrow> (\<forall>src dst st fs. content fs src = None \<longrightarrow> \<not> fst (run src dst st fs))"

text \<open>
  Reconverting an archived import always fails: the job converts from the import's source
  path, which is where the file was before it was archived, so with an engine that needs its
  input the job is marked failed and no output hash changes.
\<close>

theorem reconvert_after_archive_fails:
  assumes "needs_source run" "strict (srv (w_db s))" "\<forall>k. stmt_ok (srv (w_db s)) k"
    and "[r \<leftarrow> import_rows (w_db s). rec_id r = job_import_id job] = [r0]" "id_range r0"
    and "content (w_fs s) (source_path r0) = None"
    and "job_id job \<in> rc_id ` set (reconversions (w_db s))"
  shows "let s' = reconvert_job D (Some run) job s
         in import_rows (w_db s') = import_rows (w_db s) \<and>
            reconversions (w_db s') = map (\<lambda>x. if rc_id x = job_id job
              then x\<lparr>rc_new := Some [], rc_status := ''failed''\<rparr> else x) (reconversions (w_db s))"
proof -
  let ?d1 = "(w_db s)\<lparr>stmt_no := Suc (stmt_no (w_db s))\<rparr>"
  have g: "GetImportById (job_import_id job) (w_db s) = (Some (read_back (w_db s) r0), ?d1)"
    using assms(3-5) by (simp add: GetImportById_def send_def row_to_record_row_cols)
  have src: "source_path (read_back (w_db s) r0) = source_path r0" by (simp add: read_back_def)
  have fails: "\<not> fst (run (source_path r0) dst st (w_fs s))" for dst st
    using assms(1,6) by (simp add: needs_source_def)
  define s2 where "s2 = snd (on_fs (run (source_path r0) (output_path (read_back (w_db s) r0)) (job_settings job))
      (snd (on_db (GetImportById (job_import_id job)) s)))"
  have s2: "w_db s2 = ?d1" using g by (simp add: s2_def)
  have eq: "reconvert_job D (Some run) job s = snd (on_db (UpdateReconversion (job_id job) [] Failed) s2)"
    using g src fails by (simp add: reconvert_job_def split_beta s2_def)
  show ?thesis
    unfolding eq Let_def using assms(3,7)
    by (auto simp: s2 UpdateReconversion_def send_def varchar_def enum_col_def rc_statuses_def)
qed

theorem reconvert_after_archive_fails_witness:
  "let d = snd (InsertReconversion 1 (new_job\<lparr>job_reason := ''test''\<rparr>) two_imports);
       s = (demo_world good_server)\<lparr>w_db := d\<rparr>;
       s' = reconvert_job concat_digest (Some demo_engine) (new_job\<lparr>job_id := 1, job_import_id := 1\<rparr>) s
   in map rc_status (reconversions (w_db s)) = [''pending''] \<and>
      map rc_status (reconversions (w_db s')) = [''failed'']"
proof -
  let ?d = "snd (InsertReconversion 1 (new_job\<lparr>job_reason := ''test''\<rparr>) two_imports)"
  let ?s = "(demo_world good_server)\<lparr>w_db := ?d\<rparr>"
  let ?job = "new_job\<lparr>job_id := 1, job_import_id := 1\<rparr>"
  have rows: "map rc_status (reconversions ?d) = [''pending'']" "map rc_id (reconversions ?d) = [1]"
    "1 \<in> rc_id ` set (reconversions ?d)"
    unfolding two_imports_def example_db_def by code_simp+
  have one: "map rec_id [r \<leftarrow> import_rows ?d. rec_id r = 1] = [1]"
    "map source_path [r \<leftarrow> import_rows ?d. rec_id r = 1] = [''a'']"
    "map sequence_id [r \<leftarrow> import_rows ?d. rec_id r = 1] = [1]"
    unfolding two_imports_def example_db_def by code_simp+
  obtain r0 where r0: "[r \<leftarrow> import_rows ?d. rec_id r = 1] = [r0]" using one(1) by auto
  then have r0': "rec_id r0 = 1" "source_path r0 = ''a''" "sequence_id r0 = 1" using one by auto
  have srv: "srv ?d = good_server"
    by (simp add: InsertReconversion_def send_def Let_def split: option.split)
  have "needs_source demo_engine" by (simp add: needs_source_def demo_engine_def)
  moreover have "content (w_fs ?s) (source_path r0) = None"
    using r0' by (simp add: demo_world_def content_def demo_path_def)
  moreover have "id_range r0" using r0' by (simp add: id_range_def)
  ultimately show ?thesis
    using reconvert_after_archive_fails [of demo_engine ?s ?job r0 concat_digest] rows r0 srv
    by (auto simp: Let_def new_job_def good_server_def)
qed

section \<open>The queue during a run\<close>

text \<open>Processing a file never touches the queue: only the loop and the poller do.\<close>

lemma queue_pool_ops:
  "fileq (clear_failures p w) = fileq w" "fileq (release_inflight p w) = fileq w"
  "fileq (evict_fp_cache w) = fileq w" "fileq (snd (snd (bump_failure cfg p w))) = fileq w"
  by (simp_all add: clear_failures_def release_inflight_def evict_fp_cache_def bump_failure_def Let_def)

lemma hash_stage_fileq: "fileq (w_pool (snd (hash_stage cfg D a p s))) = fileq (w_pool s)"
  by (auto simp: hash_stage_def Let_def queue_pool_ops split: option.split)

lemma dead_letter_fileq: "fileq (w_pool (move_to_dead_letter cfg a p s)) = fileq (w_pool s)"
  by (simp add: move_to_dead_letter_def Let_def split_beta queue_pool_ops)

lemma duplicate_stage_fileq: "fileq (w_pool (duplicate_stage cfg a p s)) = fileq (w_pool s)"
  by (simp add: duplicate_stage_def Let_def queue_pool_ops)

lemma engine_stage_pool: "w_pool (snd (engine_stage cfg a p fld name s)) = w_pool s"
  by (simp add: engine_stage_def Let_def split_beta split: option.split)

lemma convert_stage_fileq: "fileq (w_pool (convert_stage cfg D a p h s)) = fileq (w_pool s)"
  by (simp add: convert_stage_def Let_def split_beta result_stage_def queue_pool_ops dead_letter_fileq engine_stage_pool)

lemma ProcessFile_fileq: "fileq (w_pool (ProcessFile cfg D a p s)) = fileq (w_pool s)"
  by (simp add: ProcessFile_def Let_def split_beta dead_letter_fileq duplicate_stage_fileq convert_stage_fileq hash_stage_fileq)

end
