(* ===== verification/Migrations.thy ===== *)
theory Migrations
  imports Import_Store "HOL-Library.List_Lexorder" "HOL-Library.Char_ord" "HOL-Library.Sublist"
begin

text \<open>
  Opening the database and \<open>Store::Migrate\<close> (\<open>src/src/db.cpp\<close>): which migration files run,
  in which order, what is recorded, and that a second start runs nothing.
\<close>

section \<open>Connecting\<close>

text \<open>
  \<open>mysql_real_connect\<close> is tried five times; \<open>answers\<close> are its results. The handle from
  \<open>mysql_init\<close> stays in place when all attempts fail, so \<open>conn\<close> is set either way.
\<close>

fun connect_attempts :: "nat \<Rightarrow> (nat \<Rightarrow> bool) \<Rightarrow> nat \<Rightarrow> bool \<times> nat" where
  "connect_attempts 0 answers k = (False, k)"
| "connect_attempts (Suc n) answers k = (if answers k then (True, Suc k) else connect_attempts n answers (Suc k))"

definition Open :: "bool \<Rightarrow> (nat \<Rightarrow> bool) \<Rightarrow> db \<Rightarrow> bool \<times> db" where
  "Open init answers d =
     (if \<not> init then (False, d\<lparr>conn := False\<rparr>)
      else (fst (connect_attempts 5 answers 0), d\<lparr>conn := True\<rparr>))"

definition CreateConnection :: "bool \<Rightarrow> bool \<Rightarrow> bool" where
  "CreateConnection init connected \<longleftrightarrow> init \<and> connected"

lemma connect_attempts_iff: "fst (connect_attempts n answers k) \<longleftrightarrow> (\<exists>i < n. answers (k + i))"
proof (induction n arbitrary: k)
  case (Suc n)
  have "(\<exists>i < Suc n. answers (k + i)) \<longleftrightarrow> answers k \<or> (\<exists>i < n. answers (Suc k + i))"
    by (simp add: Ex_less_Suc2)
  with Suc show ?case by simp
qed simp

text \<open>
  \<open>Open\<close> succeeds exactly when the handle was created and one of the first five connection
  attempts succeeds.
\<close>

theorem Open_five_attempts: "fst (Open init answers d) = (init \<and> (\<exists>i < 5. answers i))"
  by (simp add: Open_def connect_attempts_iff)

section \<open>Running one file\<close>

fun run_statements :: "string list \<Rightarrow> db \<Rightarrow> bool \<times> db" where
  "run_statements [] d = (True, d)"
| "run_statements (s # ss) d =
     (let (ok, d1) = send d
      in if ok then run_statements ss (d1\<lparr>ddl_log := ddl_log d1 @ [s]\<rparr>) else (False, d1))"

definition migration_applied :: "string \<Rightarrow> db \<Rightarrow> bool \<times> db" where
  "migration_applied vsn d =
     (let (chk, d1) = exec_select 1 (\<lambda>d. map (\<lambda>v. [Some ''1'']) [v \<leftarrow> applied d. txt_eq (srv d) v vsn]) d
      in (chk \<noteq> [], d1))"

lemma migration_applied_eq: "migration_applied v d =
    (stmt_ok (srv d) (stmt_no d) \<and> (\<exists>u \<in> set (applied d). txt_eq (srv d) u v), d\<lparr>stmt_no := Suc (stmt_no d)\<rparr>)"
proof -
  have "fetch_rows k [c] (map (\<lambda>v. [Some ''1'']) us) = [] \<longleftrightarrow> us = []" for k c and us :: "string list"
    by (cases us) (simp_all add: fetch_column_def row_fits_def kBuf_def Let_def)
  then have "fst (migration_applied v d) \<longleftrightarrow>
      stmt_ok (srv d) (stmt_no d) \<and> (\<exists>u \<in> set (applied d). txt_eq (srv d) u v)"
    by (auto simp: migration_applied_def exec_select_def send_def filter_empty_conv)
  then show ?thesis by (simp add: migration_applied_def split_beta prod_eq_iff)
qed

text \<open>The INSERT's failure (duplicate key, an over-long name) is not looked at.\<close>

definition record_migration :: "string \<Rightarrow> db \<Rightarrow> db" where
  "record_migration vsn d =
     (let (ok, d1) = send d
      in case varchar (srv d) 255 vsn of
           None \<Rightarrow> d1
         | Some v \<Rightarrow> if ok \<and> \<not> (\<exists>u \<in> set (applied d). txt_eq (srv d) u v)
                     then d1\<lparr>applied := applied d @ [v]\<rparr> else d1)"

text \<open>\<open>read\<close> is a file's text, empty when it cannot be opened.\<close>

fun migrate_files :: "(path \<Rightarrow> string) \<Rightarrow> path list \<Rightarrow> db \<Rightarrow> bool \<times> db" where
  "migrate_files read [] d = (True, d)"
| "migrate_files read (f # fs) d =
     (let vsn = filename f;
          (known, d1) = migration_applied vsn d
      in if known then migrate_files read fs d1
         else let (ok, d2) = run_statements (split_sql (read f)) d1
              in if ok then migrate_files read fs (record_migration vsn d2) else (False, d2))"

text \<open>\<open>entries\<close> is what the directory iterator lists, in its order.\<close>

definition sql_files :: "path list \<Rightarrow> path list" where
  "sql_files entries = sort [e \<leftarrow> entries. extension (filename e) = ''.sql'']"

definition Migrate :: "bool \<Rightarrow> path list \<Rightarrow> (path \<Rightarrow> string) \<Rightarrow> db \<Rightarrow> bool \<times> db" where
  "Migrate dir_ok entries read d =
     (if \<not> conn d \<or> \<not> dir_ok then (False, d)
      else migrate_files read (sql_files entries) (snd (send d)))"

section \<open>What was executed\<close>

lemma run_statements_log:
  "run_statements ss d = (ok, d') \<Longrightarrow>
     (\<exists>k. k \<le> length ss \<and> (ok \<longleftrightarrow> k = length ss) \<and> ddl_log d' = ddl_log d @ take k ss) \<and>
     applied d' = applied d \<and> srv d' = srv d"
proof (induction ss arbitrary: d)
  case Nil
  then show ?case by simp
next
  case (Cons s ss)
  show ?case
  proof (cases "stmt_ok (srv d) (stmt_no d)")
    case True
    let ?d = "d\<lparr>stmt_no := Suc (stmt_no d), ddl_log := ddl_log d @ [s]\<rparr>"
    have "run_statements ss ?d = (ok, d')"
      using Cons.prems True by (simp add: send_def)
    from Cons.IH [OF this] obtain k where
      "k \<le> length ss" "ok \<longleftrightarrow> k = length ss" "ddl_log d' = (ddl_log d @ [s]) @ take k ss"
      "applied d' = applied d" "srv d' = srv d" by auto
    then show ?thesis by (intro conjI exI [of _ "Suc k"]) auto
  next
    case False
    with Cons.prems show ?thesis by (auto simp: send_def intro: exI [of _ 0])
  qed
qed

lemma migration_applied_frame [simp]:
  "ddl_log (snd (migration_applied v d)) = ddl_log d"
  "applied (snd (migration_applied v d)) = applied d"
  "srv (snd (migration_applied v d)) = srv d"
  by (simp_all add: migration_applied_eq send_def)

lemma record_migration_frame [simp]:
  "ddl_log (record_migration v d) = ddl_log d" "srv (record_migration v d) = srv d"
  by (auto simp: record_migration_def send_def split: option.split)

lemma record_migration_keeps: "set (applied d) \<subseteq> set (applied (record_migration v d))"
  by (auto simp: record_migration_def send_def split: option.split)

text \<open>The log grows by the statements of some of the files, in order, and part of one more.\<close>

definition stmts :: "(path \<Rightarrow> string) \<Rightarrow> path list \<Rightarrow> string list" where
  "stmts read fs = concat (map (\<lambda>f. split_sql (read f)) fs)"

lemma migrate_files_log:
  "migrate_files read fs d = (ok, d') \<Longrightarrow>
     \<exists>run part. subseq run fs \<and> ddl_log d' = ddl_log d @ stmts read run @ part \<and>
       (ok \<longrightarrow> part = []) \<and> (\<not> ok \<longrightarrow> (\<exists>f \<in> set fs. strict_prefix part (split_sql (read f))))"
proof (induction read fs d rule: migrate_files.induct)
  case (1 read d)
  then show ?case by (auto simp: stmts_def)
next
  case (2 read f fs d)
  obtain known d1 where k: "migration_applied (filename f) d = (known, d1)" by fastforce
  then have log1: "ddl_log d1 = ddl_log d" using migration_applied_frame(1) [of "filename f" d] by simp
  show ?case
  proof (cases known)
    case True
    with "2.prems" k have "migrate_files read fs d1 = (ok, d')" by simp
    from "2.IH"(1) [OF refl k [symmetric] refl True this] log1 obtain run part where
      "subseq run fs" "ddl_log d' = ddl_log d @ stmts read run @ part" "ok \<longrightarrow> part = []"
      "\<not> ok \<longrightarrow> (\<exists>f \<in> set fs. strict_prefix part (split_sql (read f)))" by auto
    then show ?thesis by (intro exI [of _ run] exI [of _ part]) auto
  next
    case False
    obtain ran d2 where r: "run_statements (split_sql (read f)) d1 = (ran, d2)" by fastforce
    from run_statements_log [OF r] obtain n where
      n: "n \<le> length (split_sql (read f))" "ran \<longleftrightarrow> n = length (split_sql (read f))"
        "ddl_log d2 = ddl_log d @ take n (split_sql (read f))" using log1 by auto
    show ?thesis
    proof (cases ran)
      case True
      have m: "migrate_files read fs (record_migration (filename f) d2) = (ok, d')"
        using "2.prems" k r True False by simp
      from "2.IH"(2) [OF refl k [symmetric] refl False r [symmetric] refl True m] obtain run part where
        *: "subseq run fs" "ddl_log d' = ddl_log d2 @ stmts read run @ part" "ok \<longrightarrow> part = []"
          "\<not> ok \<longrightarrow> (\<exists>f \<in> set fs. strict_prefix part (split_sql (read f)))" by auto
      have "ddl_log d' = ddl_log d @ stmts read (f # run) @ part"
        using * n True by (simp add: stmts_def)
      moreover have "subseq (f # run) (f # fs)" using *(1) by simp
      ultimately show ?thesis using *(3,4) by (intro exI [of _ "f # run"] exI [of _ part]) auto
    next
      case not_ran: False
      then have "ok = False" "d' = d2" using "2.prems" k r False by simp_all
      moreover have "strict_prefix (take n (split_sql (read f))) (split_sql (read f))"
        using n not_ran by (auto simp: strict_prefix_def take_is_prefix)
      moreover have "ddl_log d2 = ddl_log d @ stmts read [] @ take n (split_sql (read f))"
        using n by (simp add: stmts_def)
      ultimately show ?thesis by (intro exI [of _ "[]"] exI [of _ "take n (split_sql (read f))"]) auto
    qed
  qed
qed

text \<open>
  C36: Migrations run in the order of their path names and whole: whatever the server refuses,
  the statements executed are those of some of the \<open>.sql\<close> files, in sorted order; when
  \<open>Migrate\<close> returns true they are whole files, and when it returns false after starting there
  is at the end a proper part of the statements of one file, and nothing after it.
\<close>

theorem Migrate_executes:
  assumes "conn d" "dir_ok" "Migrate dir_ok entries read d = (ok, d')"
  shows "\<exists>run part. subseq run (sql_files entries) \<and> sorted (sql_files entries) \<and>
     ddl_log d' = ddl_log d @ stmts read run @ part \<and> (ok \<longrightarrow> part = []) \<and>
     (\<not> ok \<longrightarrow> (\<exists>f \<in> set (sql_files entries). strict_prefix part (split_sql (read f))))"
proof -
  have "migrate_files read (sql_files entries) (snd (send d)) = (ok, d')"
    using assms by (simp add: Migrate_def)
  from migrate_files_log [OF this] show ?thesis by (simp add: send_def sql_files_def)
qed

definition example_sql :: "path \<Rightarrow> string" where
  "example_sql p = (if p = ''m/0001.sql'' then ''A;B'' else if p = ''m/0002.sql'' then ''C'' else [])"

definition migrate_entries :: "path list" where
  "migrate_entries = [''m/0002.sql'', ''m/README'', ''m/0001.sql'']"

theorem Migrate_executes_witness:
  "ddl_log (snd (Migrate True migrate_entries example_sql (empty_db good_server))) = [''A'', ''B'', ''C''] \<and>
   (\<exists>run. subseq run (sql_files migrate_entries) \<and> stmts example_sql run = [''A'', ''B'', ''C''])"
proof -
  obtain ok d' where m: "Migrate True migrate_entries example_sql (empty_db good_server) = (ok, d')" by fastforce
  have r: "fst (Migrate True migrate_entries example_sql (empty_db good_server))"
     "ddl_log (snd (Migrate True migrate_entries example_sql (empty_db good_server))) = [''A'', ''B'', ''C'']"
    by code_simp+
  have "conn (empty_db good_server)" "ddl_log (empty_db good_server) = []" by (simp_all add: empty_db_def)
  with Migrate_executes [OF _ _ m] r m show ?thesis by auto
qed

section \<open>Running it again\<close>

definition all_known :: "path list \<Rightarrow> db \<Rightarrow> bool" where
  "all_known fs d \<longleftrightarrow> (\<forall>f \<in> set fs. \<exists>v \<in> set (applied d). txt_eq (srv d) v (filename f))"

lemma migrate_files_known:
  "all_known fs d \<Longrightarrow> \<forall>k. stmt_ok (srv d) k \<Longrightarrow>
     fst (migrate_files read fs d) \<and> ddl_log (snd (migrate_files read fs d)) = ddl_log d \<and>
     applied (snd (migrate_files read fs d)) = applied d"
proof (induction fs arbitrary: d)
  case (Cons f fs)
  let ?d = "snd (migration_applied (filename f) d)"
  have "fst (migration_applied (filename f) d)"
    using Cons.prems by (simp add: migration_applied_eq send_def all_known_def)
  then have "migrate_files read (f # fs) d = migrate_files read fs ?d"
    by (simp add: split_beta)
  moreover have "all_known fs ?d" "\<forall>k. stmt_ok (srv ?d) k"
    using Cons.prems by (simp_all add: all_known_def)
  ultimately show ?case using Cons.IH [of ?d] by simp
qed simp

lemma run_statements_ok: "\<forall>k. stmt_ok (srv d) k \<Longrightarrow> fst (run_statements ss d)"
  by (induction ss arbitrary: d) (simp_all add: send_def)

lemma record_migration_known:
  assumes "stmt_ok (srv d) (stmt_no d)" "length v \<le> 255" "txt_eq (srv d) v v"
  shows "\<exists>u \<in> set (applied (record_migration v d)). txt_eq (srv d) u v"
  using assms by (auto simp: record_migration_def send_def varchar_def)

lemma migrate_files_all_known:
  assumes "\<forall>k. stmt_ok (srv d) k" "\<forall>x. txt_eq (srv d) x x" "\<forall>f \<in> set fs. length (filename f) \<le> 255"
  shows "fst (migrate_files read fs d) \<and> set (applied d) \<subseteq> set (applied (snd (migrate_files read fs d))) \<and>
     srv (snd (migrate_files read fs d)) = srv d \<and> all_known fs (snd (migrate_files read fs d))"
  using assms
proof (induction fs arbitrary: d)
  case Nil
  then show ?case by (simp add: all_known_def)
next
  case (Cons f fs)
  let ?d1 = "snd (migration_applied (filename f) d)"
  let ?d2 = "snd (run_statements (split_sql (read f)) ?d1)"
  have ran: "fst (run_statements (split_sql (read f)) ?d1)"
    using run_statements_ok Cons.prems(1) by simp
  have d2: "applied ?d2 = applied d" "srv ?d2 = srv d"
    using run_statements_log [OF prod.collapse [symmetric], of "split_sql (read f)" ?d1] by auto
  define e where "e = (if fst (migration_applied (filename f) d) then ?d1 else record_migration (filename f) ?d2)"
  have eq: "migrate_files read (f # fs) d = migrate_files read fs e"
    using ran by (simp add: split_beta Let_def e_def)
  have srv: "srv e = srv d" using d2 by (simp add: e_def)
  have sub: "set (applied d) \<subseteq> set (applied e)" using d2 record_migration_keeps [of ?d2 "filename f"] by (auto simp: e_def)
  have "\<exists>u \<in> set (applied e). txt_eq (srv d) u (filename f)"
  proof (cases "fst (migration_applied (filename f) d)")
    case True
    then show ?thesis by (auto simp: e_def migration_applied_eq send_def)
  next
    case False
    with record_migration_known [of ?d2 "filename f"] Cons.prems d2 show ?thesis by (simp add: e_def)
  qed
  moreover have "fst (migrate_files read fs e) \<and> set (applied e) \<subseteq> set (applied (snd (migrate_files read fs e))) \<and>
     srv (snd (migrate_files read fs e)) = srv e \<and> all_known fs (snd (migrate_files read fs e))"
    using Cons.IH [of e] Cons.prems srv by simp
  ultimately show ?case using srv sub unfolding eq all_known_def by auto
qed

text \<open>
  Migrating is idempotent: on a server that executes every statement, a second \<open>Migrate\<close>
  over the same directory succeeds and executes no statement of any file, when the file
  names fit the version column.
\<close>

theorem Migrate_twice:
  assumes "\<forall>k. stmt_ok (srv d) k" "\<forall>x. txt_eq (srv d) x x"
    and "\<forall>f \<in> set (sql_files entries). length (filename f) \<le> 255"
    and "Migrate dir_ok entries read d = (True, d1)"
  shows "ddl_log (snd (Migrate dir_ok entries read d1)) = ddl_log d1 \<and>
         (conn d1 \<longrightarrow> fst (Migrate dir_ok entries read d1))"
proof (cases "conn d1 \<and> dir_ok")
  case True
  have m: "migrate_files read (sql_files entries) (snd (send d)) = (True, d1)"
    using assms(4) by (simp add: Migrate_def split: if_splits)
  have k: "all_known (sql_files entries) d1" "srv d1 = srv d"
    using migrate_files_all_known [of "snd (send d)" "sql_files entries" read] assms(1-3) m
    by (simp_all add: send_def)
  have "all_known (sql_files entries) (snd (send d1))" "\<forall>k. stmt_ok (srv (snd (send d1))) k"
    using k assms(1) by (simp_all add: send_def all_known_def)
  from migrate_files_known [OF this, of read] True show ?thesis
    by (simp add: Migrate_def) (simp add: send_def)
next
  case False
  then show ?thesis using assms(4) by (auto simp: Migrate_def split: if_splits)
qed

theorem Migrate_twice_witness:
  "let d1 = snd (Migrate True migrate_entries example_sql (empty_db good_server))
   in ddl_log (snd (Migrate True migrate_entries example_sql d1)) = ddl_log d1"
proof -
  obtain ok d1 where m: "Migrate True migrate_entries example_sql (empty_db good_server) = (ok, d1)" by fastforce
  have ok: "fst (Migrate True migrate_entries example_sql (empty_db good_server))" by code_simp
  have names: "\<forall>f \<in> set (sql_files migrate_entries). length (filename f) \<le> 255" by code_simp
  have "\<forall>k. stmt_ok (srv (empty_db good_server)) k" "\<forall>x. txt_eq (srv (empty_db good_server)) x x"
    by (simp_all add: empty_db_def good_server_def ci_eq_def)
  from Migrate_twice [OF this names] m ok show ?thesis by (simp add: Let_def)
qed

end
