(* ===== verification/Store_Steps.thy ===== *)
theory Store_Steps
  imports Locks
begin

text \<open>
  All state-changing operations of \<open>Store\<close> (\<open>src/src/db.cpp\<close>) as one labelled step relation:
  any client, any order, any arguments. The invariant of the tables and the history of the
  \<open>imports\<close> table are proved for every reachable state.
\<close>

datatype store_op =
    Op_Allocate string
  | Op_Insert import_record
  | Op_Set_Output_Hash int string
  | Op_Set_Orientation int int
  | Op_Preview_Edit int string string string int int int
  | Op_Insert_Reconversion int reconversion_job
  | Op_Update_Reconversion int string import_status
  | Op_Acquire int string int int int string
  | Op_Release int
  | Op_Alert string string string string
  | Op_Stats
  | Op_Close

inductive store_step :: "db \<Rightarrow> store_op \<Rightarrow> db \<Rightarrow> bool" where
  s_alloc: "AllocateSequence tok d = (r, d') \<Longrightarrow> store_step d (Op_Allocate tok) d'"
| s_insert: "InsertImport rec d = (i, d') \<Longrightarrow> store_step d (Op_Insert rec) d'"
| s_hash: "UpdateOutputHash i h d = (b, d') \<Longrightarrow> store_step d (Op_Set_Output_Hash i h) d'"
| s_orient: "UpdateOrientation i ori d = (b, d') \<Longrightarrow> store_step d (Op_Set_Orientation i ori) d'"
| s_preview: "RecordPreviewEdit i w p n wd ht q d = (b, d') \<Longrightarrow>
    store_step d (Op_Preview_Edit i w p n wd ht q) d'"
| s_reconv: "InsertReconversion i job d = (r, d') \<Longrightarrow> store_step d (Op_Insert_Reconversion i job) d'"
| s_reconv_upd: "UpdateReconversion r h st d = (b, d') \<Longrightarrow> store_step d (Op_Update_Reconversion r h st) d'"
| s_acquire: "AcquireLock i w ttl t1 t2 tok d = (b, d') \<Longrightarrow> store_step d (Op_Acquire i w ttl t1 t2 tok) d'"
| s_release: "ReleaseLock i d = (b, d') \<Longrightarrow> store_step d (Op_Release i) d'"
| s_alert: "InsertAlert sv c m f d = (b, d') \<Longrightarrow> store_step d (Op_Alert sv c m f) d'"
| s_stats: "GetStats d = (st, d') \<Longrightarrow> store_step d Op_Stats d'"
| s_close: "store_step d Op_Close (Close d)"

inductive_simps store_step_simps:
  "store_step d (Op_Insert rec) d'"
  "store_step d (Op_Allocate tok) d'"

inductive store_reach :: "db \<Rightarrow> db \<Rightarrow> bool" where
  r_start: "store_reach d d"
| r_step: "store_reach d0 d \<Longrightarrow> store_step d op d' \<Longrightarrow> store_reach d0 d'"

section \<open>The tables stay well-formed\<close>

lemmas side_ops = send_def UpdateReconversion_def RecordPreviewEdit_def InsertReconversion_def
  AcquireLock_def select_lock_def upsert_lock_def ReleaseLock_def InsertAlert_def GetStats_def
  count_query_def Close_def Let_def

text \<open>Operations that leave \<open>sequences\<close> and \<open>imports\<close> alone.\<close>

definition same_tables :: "db \<Rightarrow> db \<Rightarrow> bool" where
  "same_tables d d' \<longleftrightarrow> srv d' = srv d \<and> sequences d' = sequences d \<and> seq_next d' = seq_next d \<and>
     import_rows d' = import_rows d \<and> imp_next d' = imp_next d"

lemma side_op_same_tables:
  assumes "store_step d op d'"
  shows "(\<exists>tok. op = Op_Allocate tok) \<or> (\<exists>r. op = Op_Insert r) \<or> (\<exists>i h. op = Op_Set_Output_Hash i h) \<or>
     (\<exists>i ori. op = Op_Set_Orientation i ori) \<or> same_tables d d'"
  using assms
  by cases (auto simp: same_tables_def side_ops split: if_splits option.splits prod.splits)

lemma same_tables_wf: "same_tables d d' \<Longrightarrow> db_wf d \<Longrightarrow> db_wf d'"
  by (simp add: same_tables_def db_wf_def)

text \<open>What an import row keeps forever, and how rows may change: same identity, same place.\<close>

definition identity :: "import_record \<Rightarrow> int \<times> int \<times> path \<times> string \<times> path \<times> string \<times> import_status" where
  "identity r = (rec_id r, sequence_id r, source_path r, source_hash r, output_path r, created_at r, status r)"

lemma update_rows_identity:
  "UpdateOutputHash i h d = (b, d') \<Longrightarrow>
     map identity (import_rows d') = map identity (import_rows d) \<and> srv d' = srv d \<and>
     sequences d' = sequences d \<and> seq_next d' = seq_next d \<and> imp_next d' = imp_next d"
  "UpdateOrientation i ori d = (b, d') \<Longrightarrow>
     map identity (import_rows d') = map identity (import_rows d) \<and> srv d' = srv d \<and>
     sequences d' = sequences d \<and> seq_next d' = seq_next d \<and> imp_next d' = imp_next d"
  by (auto simp: UpdateOutputHash_def UpdateOrientation_def update_import_def send_def identity_def
      split: if_splits option.splits)

lemma imports_wf_identity:
  "map identity rows' = map identity rows \<Longrightarrow> imports_wf rows n ids \<Longrightarrow> imports_wf rows' n ids"
proof -
  assume eq: "map identity rows' = map identity rows" and wf: "imports_wf rows n ids"
  have "map rec_id rows' = map (fst \<circ> identity) rows'" by (simp add: identity_def comp_def)
  also have "\<dots> = map (fst \<circ> identity) rows" using eq by (simp flip: map_map)
  also have "\<dots> = map rec_id rows" by (simp add: identity_def comp_def)
  finally have ids: "map rec_id rows' = map rec_id rows" .
  have "\<exists>q \<in> set rows. identity q = identity r" if "r \<in> set rows'" for r
  proof -
    have "identity r \<in> set (map identity rows')" using that by simp
    with eq have "identity r \<in> set (map identity rows)" by simp
    then show ?thesis by auto
  qed
  with wf ids show ?thesis by (fastforce simp: imports_wf_def identity_def)
qed

lemma store_step_wf:
  assumes "store_step d op d'" "db_wf d"
  shows "db_wf d'"
  using assms(1)
proof cases
  case (s_alloc tok r)
  with AllocateSequence_wf [OF assms(2), of tok] show ?thesis by simp
next
  case (s_insert rec i)
  with InsertImport_wf [OF assms(2), of rec] show ?thesis by simp
next
  case (s_hash i h b)
  with update_rows_identity(1) [OF s_hash(2)] assms(2) imports_wf_identity
  show ?thesis by (simp add: db_wf_def)
next
  case (s_orient i ori b)
  with update_rows_identity(2) [OF s_orient(2)] assms(2) imports_wf_identity
  show ?thesis by (simp add: db_wf_def)
qed (use side_op_same_tables [OF assms(1)] same_tables_wf assms(2) in auto)

lemma store_reach_wf: "store_reach d0 d \<Longrightarrow> db_wf d0 \<Longrightarrow> db_wf d"
  by (induction rule: store_reach.induct) (auto intro: store_step_wf)

lemma store_step_srv: "store_step d op d' \<Longrightarrow> srv d' = srv d"
proof -
  assume st: "store_step d op d'"
  then show ?thesis
  proof cases
    case (s_alloc tok r)
    with AllocateSequence_rest [of d tok] show ?thesis by (simp add: same_rest_def)
  next
    case (s_insert rec i)
    then show ?thesis by (auto simp: InsertImport_def send_def split: if_splits)
  next
    case (s_hash i h b)
    with update_rows_identity(1) [OF s_hash(2)] show ?thesis by simp
  next
    case (s_orient i ori b)
    with update_rows_identity(2) [OF s_orient(2)] show ?thesis by simp
  qed (use side_op_same_tables [OF st] in \<open>auto simp: same_tables_def\<close>)
qed

section \<open>Imports are append-only\<close>

definition grows :: "db \<Rightarrow> db \<Rightarrow> bool" where
  "grows d d' \<longleftrightarrow> (\<exists>new. map identity (import_rows d') = map identity (import_rows d) @ new)
     \<and> imp_next d \<le> imp_next d' \<and> seq_next d \<le> seq_next d'"

lemma grows_refl: "grows d d"
  by (simp add: grows_def)

lemma grows_trans: "grows a b \<Longrightarrow> grows b c \<Longrightarrow> grows a c"
  by (fastforce simp: grows_def)

lemma store_step_grows:
  assumes "store_step d op d'" "db_wf d"
  shows "grows d d'"
  using assms(1)
proof cases
  case (s_alloc tok r)
  have one: "1 \<le> seq_next d" using assms(2) by (simp add: db_wf_def seqs_wf_def)
  obtain n name where "r = (n, name)" by fastforce
  with s_alloc(2) have "AllocateSequence tok d = ((n, name), d')" by simp
  from this one show ?thesis
    by (cases rule: AllocateSequence_cases) (auto simp: grows_def same_rest_def)
next
  case (s_insert rec i)
  then show ?thesis by (auto simp: grows_def InsertImport_def send_def split: if_splits)
next
  case (s_hash i h b)
  with update_rows_identity(1) [OF s_hash(2)] show ?thesis by (simp add: grows_def)
next
  case (s_orient i ori b)
  with update_rows_identity(2) [OF s_orient(2)] show ?thesis by (simp add: grows_def)
qed (use side_op_same_tables [OF assms(1)] in \<open>auto simp: grows_def same_tables_def\<close>)

lemma store_reach_grows: "store_reach d0 d \<Longrightarrow> db_wf d0 \<Longrightarrow> grows d0 d"
proof (induction rule: store_reach.induct)
  case (r_start d)
  show ?case by (rule grows_refl)
next
  case (r_step d0 d op d')
  have "db_wf d" using store_reach_wf r_step by blast
  with r_step store_step_grows grows_trans show ?case by blast
qed



end
