(* ===== verification/Service.thy ===== *)
theory Service
  imports Api Worker_Process Migrations Reconcile Store_Steps
begin

text \<open>
  The program as a whole (\<open>src/src/main.cpp\<close>): the start-up sequence with its exit codes, the
  accept loop of the HTTP server (\<open>ApiServer::Run\<close> and \<open>Stop\<close>), the import traffic of the worker
  threads on the database, and the shutdown. The properties here span components: which output
  paths conversions can write, what unauthenticated clients can do, what a shutdown still does.
\<close>

section \<open>Start-up\<close>

text \<open>What the program finds at start: environment, database server, directories, tokens.\<close>

record host =
  h_environ :: environ
  h_dotenv :: "string option"
  h_init :: bool
  h_connects :: "nat \<Rightarrow> bool"
  h_dir_ok :: "path \<Rightarrow> bool"
  h_entries :: "path \<Rightarrow> path list"
  h_text :: "path \<Rightarrow> string"
  h_sha :: "path \<Rightarrow> string"
  h_cwd :: path
  h_walk :: "path \<Rightarrow> (path \<times> bool) list option"
  h_tok :: "nat \<Rightarrow> string"
  h_fs :: fsys
  h_run :: runner

record service =
  sv_cfg :: config
  sv_reserved :: bool
  sv_engine :: engine
  sv_engine_ok :: bool
  sv_embedder :: embedder

datatype boot = Exit int | Booted service

definition host_config :: "host \<Rightarrow> config" where
  "host_config h = LoadConfig (load_dotenv (h_dotenv h) (h_environ h))"

definition migrations_dir :: "config \<Rightarrow> path" where
  "migrations_dir cfg = (if db_dir cfg = [] then ''migrations'' else db_dir cfg @ ''/migrations'')"

definition main_start :: "host \<Rightarrow> db \<Rightarrow> boot \<times> db" where
  "main_start h d =
     (let cfg = host_config h;
          (opened, d1) = Open (h_init h) (h_connects h) d
      in if \<not> opened then (Exit 1, d1)
         else
           let dir = migrations_dir cfg;
               (migrated, d2) = Migrate (h_dir_ok h dir) (h_entries h dir) (h_text h) d1
           in if \<not> migrated then (Exit 1, d2)
              else
                let (reserved, d3) = ReconcileLibrary cfg (h_sha h) (h_cwd h) (h_walk h) (h_tok h) d2;
                    e = MakeConverter (h_fs h) cfg
                in (Booted \<lparr>sv_cfg = cfg, sv_reserved = reserved, sv_engine = e,
                      sv_engine_ok = engine_Available (h_run h) e,
                      sv_embedder = MakeEmbedder (h_fs h) cfg\<rparr>, d3))"

lemma Open_tables: "same_tables d (snd (Open b c d))"
  by (simp add: Open_def same_tables_def)

lemma same_tables_refl: "same_tables d d"
  by (simp add: same_tables_def)

lemma same_tables_trans: "same_tables a b \<Longrightarrow> same_tables b c \<Longrightarrow> same_tables a c"
  by (simp add: same_tables_def)

lemma run_statements_tables: "same_tables d (snd (run_statements ss d))"
proof (induction ss arbitrary: d)
  case (Cons s ss)
  let ?d = "d\<lparr>stmt_no := Suc (stmt_no d), ddl_log := ddl_log d @ [s]\<rparr>"
  have "same_tables d ?d" by (simp add: same_tables_def)
  with same_tables_trans Cons [of ?d] show ?case by (auto simp: send_def same_tables_def)
qed (simp add: same_tables_def)

lemma migrate_files_tables: "same_tables d (snd (migrate_files read fs d))"
proof (induction fs arbitrary: d)
  case (Cons f fs)
  obtain known d1 where k: "migration_applied (filename f) d = (known, d1)" by fastforce
  have 1: "same_tables d d1" using k by (auto simp: migration_applied_eq send_def same_tables_def)
  obtain ok d2 where r: "run_statements (split_sql (read f)) d1 = (ok, d2)" by fastforce
  have 2: "same_tables d1 d2" using run_statements_tables [of d1 "split_sql (read f)"] r by simp
  have 3: "same_tables d2 (record_migration (filename f) d2)"
    by (auto simp: record_migration_def send_def same_tables_def split: option.split)
  show ?case
    using k r 1 2 3 Cons [of d1] Cons [of "record_migration (filename f) d2"]
    by (auto intro: same_tables_trans)
qed (simp add: same_tables_def)

lemma Migrate_tables: "same_tables d (snd (Migrate ok es read d))"
  using migrate_files_tables [of "d\<lparr>stmt_no := Suc (stmt_no d)\<rparr>" read "sql_files es"]
  by (auto simp: Migrate_def send_def same_tables_def)

lemma main_start_cases:
  assumes "main_start h d = (b, d')"
  obtains (stopped) "b = Exit 1" "same_tables d d'"
  | (running) sv d2 where "b = Booted sv" "same_tables d d2" "sv_cfg sv = host_config h"
      "ReconcileLibrary (host_config h) (h_sha h) (h_cwd h) (h_walk h) (h_tok h) d2 = (sv_reserved sv, d')"
proof -
  obtain o1 d1 where o: "Open (h_init h) (h_connects h) d = (o1, d1)" by fastforce
  have t1: "same_tables d d1" using Open_tables [of d "h_init h" "h_connects h"] o by simp
  let ?dir = "migrations_dir (host_config h)"
  obtain m d2 where m: "Migrate (h_dir_ok h ?dir) (h_entries h ?dir) (h_text h) d1 = (m, d2)" by fastforce
  have t2: "same_tables d d2"
    using Migrate_tables [of d1 "h_dir_ok h ?dir" "h_entries h ?dir" "h_text h"] m t1 same_tables_trans by simp
  obtain r d3 where r: "ReconcileLibrary (host_config h) (h_sha h) (h_cwd h) (h_walk h) (h_tok h) d2 = (r, d3)"
    by fastforce
  consider "\<not> o1" | "o1" "\<not> m" | "o1" "m" by blast
  then show thesis
  proof cases
    case 1
    with assms o t1 show thesis by (intro stopped) (simp_all add: main_start_def)
  next
    case 2
    with assms o m t2 show thesis by (intro stopped) (simp_all add: main_start_def Let_def)
  next
    case 3
    with assms o m r t2 show thesis
      by (intro running) (auto simp: main_start_def Let_def)
  qed
qed

section \<open>Import traffic\<close>

text \<open>
  The worker threads on the database: any number of threads, each allocating a number and later
  inserting a row under it, between any other store operations and reads. The set holds the
  numbers handed out for which no row has been tried yet. \<open>cfg\<close>, the folder and everything else
  in the row are free, so the steps cover every configuration and every restart.
\<close>

type_synonym traffic = "db \<times> (int \<times> string) set"

inductive import_step :: "traffic \<Rightarrow> traffic \<Rightarrow> bool" where
  t_alloc: "AllocateSequence tok d = ((n, name), d') \<Longrightarrow>
     import_step (d, G) (d', if n = 0 then G else insert (n, name) G)"
| t_insert: "sq \<in> G \<Longrightarrow>
     InsertImport (import_of cfg p h sq (out_path_of cfg fld (snd sq)) oh ex fld) d = (i, d') \<Longrightarrow>
     import_step (d, G) (d', G - {sq})"
| t_other: "store_step d op d' \<Longrightarrow> \<forall>tok. op \<noteq> Op_Allocate tok \<Longrightarrow> \<forall>r. op \<noteq> Op_Insert r \<Longrightarrow>
     import_step (d, G) (d', G)"
| t_read: "only_sent d d' \<Longrightarrow> import_step (d, G) (d', G)"

inductive import_reach :: "traffic \<Rightarrow> traffic \<Rightarrow> bool" where
  ir_start: "import_reach x x"
| ir_step: "import_reach x y \<Longrightarrow> import_step y z \<Longrightarrow> import_reach x z"

lemma import_reach_trans: "import_reach y z \<Longrightarrow> import_reach x y \<Longrightarrow> import_reach x z"
  by (induction rule: import_reach.induct) (auto intro: ir_step)

lemma import_reach_one: "import_step x y \<Longrightarrow> import_reach x y"
  by (rule ir_step [OF ir_start])

text \<open>The completed rows: id, number and output path, all of which no update changes.\<close>

definition done_rows :: "db \<Rightarrow> (int \<times> int \<times> path) list" where
  "done_rows d = map (\<lambda>r. (rec_id r, sequence_id r, output_path r)) [r \<leftarrow> import_rows d. status r = Completed]"

lemma done_rows_identity:
  assumes "map identity (import_rows d') = map identity (import_rows d)"
  shows "done_rows d' = done_rows d"
proof -
  have "done_rows x = map (\<lambda>(i, n, p, h, out, c, st). (i, n, out))
      (filter (\<lambda>(i, n, p, h, out, c, st). st = Completed) (map identity (import_rows x)))" for x
    by (simp add: done_rows_def identity_def filter_map comp_def)
  with assms show ?thesis by simp
qed

lemma done_rows_same:
  "same_tables d d' \<Longrightarrow> done_rows d' = done_rows d" "only_sent d d' \<Longrightarrow> done_rows d' = done_rows d"
  by (auto simp: done_rows_def same_tables_def only_sent_def)

text \<open>A completed row is published under the file name of its own number.\<close>

definition named_after :: "int \<Rightarrow> path \<Rightarrow> bool" where
  "named_after n out \<longleftrightarrow> filename out = seq_name n @ ''.dng''"

lemma seq_name_no_slash: "CHR ''/'' \<notin> set (seq_name n @ ''.dng'')"
  by (auto simp: seq_name_def dec_int_def isdigit_def dest: dec_nat_digits)

lemma out_path_named: "named_after n (out_path_of cfg fld (seq_name n))"
  using filename_of_join [OF seq_name_no_slash, of "output_dir cfg @ ''/'' @ fld" n]
  by (simp add: named_after_def out_path_of_def)

lemma named_after_inject: "named_after m out \<Longrightarrow> named_after n out \<Longrightarrow> m = n"
  by (simp add: named_after_def)

text \<open>
  The invariant, above a floor: \<open>m\<close> is a number below every number handed out from now on, and
  the rows with an id from \<open>i0\<close> on are the ones inserted from now on.
\<close>

definition done_nums :: "db \<Rightarrow> int set" where
  "done_nums d = (fst \<circ> snd) ` set (done_rows d)"

definition done_ok :: "int \<Rightarrow> int \<Rightarrow> int \<Rightarrow> int \<times> int \<times> path \<Rightarrow> bool" where
  "done_ok m i0 nxt x \<longleftrightarrow> (case x of (i, n, out) \<Rightarrow> named_after n out \<and> n < nxt \<and> (i0 \<le> i \<longrightarrow> m < n))"

definition grant_ok :: "int \<Rightarrow> int \<Rightarrow> int set \<Rightarrow> int \<times> string \<Rightarrow> bool" where
  "grant_ok m nxt used g \<longleftrightarrow> m < fst g \<and> fst g < nxt \<and> snd g = seq_name (fst g) \<and> fst g \<notin> used"

definition traffic_ok :: "int \<Rightarrow> int \<Rightarrow> traffic \<Rightarrow> bool" where
  "traffic_ok m i0 x \<longleftrightarrow> (case x of (d, G) \<Rightarrow>
     db_wf d \<and> m < seq_next d \<and> i0 \<le> imp_next d \<and>
     distinct (map (fst \<circ> snd) (done_rows d)) \<and>
     (\<forall>y \<in> set (done_rows d). done_ok m i0 (seq_next d) y) \<and>
     (\<forall>g \<in> G. grant_ok m (seq_next d) (done_nums d) g))"

lemma traffic_ok_keep:
  assumes "traffic_ok m i0 (d, G)" "db_wf d'" "done_rows d' = done_rows d" "seq_next d' = seq_next d"
    "imp_next d' = imp_next d"
  shows "traffic_ok m i0 (d', G)"
  using assms unfolding traffic_ok_def done_nums_def by simp

lemma done_ok_mono: "done_ok m i0 k x \<Longrightarrow> k \<le> k' \<Longrightarrow> done_ok m i0 k' x"
  by (auto simp: done_ok_def)

lemma grant_ok_mono: "grant_ok m k U g \<Longrightarrow> k \<le> k' \<Longrightarrow> grant_ok m k' U g"
  by (simp add: grant_ok_def)

lemma done_nums_below: "traffic_ok m i0 (d, G) \<Longrightarrow> n \<in> done_nums d \<Longrightarrow> n < seq_next d"
  by (auto simp: traffic_ok_def done_nums_def done_ok_def)

lemma AllocateSequence_rows:
  assumes "AllocateSequence tok d = ((n, name), d')" "1 \<le> seq_next d"
  shows "import_rows d' = import_rows d \<and> imp_next d' = imp_next d \<and> srv d' = srv d"
  using assms by (cases rule: AllocateSequence_cases) (simp_all add: same_rest_def)

lemma traffic_ok_alloc:
  assumes "traffic_ok m i0 (d, G)" "AllocateSequence tok d = ((n, name), d')"
  shows "traffic_ok m i0 (d', if n = 0 then G else insert (n, name) G)"
proof -
  have wf: "db_wf d" using assms(1) by (simp add: traffic_ok_def)
  have wf': "db_wf d'" using AllocateSequence_wf [OF wf, of tok] assms(2) by simp
  have mono: "seq_next d \<le> seq_next d'" using alloc_seq.nxt_mono [OF wf, of tok] assms(2) by simp
  have same: "done_rows d' = done_rows d" "done_nums d' = done_nums d" "imp_next d' = imp_next d"
    using AllocateSequence_rows [OF assms(2) alloc_seq.positive [OF wf]]
    by (simp_all add: done_rows_def done_nums_def)
  have "grant_ok m (seq_next d') (done_nums d) (n, name)" if "n \<noteq> 0"
  proof -
    have new: "seq_next d \<le> n" "n < seq_next d'" "name = seq_name n"
      using alloc_seq.allocated [OF wf assms(2) that] by simp_all
    then have "n \<notin> done_nums d" using done_nums_below [OF assms(1)] by force
    with new assms(1) show ?thesis by (simp add: grant_ok_def traffic_ok_def)
  qed
  then show ?thesis
    using assms(1) wf' mono done_ok_mono [OF _ mono] grant_ok_mono [OF _ mono]
    by (simp add: traffic_ok_def same)
qed

lemma InsertImport_done:
  assumes "InsertImport r d = (i, d')" "status r = Completed"
  shows "done_rows d' = done_rows d \<and> imp_next d' = imp_next d \<or>
         done_rows d' = done_rows d @ [(imp_next d, sequence_id r, output_path r)] \<and> imp_next d' = imp_next d + 1"
  using assms by (auto simp: InsertImport_def send_def done_rows_def split: if_splits)

lemma InsertImport_seq_next: "InsertImport r d = (i, d') \<Longrightarrow> seq_next d' = seq_next d"
  by (auto simp: InsertImport_def send_def split: if_splits)

lemma traffic_ok_insert:
  assumes "traffic_ok m i0 (d, G)" "sq \<in> G"
    "InsertImport (import_of cfg p h sq (out_path_of cfg fld (snd sq)) oh ex fld) d = (i, d')"
  shows "traffic_ok m i0 (d', G - {sq})"
proof -
  obtain n name where sq: "sq = (n, name)" by fastforce
  have g: "grant_ok m (seq_next d) (done_nums d) (n, name)" using assms(1,2) sq by (simp add: traffic_ok_def)
  let ?row = "import_of cfg p h sq (out_path_of cfg fld (snd sq)) oh ex fld"
  have row: "status ?row = Completed" "sequence_id ?row = n" "named_after n (output_path ?row)"
    using g sq out_path_named by (simp_all add: import_of_def grant_ok_def)
  have "db_wf (snd (InsertImport ?row d))" using assms(1) by (intro InsertImport_wf) (simp add: traffic_ok_def)
  then have wf': "db_wf d'" using assms(3) by simp
  note nxt = InsertImport_seq_next [OF assms(3)]
  have others: "fst x \<noteq> n" if "x \<in> G - {sq}" for x
  proof
    assume "fst x = n"
    moreover have "snd x = seq_name (fst x)" using that assms(1) by (simp add: traffic_ok_def grant_ok_def)
    ultimately show False using that sq g by (auto simp: grant_ok_def prod_eq_iff)
  qed
  have G: "\<forall>x \<in> G. grant_ok m (seq_next d) (done_nums d) x" using assms(1) by (simp add: traffic_ok_def)
  from InsertImport_done [OF assms(3) row(1)] show ?thesis
  proof (elim disjE conjE)
    assume "done_rows d' = done_rows d" "imp_next d' = imp_next d"
    with assms(1) wf' nxt traffic_ok_keep [of m i0 d G d'] show ?thesis by (simp add: traffic_ok_def)
  next
    assume new: "done_rows d' = done_rows d @ [(imp_next d, sequence_id ?row, output_path ?row)]"
      "imp_next d' = imp_next d + 1"
    then have nums: "done_nums d' = insert n (done_nums d)" using row(2) by (simp add: done_nums_def)
    have "\<forall>x \<in> G - {sq}. grant_ok m (seq_next d') (done_nums d') x"
      using G others nxt by (simp add: nums grant_ok_def)
    moreover have "done_ok m i0 (seq_next d') (imp_next d, sequence_id ?row, output_path ?row)"
      using row g nxt by (simp add: done_ok_def grant_ok_def)
    moreover have "distinct (map (fst \<circ> snd) (done_rows d'))"
      using new(1) row(2) g assms(1) by (simp add: traffic_ok_def grant_ok_def done_nums_def)
    ultimately show ?thesis using assms(1) wf' nxt new by (simp add: traffic_ok_def)
  qed
qed

inductive_cases hash_stepE: "store_step d (Op_Set_Output_Hash i h) d'"
inductive_cases orient_stepE: "store_step d (Op_Set_Orientation i ori) d'"

lemma import_step_ok:
  assumes "import_step x y" "traffic_ok m i0 x"
  shows "traffic_ok m i0 y"
  using assms(1)
proof cases
  case (t_alloc tok d n name d' G)
  with traffic_ok_alloc assms(2) show ?thesis by blast
next
  case (t_insert sq G cfg p h fld oh ex d i d')
  with traffic_ok_insert assms(2) show ?thesis by blast
next
  case (t_other d op d' G)
  have ok: "traffic_ok m i0 (d, G)" using assms(2) t_other(1) by simp
  then have wf: "db_wf d'" using store_step_wf [OF t_other(3)] by (simp add: traffic_ok_def)
  from side_op_same_tables [OF t_other(3)] t_other(4,5)
  consider i h where "op = Op_Set_Output_Hash i h" | i ori where "op = Op_Set_Orientation i ori"
    | "same_tables d d'" by blast
  then have "done_rows d' = done_rows d \<and> seq_next d' = seq_next d \<and> imp_next d' = imp_next d"
  proof cases
    case (1 i h)
    with t_other(3) obtain b where "UpdateOutputHash i h d = (b, d')" by (auto elim: hash_stepE)
    from update_rows_identity(1) [OF this] done_rows_identity [of d' d] show ?thesis by simp
  next
    case (2 i ori)
    with t_other(3) obtain b where "UpdateOrientation i ori d = (b, d')" by (auto elim: orient_stepE)
    from update_rows_identity(2) [OF this] done_rows_identity [of d' d] show ?thesis by simp
  next
    case 3
    with done_rows_same(1) [OF 3] show ?thesis by (simp add: same_tables_def)
  qed
  with traffic_ok_keep [OF ok wf] t_other(2) show ?thesis by simp
next
  case (t_read d d' G)
  then show ?thesis
    using traffic_ok_keep [of m i0 d G d'] assms(2) done_rows_same(2) [OF t_read(3)]
    by (auto simp: only_sent_def traffic_ok_def db_wf_def)
qed

lemma import_reach_ok: "import_reach x y \<Longrightarrow> traffic_ok m i0 x \<Longrightarrow> traffic_ok m i0 y"
  by (induction rule: import_reach.induct) (auto intro: import_step_ok)

lemma import_step_frame:
  assumes "import_step x y" shows "srv (fst y) = srv (fst x) \<and> (db_wf (fst x) \<longrightarrow> db_wf (fst y))"
  using assms
proof cases
  case (t_alloc tok d n name d' G)
  from t_alloc(3) have "store_step d (Op_Allocate tok) d'" by (rule s_alloc)
  with t_alloc store_step_srv store_step_wf show ?thesis by auto
next
  case (t_insert sq G cfg p h fld oh ex d i d')
  from t_insert(4) have "store_step d (Op_Insert (import_of cfg p h sq (out_path_of cfg fld (snd sq)) oh ex fld)) d'"
    by (rule s_insert)
  with t_insert store_step_srv store_step_wf show ?thesis by auto
next
  case (t_other d op d' G)
  with store_step_srv store_step_wf show ?thesis by auto
next
  case (t_read d d' G)
  then show ?thesis by (auto simp: only_sent_def db_wf_def)
qed

lemma import_reach_frame: "import_reach x y \<Longrightarrow> srv (fst y) = srv (fst x) \<and> (db_wf (fst x) \<longrightarrow> db_wf (fst y))"
  by (induction rule: import_reach.induct) (auto dest: import_step_frame)

section \<open>Output paths never collide\<close>

lemma done_rows_mem:
  "r \<in> set (import_rows d) \<Longrightarrow> status r = Completed \<Longrightarrow> (rec_id r, sequence_id r, output_path r) \<in> set (done_rows d)"
  by (auto simp: done_rows_def)

lemma done_rows_distinct:
  assumes "distinct (map (fst \<circ> snd) (done_rows d))"
    and "r \<in> set (import_rows d)" "s \<in> set (import_rows d)" "status r = Completed" "status s = Completed"
    and "sequence_id r = sequence_id s"
  shows "r = s"
proof -
  have eq: "map (fst \<circ> snd) (done_rows d) = map sequence_id [x \<leftarrow> import_rows d. status x = Completed]"
    by (simp add: done_rows_def)
  from assms(1) have "inj_on sequence_id (set [x \<leftarrow> import_rows d. status x = Completed])"
    unfolding eq distinct_map by simp
  with assms(2-) show ?thesis by (auto dest: inj_onD)
qed

lemma completed_paths_differ:
  assumes "traffic_ok m i0 (d, G)"
    and "r \<in> set (import_rows d)" "s \<in> set (import_rows d)" "status r = Completed" "status s = Completed"
    and "r \<noteq> s"
  shows "output_path r \<noteq> output_path s"
proof
  assume eq: "output_path r = output_path s"
  have "named_after (sequence_id r) (output_path r)" "named_after (sequence_id s) (output_path s)"
    using assms(1) done_rows_mem [OF assms(2,4)] done_rows_mem [OF assms(3,5)]
    by (auto simp: traffic_ok_def done_ok_def)
  with eq have "sequence_id r = sequence_id s" using named_after_inject by metis
  moreover have "distinct (map (fst \<circ> snd) (done_rows d))" using assms(1) by (simp add: traffic_ok_def)
  ultimately have "r = s" using done_rows_distinct assms(2-5) by blast
  with assms(6) show False ..
qed

text \<open>
  Conversions never share an output file: start from a database in which completed rows have
  their own number and are published under it; then, whatever the worker threads and the other
  clients do, in whatever order, over any number of restarts and configurations, two different
  completed imports never have the same output path.
\<close>

theorem outputs_never_collide:
  assumes "traffic_ok 0 0 (d0, {})" "import_reach (d0, {}) (d, G)"
    and "r \<in> set (import_rows d)" "s \<in> set (import_rows d)" "status r = Completed" "status s = Completed"
    and "r \<noteq> s"
  shows "output_path r \<noteq> output_path s"
  by (rule completed_paths_differ [OF import_reach_ok [OF assms(2,1)] assms(3-7)])

definition demo_row :: "int \<times> string \<Rightarrow> import_record" where
  "demo_row sq = import_of default_config ''/watch/a.nef'' ''ab'' sq (out_path_of default_config ''2024'' (snd sq)) ''cd''
     \<lparr>ex_date = [], ex_time = [], ex_source = Mtime\<rparr> ''2024''"

definition traffic_db :: "nat \<Rightarrow> db" where
  "traffic_db k = (let d1 = snd (AllocateSequence ''x'' (empty_db good_server));
       d2 = snd (AllocateSequence ''y'' d1)
     in if k = 0 then empty_db good_server else if k = 1 then d1 else if k = 2 then d2
        else snd (InsertImport (demo_row (1, ''IMG_1'')) (snd (InsertImport (demo_row (2, ''IMG_2'')) d2))))"

lemma demo_traffic: "import_reach (empty_db good_server, {}) (traffic_db 3, {})"
proof -
  obtain d1 where d1: "AllocateSequence ''x'' (empty_db good_server) = ((1, ''IMG_1''), d1)"
    using demo_alloc by (metis prod.collapse)
  have "fst (AllocateSequence ''y'' (snd (AllocateSequence ''x'' (empty_db good_server)))) = (2, ''IMG_2'')"
    by code_simp
  then obtain d2 where d2: "AllocateSequence ''y'' d1 = ((2, ''IMG_2''), d2)"
    using d1 by (metis prod.collapse snd_conv)
  obtain i d3 where d3: "InsertImport (demo_row (2, ''IMG_2'')) d2 = (i, d3)" by fastforce
  obtain j d4 where d4: "InsertImport (demo_row (1, ''IMG_1'')) d3 = (j, d4)" by fastforce
  have "import_reach (empty_db good_server, {}) (d1, {(1, ''IMG_1'')})"
    using import_reach_one [OF t_alloc [OF d1, of "{}"]] by simp
  from ir_step [OF this t_alloc [OF d2]]
  have "import_reach (empty_db good_server, {}) (d2, {(2, ''IMG_2''), (1, ''IMG_1'')})" by simp
  from ir_step [OF this t_insert [OF _ d3 [unfolded demo_row_def]]]
  have "import_reach (empty_db good_server, {}) (d3, {(1, ''IMG_1'')})" by simp
  from ir_step [OF this t_insert [OF _ d4 [unfolded demo_row_def]]]
  have "import_reach (empty_db good_server, {}) (d4, {})" by simp
  moreover have "traffic_db 3 = d4" using d1 d2 d3 d4 by (simp add: traffic_db_def)
  ultimately show ?thesis by simp
qed

lemma empty_traffic_ok: "traffic_ok 0 0 (empty_db sv, {})"
  using empty_db_wf by (simp add: traffic_ok_def done_rows_def empty_db_def)

lemma demo_traffic_rows:
  "map (\<lambda>r. (rec_id r, status r)) (import_rows (traffic_db 3)) = [(1, Completed), (2, Completed)]"
  unfolding traffic_db_def demo_row_def by code_simp

theorem outputs_never_collide_witness:
  "\<exists>r s. import_rows (traffic_db 3) = [r, s] \<and> output_path r \<noteq> output_path s"
proof -
  obtain r s where rs: "import_rows (traffic_db 3) = [r, s]" "status r = Completed" "status s = Completed"
    "rec_id r = 1" "rec_id s = 2"
    using demo_traffic_rows by (auto simp: map_eq_Cons_conv)
  moreover have "r \<noteq> s" using rs(4,5) by auto
  ultimately show ?thesis
    using outputs_never_collide [OF empty_traffic_ok demo_traffic, of r s] by simp
qed

section \<open>New outputs and the library found at start\<close>

lemma traffic_ok_fewer: "traffic_ok m i0 (d, G) \<Longrightarrow> H \<subseteq> G \<Longrightarrow> traffic_ok m i0 (d, H)"
  by (auto simp: traffic_ok_def)

lemma same_tables_traffic:
  "same_tables d d' \<Longrightarrow> traffic_ok m i0 (d, G) \<Longrightarrow> traffic_ok m i0 (d', G)"
  using traffic_ok_keep [of m i0 d G d'] same_tables_wf [of d d'] done_rows_same(1) [of d d']
  by (simp add: same_tables_def traffic_ok_def)

lemma legacy_insert_traffic:
  assumes "traffic_ok 0 0 (d, G)" "InsertImport r d = (i, d')" "status r = Legacy"
  shows "traffic_ok 0 0 (d', G)"
proof -
  have "db_wf (snd (InsertImport r d))" using assms(1) by (intro InsertImport_wf) (simp add: traffic_ok_def)
  then have wf: "db_wf d'" using assms(2) by simp
  have rows: "done_rows d' = done_rows d" "imp_next d \<le> imp_next d'"
    using assms(2,3) by (auto simp: InsertImport_def send_def done_rows_def split: if_splits)
  with assms(1) wf InsertImport_seq_next [OF assms(2)] show ?thesis
    by (simp add: traffic_ok_def done_nums_def)
qed

lemma scan_library_traffic:
  assumes "traffic_ok 0 0 (d, {})"
  shows "traffic_ok 0 0 (sc_db (scan_library cfg sha cwd walk d), {})"
proof (rule scan_library_inv [where Q = "\<lambda>x. traffic_ok 0 0 (x, {})"])
  fix root p ab n x
  assume ok: "traffic_ok 0 0 (x, {})"
  obtain i x' where ins: "InsertImport (legacy_record sha root p ab n) x = (i, x')" by fastforce
  have "status (legacy_record sha root p ab n) = Legacy" by (simp add: legacy_record_def)
  from legacy_insert_traffic [OF ok ins this]
  show "traffic_ok 0 0 (snd (InsertImport (legacy_record sha root p ab n) x), {})" using ins by simp
next
  show "traffic_ok 0 0 (x\<lparr>stmt_no := Suc (stmt_no x)\<rparr>, {})" if "traffic_ok 0 0 (x, {})" for x
    using import_step_ok [OF t_read that] by (auto simp: only_sent_def)
qed (rule assms)

lemma reserve_traffic:
  "traffic_ok 0 0 (d, {}) \<Longrightarrow> traffic_ok 0 0 (snd (reserve AllocateSequence tok k m d), {})"
proof (induction k arbitrary: d)
  case (Suc k)
  obtain n name d1 where a: "AllocateSequence (tok k) d = ((n, name), d1)" by (metis prod.exhaust)
  have "traffic_ok 0 0 (d1, {})"
    using traffic_ok_alloc [OF Suc.prems a] by (rule traffic_ok_fewer) simp
  with Suc.IH a show ?case by simp
qed simp

text \<open>The floor a successful reconciliation leaves: the largest number found.\<close>

lemma reconcile_floor:
  assumes "traffic_ok 0 0 (d, {})" "ReconcileLibrary cfg sha cwd walk tok d = (True, d')"
  shows "traffic_ok (max 0 (sc_max (scan_library cfg sha cwd walk d))) (imp_next d') (d', {})"
proof -
  define sc where "sc = scan_library cfg sha cwd walk d"
  have ok: "traffic_ok 0 0 (sc_db sc, {})" using scan_library_traffic [OF assms(1)] by (simp add: sc_def)
  then have wf: "db_wf (sc_db sc)" by (simp add: traffic_ok_def)
  have "traffic_ok 0 0 (d', {}) \<and> max 0 (sc_max sc) < seq_next d'"
  proof (cases "sc_max sc > 0")
    case True
    then have r: "reserve AllocateSequence tok (nat (sc_max sc)) (sc_max sc) (sc_db sc) = (True, d')"
      using assms(2) by (simp add: ReconcileLibrary_def sc_def [symmetric])
    from alloc_seq.reserve_past [OF wf r True] True reserve_traffic [OF ok, of tok "nat (sc_max sc)" "sc_max sc"] r
    show ?thesis by simp
  next
    case False
    then have "d' = sc_db sc" using assms(2) by (simp add: ReconcileLibrary_def sc_def [symmetric])
    with ok False alloc_seq.positive [OF wf] show ?thesis by simp
  qed
  moreover have "done_ok m (imp_next d') (seq_next d') x"
    if "x \<in> set (done_rows d')" "done_ok 0 0 (seq_next d') x" "db_wf d'" for x m
    using that by (auto simp: done_rows_def done_ok_def db_wf_def imports_wf_def)
  ultimately show ?thesis unfolding sc_def [symmetric] by (auto simp: traffic_ok_def)
qed

lemma img_number_named:
  assumes "named_after n p" "0 \<le> n" "n \<le> int64_max"
  shows "img_number p = Some n"
  using assms img_match_seq_name [of n] strtoll_dec_int [of n]
  by (simp add: img_number_def named_after_def)

definition library_files :: "config \<Rightarrow> (path \<Rightarrow> (path \<times> bool) list option) \<Rightarrow> path set" where
  "library_files cfg walk =
     {p. \<exists>root es. root \<in> {output_dir cfg, archive_dir cfg} \<and> root \<noteq> [] \<and> walk root = Some es \<and> (p, True) \<in> set es}"

text \<open>
  Import traffic never converts onto a file the start found: after a start whose number reservation
  went through, the output path of every import completed from then on, by any thread, in any
  interleaving and with any later configuration, is none of the files the start-up scan listed
  in the output and archive trees.
\<close>

theorem new_outputs_fresh:
  assumes "traffic_ok 0 0 (d0, {})" "main_start h d0 = (Booted sv, d1)" "sv_reserved sv"
    and "import_reach (d1, {}) (d2, G)" "seq_next d2 \<le> int64_max"
    and "r \<in> set (import_rows d2)" "status r = Completed" "imp_next d1 \<le> rec_id r"
  shows "output_path r \<notin> library_files (sv_cfg sv) (h_walk h)"
proof
  assume lib: "output_path r \<in> library_files (sv_cfg sv) (h_walk h)"
  from assms(2) obtain d where d: "same_tables d0 d" "sv_cfg sv = host_config h"
      "ReconcileLibrary (host_config h) (h_sha h) (h_cwd h) (h_walk h) (h_tok h) d = (True, d1)"
    using assms(3) by (cases rule: main_start_cases) auto
  define m where "m = max 0 (sc_max (scan_library (host_config h) (h_sha h) (h_cwd h) (h_walk h) d))"
  have "traffic_ok m (imp_next d1) (d1, {})"
    unfolding m_def by (rule reconcile_floor [OF same_tables_traffic [OF d(1) assms(1)] d(3)])
  from import_reach_ok [OF assms(4) this] done_rows_mem [OF assms(6,7)] assms(8)
  have n: "named_after (sequence_id r) (output_path r)" "m < sequence_id r" "sequence_id r < seq_next d2"
    by (auto simp: traffic_ok_def done_ok_def)
  then have "img_number (output_path r) = Some (sequence_id r)"
    using img_number_named assms(5) by (simp add: m_def)
  with lib d(2) have "sequence_id r \<in> found_numbers (host_config h) (h_walk h)"
    by (auto simp: library_files_def found_numbers_def)
  from scan_library_max [OF this, of "h_sha h" "h_cwd h" d] n(2) show False by (simp add: m_def)
qed

definition demo_host :: host where
  "demo_host = \<lparr>h_environ = Map.empty, h_dotenv = None, h_init = True, h_connects = (\<lambda>_. True), h_dir_ok = (\<lambda>_. True),
     h_entries = (\<lambda>_. []), h_text = (\<lambda>_. []), h_sha = (\<lambda>_. ''ab''), h_cwd = ''/'', h_walk = example_walk,
     h_tok = (\<lambda>_. ''x''), h_fs = \<lparr>files = Map.empty, dirs = {}\<rparr>, h_run = (\<lambda>_ _. 0)\<rparr>"

definition start_db :: db where
  "start_db = (empty_db good_server)\<lparr>seq_next := 3\<rparr>"

lemma start_db_ok: "traffic_ok 0 0 (start_db, {})"
proof -
  have "db_wf start_db" using empty_db_wf [of good_server]
    by (simp add: start_db_def db_wf_def seqs_wf_def imports_wf_def empty_db_def)
  then show ?thesis by (simp add: traffic_ok_def done_rows_def start_db_def empty_db_def)
qed

lemma demo_host_dirs: "output_dir (host_config demo_host) = ''/output''" "archive_dir (host_config demo_host) = ''/archive''"
  unfolding demo_host_def by code_simp+

lemma ReconcileLibrary_dirs:
  "output_dir cfg = output_dir cfg' \<Longrightarrow> archive_dir cfg = archive_dir cfg' \<Longrightarrow>
   ReconcileLibrary cfg sha cwd walk tok d = ReconcileLibrary cfg' sha cwd walk tok d"
  by (simp add: ReconcileLibrary_def scan_library_def)

lemma demo_reconcile:
  "let r = ReconcileLibrary default_config (\<lambda>_. ''ab'') ''/'' example_walk (\<lambda>_. ''x'') (start_db\<lparr>stmt_no := Suc 0\<rparr>)
   in fst r \<and> seq_next (snd r) = 4 \<and> imp_next (snd r) = 1 \<and>
      (let a = AllocateSequence ''y'' (snd r); i = InsertImport (demo_row (fst a)) (snd a)
       in fst a = (4, ''IMG_4'') \<and> seq_next (snd i) = 5 \<and>
          map (\<lambda>x. (rec_id x, status x)) (import_rows (snd i)) = [(1, Completed)])"
  unfolding start_db_def by code_simp

lemma demo_start:
  "\<exists>sv d1 d2 i d3. main_start demo_host start_db = (Booted sv, d1) \<and> sv_reserved sv \<and>
     sv_cfg sv = host_config demo_host \<and> imp_next d1 = 1 \<and> AllocateSequence ''y'' d1 = ((4, ''IMG_4''), d2) \<and>
     InsertImport (demo_row (4, ''IMG_4'')) d2 = (i, d3) \<and> seq_next d3 = 5 \<and>
     map (\<lambda>x. (rec_id x, status x)) (import_rows d3) = [(1, Completed)]"
proof -
  obtain b d1 where r: "ReconcileLibrary default_config (\<lambda>_. ''ab'') ''/'' example_walk (\<lambda>_. ''x'') (start_db\<lparr>stmt_no := Suc 0\<rparr>) = (b, d1)"
    by fastforce
  have op: "Open True (\<lambda>_. True) start_db = (True, start_db)"
    by (simp add: Open_def connect_attempts_iff start_db_def empty_db_def numeral_eq_Suc)
  have mg: "Migrate True [] rd start_db = (True, start_db\<lparr>stmt_no := Suc 0\<rparr>)" for rd
    by (simp add: Migrate_def sql_files_def send_def start_db_def empty_db_def)
  have dirs: "output_dir (host_config demo_host) = output_dir default_config"
    "archive_dir (host_config demo_host) = archive_dir default_config"
    using demo_host_dirs by (simp_all add: default_config_def)
  have rec: "ReconcileLibrary (host_config demo_host) (\<lambda>_. ''ab'') ''/'' example_walk (\<lambda>_. ''x'') (start_db\<lparr>stmt_no := Suc 0\<rparr>) = (b, d1)"
    unfolding ReconcileLibrary_dirs [OF dirs] by (rule r)
  have h: "h_init demo_host = True" "h_connects demo_host = (\<lambda>_. True)" "h_dir_ok demo_host = (\<lambda>_. True)"
    "h_entries demo_host = (\<lambda>_. [])" "h_sha demo_host = (\<lambda>_. ''ab'')" "h_cwd demo_host = ''/''"
    "h_walk demo_host = example_walk" "h_tok demo_host = (\<lambda>_. ''x'')"
    by (simp_all add: demo_host_def)
  have "main_start demo_host start_db = (Booted \<lparr>sv_cfg = host_config demo_host, sv_reserved = b,
      sv_engine = MakeConverter (h_fs demo_host) (host_config demo_host),
      sv_engine_ok = engine_Available (h_run demo_host) (MakeConverter (h_fs demo_host) (host_config demo_host)),
      sv_embedder = MakeEmbedder (h_fs demo_host) (host_config demo_host)\<rparr>, d1)"
    by (simp add: main_start_def Let_def h op mg rec)
  moreover obtain q d2 where a: "AllocateSequence ''y'' d1 = (q, d2)" by fastforce
  moreover obtain i d3 where "InsertImport (demo_row q) d2 = (i, d3)" by fastforce
  ultimately show ?thesis using demo_reconcile r by (auto simp: Let_def)
qed

theorem new_outputs_fresh_witness:
  "\<exists>sv d1 d3 r. main_start demo_host start_db = (Booted sv, d1) \<and> import_rows d3 = [r] \<and>
     import_reach (d1, {}) (d3, {}) \<and> output_path r \<notin> library_files (sv_cfg sv) (h_walk demo_host) \<and>
     ''/output/2024/IMG_2.dng'' \<in> library_files (sv_cfg sv) (h_walk demo_host)"
proof -
  obtain sv d1 d2 i d3 where s: "main_start demo_host start_db = (Booted sv, d1)" "sv_reserved sv"
      "sv_cfg sv = host_config demo_host" "imp_next d1 = 1" "AllocateSequence ''y'' d1 = ((4, ''IMG_4''), d2)"
      "InsertImport (demo_row (4, ''IMG_4'')) d2 = (i, d3)" "seq_next d3 = 5"
      "map (\<lambda>x. (rec_id x, status x)) (import_rows d3) = [(1, Completed)]"
    using demo_start that by (elim exE conjE)
  obtain r where r: "import_rows d3 = [r]" "rec_id r = 1" "status r = Completed" using s(8) by auto
  have "import_reach (d1, {}) (d2, {(4, ''IMG_4'')})" using import_reach_one [OF t_alloc [OF s(5), of "{}"]] by simp
  from ir_step [OF this t_insert [OF _ s(6) [unfolded demo_row_def]]]
  have reach: "import_reach (d1, {}) (d3, {})" by simp
  have "''/output/2024/IMG_2.dng'' \<in> library_files (sv_cfg sv) (h_walk demo_host)"
    using s(3) demo_host_dirs by (auto simp: library_files_def demo_host_def example_walk_def)
  moreover have "output_path r \<notin> library_files (sv_cfg sv) (h_walk demo_host)"
    using new_outputs_fresh [OF start_db_ok s(1,2) reach _ _ r(3)] r s(4,7) by simp
  ultimately show ?thesis using s(1) r(1) reach by blast
qed

section \<open>Processing a file is import traffic\<close>

lemma dead_letter_traffic: "import_reach (w_db s, G) (w_db (move_to_dead_letter cfg a p s), G)"
proof -
  have alert: "import_reach (d, G) (snd (InsertAlert sv c m f d), G)" for d sv c m f
    by (rule import_reach_one [OF t_other [OF s_alert [OF prod.collapse [symmetric]]]]) simp_all
  show ?thesis
    by (auto simp: move_to_dead_letter_def Let_def split_beta ir_start alert)
qed

lemma engine_stage_db: "w_db (snd (engine_stage cfg a p fld name s)) = w_db s"
  by (auto simp: engine_stage_def Let_def split_beta split: option.split)

lemma convert_stage_traffic:
  "\<exists>G'. import_reach (w_db s, G) (w_db (convert_stage cfg D a p h s), G')"
proof -
  obtain n name d1 where al: "AllocateSequence (a_tok a) (w_db s) = ((n, name), d1)" by (metis prod.exhaust)
  have one: "import_reach (w_db s, G) (d1, if n = 0 then G else insert (n, name) G)"
    by (rule import_reach_one [OF t_alloc [OF al]])
  define s3 where "s3 = on_met (observe_db_duration (a_rnd a) (a_dur a 3))
      (snd (on_db (AllocateSequence (a_tok a)) (on_met (observe_exif_duration (a_rnd a) (a_dur a 2)) s)))"
  have s3: "w_db s3 = d1" by (simp add: s3_def al)
  show ?thesis
  proof (cases "n = 0")
    case True
    then have "convert_stage cfg D a p h s = move_to_dead_letter cfg a p s3"
      by (simp add: convert_stage_def Let_def split_beta s3_def al)
    then have "import_reach (d1, G) (w_db (convert_stage cfg D a p h s), G)"
      using dead_letter_traffic [of s3 G cfg a p] s3 by simp
    from import_reach_trans [OF this] one True show ?thesis by (intro exI [of _ G]) simp
  next
    case False
    define ex where "ex = exif_stage a p (w_fs s)"
    define fld where "fld = build_folder_schema (cfg_folder_schema cfg) (ex_date ex)"
    obtain conv s5 where e: "engine_stage cfg a p fld name s3 = (conv, s5)" by fastforce
    have s5: "w_db s5 = d1" using engine_stage_db [of cfg a p fld name s3] e s3 by simp
    have db: "w_db (convert_stage cfg D a p h s) =
        (if conv then w_db (finish_import cfg D a p h (n, name) ex fld s5)
         else w_db (move_to_dead_letter cfg a p (on_met (inc_conversions_completed ''failed'' 1) s5)))"
      using False e by (simp add: convert_stage_def Let_def split_beta al s3_def [symmetric] result_stage_def
          ex_def [symmetric] fld_def [symmetric])
    show ?thesis
    proof (cases conv)
      case True
      obtain i d' where ins: "InsertImport (import_of cfg p h (n, name) (out_path_of cfg fld (snd (n, name)))
          (sha256_file D (w_fs s5) (out_path_of cfg fld (snd (n, name)))) ex fld) d1 = (i, d')"
        by (metis prod.exhaust)
      then have "w_db (convert_stage cfg D a p h s) = d'" using True db s5 by simp
      with ir_step [OF one t_insert [OF _ ins]] False show ?thesis by auto
    next
      case failed: False
      from dead_letter_traffic [of "on_met (inc_conversions_completed ''failed'' 1) s5" _ cfg a p] s5 failed db
      have "import_reach (d1, insert (n, name) G)
          (w_db (convert_stage cfg D a p h s), insert (n, name) G)" by simp
      from import_reach_trans [OF this] one False show ?thesis by (intro exI [of _ "insert (n, name) G"]) simp
    qed
  qed
qed

lemma ProcessFile_step: "\<exists>G'. import_reach (w_db s, G) (w_db (ProcessFile cfg D a p s), G')"
proof -
  define s1 where "s1 = snd (hash_stage cfg D a p (on_met (inc_files_detected 1) s))"
  define hsh where "hsh = fst (hash_stage cfg D a p (on_met (inc_files_detected 1) s))"
  have s1: "w_db s1 = w_db s" by (simp add: s1_def)
  define s2 where "s2 = snd (on_db (GetImportByHash hsh) s1)"
  have rd: "import_reach (w_db s, G) (w_db s2, G)"
    using import_reach_one [OF t_read [OF reads_only_sent(2)]] s1 by (simp add: s2_def)
  have dup: "w_db (duplicate_stage cfg a p s2) = w_db s2" by (simp add: duplicate_stage_def Let_def)
  obtain G' where conv: "import_reach (w_db s2, G) (w_db (convert_stage cfg D a p hsh s2), G')"
    using convert_stage_traffic by blast
  have "ProcessFile cfg D a p s = (if hsh = [] then move_to_dead_letter cfg a p s1
      else if fst (on_db (GetImportByHash hsh) s1) \<noteq> None then duplicate_stage cfg a p s2
      else convert_stage cfg D a p hsh s2)"
    by (simp add: ProcessFile_def split_beta s1_def hsh_def s2_def Let_def)
  then show ?thesis
    using dead_letter_traffic [of s1 G cfg a p] s1 rd dup import_reach_trans [OF conv rd] by auto
qed

lemma loop_step_reach: "\<exists>G'. import_reach (w_db s, G) (w_db (loop_step cfg D e s), G')"
proof (cases e)
  case (Others f)
  then show ?thesis by (intro exI [of _ G]) (simp add: ir_start)
next
  case (Own_Turn a)
  show ?thesis
  proof (cases rule: worker_turn_cases [where s = s and cfg = cfg and D = D and a = a])
    case 1
    then show ?thesis using Own_Turn by (intro exI [of _ G]) (simp add: ir_start)
  next
    case (2 p w)
    then show ?thesis using Own_Turn ProcessFile_step [of "s\<lparr>w_pool := w\<rparr>" G cfg D a p] by simp
  qed
qed

text \<open>
  Whatever a worker thread meets on its way, the database changes of a whole run of its loop are
  import steps, whatever the other threads do to the shared queue.
\<close>

lemma worker_run_reach: "\<exists>G'. import_reach (w_db s, G) (w_db (worker_loop cfg D evs s), G')"
proof (induction evs arbitrary: s G)
  case Nil
  have "import_reach (w_db s, G) (w_db (worker_loop cfg D [] s), G)" by (simp add: worker_loop_def ir_start)
  then show ?case ..
next
  case (Cons e evs)
  obtain G1 where one: "import_reach (w_db s, G) (w_db (loop_step cfg D e s), G1)" using loop_step_reach by blast
  obtain G2 where two:
    "import_reach (w_db (loop_step cfg D e s), G1) (w_db (worker_loop cfg D evs (loop_step cfg D e s)), G2)"
    using Cons by blast
  from import_reach_trans [OF two one] show ?case by (intro exI [of _ G2]) (simp add: worker_loop_def)
qed

end
