(* ===== verification/Lifecycle.thy ===== *)
theory Lifecycle
  imports Service
begin

text \<open>
  The running program: \<open>ApiServer::Run\<close> with its accept loop and \<open>Stop\<close> (\<open>src/src/api.cpp\<close>),
  the connection attempts of a worker thread (\<open>src/src/worker.cpp\<close>), and the shutdown sequence
  at the end of \<open>main\<close> (\<open>src/src/main.cpp\<close>). The results: what clients without the token can do
  over any number of connections, and which rotation intents a shutdown still carries out.
\<close>

section \<open>The listening socket\<close>

record listener =
  ls_open :: bool
  ls_thread :: bool
  ls_stop :: bool

definition new_listener :: listener where
  "new_listener = \<lparr>ls_open = False, ls_thread = False, ls_stop = False\<rparr>"

text \<open>\<open>Run\<close>: every failure returns silently; the caller is not told.\<close>

definition api_Run :: "bool \<Rightarrow> bool \<Rightarrow> bool \<Rightarrow> listener \<Rightarrow> listener" where
  "api_Run sock bound listening l =
     (if \<not> sock then l else if \<not> bound then l else if \<not> listening then l
      else l\<lparr>ls_open := True, ls_thread := True\<rparr>)"

text \<open>
  \<open>Stop\<close> closes the descriptor and joins the accept thread. \<open>wakes\<close>: the blocked \<open>accept\<close>
  returns once its descriptor is closed by another thread (or a client connects); if it does not,
  the join never ends, which is \<open>None\<close>.
\<close>

definition api_Stop :: "bool \<Rightarrow> listener \<Rightarrow> listener option" where
  "api_Stop wakes l =
     (if ls_stop l then Some l
      else if ls_thread l \<and> \<not> wakes then None
      else Some (l\<lparr>ls_stop := True, ls_open := False, ls_thread := False\<rparr>))"

section \<open>Serving connections\<close>

text \<open>A request that arrives in one piece.\<close>

lemma read_request_one:
  "buf \<noteq> [] \<Longrightarrow> read_request [buf] =
     (case find_sub (crlf @ crlf) (c_str buf) of
        None \<Rightarrow> Some (c_str buf)
      | Some hpos \<Rightarrow> if int (hpos + 4) + content_length (c_str buf) > int64_max then None else Some (c_str buf))"
  by (simp add: read_request_def Let_def split: option.split)

text \<open>What an accepted connection delivers, and what its handler meets.\<close>

record accepted =
  ac_bufs :: "string list"
  ac_alive :: bool
  ac_sha :: "path \<Rightarrow> string"
  ac_now :: int
  ac_metrics :: string

definition enter :: "accepted \<Rightarrow> api_state \<Rightarrow> api_state" where
  "enter c s = s\<lparr>as_alive := ac_alive c, as_sha := ac_sha c, as_now := ac_now c, as_metrics := ac_metrics c\<rparr>"

definition serve_one :: "accepted \<Rightarrow> api_state \<Rightarrow> handler_result" where
  "serve_one c s =
     (case read_request (ac_bufs c) of
        None \<Rightarrow> (Undefined, enter c s)
      | Some req \<Rightarrow> handle req (enter c s))"

definition is_reply :: "api_result \<Rightarrow> bool" where
  "is_reply r = (case r of Reply _ _ _ \<Rightarrow> True | _ \<Rightarrow> False)"

text \<open>
  The accept loop: one connection at a time, in order; \<open>None\<close> is a failing \<open>accept\<close>. An
  uncaught exception or undefined behaviour ends it (the process is gone).
\<close>

fun serve :: "accepted option list \<Rightarrow> api_state \<Rightarrow> api_result list \<times> api_state" where
  "serve [] s = ([], s)"
| "serve (None # cs) s = serve cs s"
| "serve (Some c # cs) s =
     (let (r, s1) = serve_one c s
      in if is_reply r then (let (rs, s2) = serve cs s1 in (r # rs, s2)) else ([r], s1))"

text \<open>A connection whose text holds the token nowhere, and whose length does not overflow.\<close>

definition anonymous :: "string \<Rightarrow> accepted \<Rightarrow> bool" where
  "anonymous token c \<longleftrightarrow>
     (case read_request (ac_bufs c) of None \<Rightarrow> False | Some req \<Rightarrow> \<not> contains req (''Bearer '' @ token))"

lemma serve_one_anonymous:
  assumes "api_token (as_cfg s) \<noteq> []" "anonymous (api_token (as_cfg s)) c"
  shows "snd (serve_one c s) = enter c s \<and> is_reply (fst (serve_one c s))"
proof -
  obtain req where req: "read_request (ac_bufs c) = Some req" "\<not> sublist (''Bearer '' @ api_token (as_cfg s)) req"
    using assms(2) by (auto simp: anonymous_def contains_sublist split: option.splits)
  have cfg: "as_cfg (enter c s) = as_cfg s" by (simp add: enter_def)
  obtain code body ty where "snd (handle req (enter c s)) = enter c s"
      "fst (handle req (enter c s)) = Reply code body ty"
    using no_token_handled [of "enter c s" req, unfolded cfg, OF assms(1) req(2)] by blast
  then show ?thesis by (simp add: serve_one_def req(1) is_reply_def)
qed

text \<open>
  Clients without the token are harmless over any number of connections: with a token
  configured, a sequence of requests none of which holds \<open>Bearer <token>\<close> gets one answer each,
  never ends the process, and leaves the database and the rotation queue untouched, provided no
  \<open>Content-Length\<close> overflows (that is read before the token is checked).
\<close>

theorem anonymous_clients_harmless:
  assumes "api_token (as_cfg s) \<noteq> []"
    and "\<forall>c. Some c \<in> set cs \<longrightarrow> anonymous (api_token (as_cfg s)) c"
  shows "as_db (snd (serve cs s)) = as_db s \<and> as_rot (snd (serve cs s)) = as_rot s \<and>
         length (fst (serve cs s)) = length (filter (\<lambda>c. c \<noteq> None) cs) \<and>
         list_all is_reply (fst (serve cs s))"
  using assms
proof (induction cs s rule: serve.induct)
  case (3 c cs s)
  have one: "snd (serve_one c s) = enter c s" "is_reply (fst (serve_one c s))"
    using serve_one_anonymous 3(2,3) by auto
  then obtain r where r: "serve_one c s = (r, enter c s)" "is_reply r" by (metis prod.collapse)
  have "as_cfg (enter c s) = as_cfg s" "as_db (enter c s) = as_db s" "as_rot (enter c s) = as_rot s"
    by (simp_all add: enter_def)
  with 3(1) [OF r(1) [symmetric] refl r(2)] 3(2,3) r show ?case by (simp add: split_beta)
qed simp_all

definition stats_conn :: accepted where
  "stats_conn = \<lparr>ac_bufs = [get_stats_req], ac_alive = True, ac_sha = (\<lambda>_. []), ac_now = 0, ac_metrics = []\<rparr>"

theorem anonymous_clients_harmless_witness:
  "length (fst (serve [Some stats_conn, None, Some stats_conn] (api_demo ''secret'' two_imports))) = 2 \<and>
   as_db (snd (serve [Some stats_conn, None, Some stats_conn] (api_demo ''secret'' two_imports))) = two_imports"
proof -
  have "get_stats_req \<noteq> []" "c_str get_stats_req = get_stats_req" "content_length get_stats_req = 0"
      "\<not> contains get_stats_req (''Bearer '' @ ''secret'')" by code_simp+
  moreover have "map_option (\<lambda>h. h < 100) (find_sub (crlf @ crlf) get_stats_req) = Some True" by code_simp
  ultimately have "anonymous ''secret'' stats_conn"
    by (auto simp: anonymous_def stats_conn_def read_request_one int64_max_def)
  then show ?thesis
    using anonymous_clients_harmless [of "api_demo ''secret'' two_imports" "[Some stats_conn, None, Some stats_conn]"]
    by (simp add: api_demo_def)
qed

text \<open>A request whose \<open>Content-Length\<close> is the largest \<open>long\<close>.\<close>

definition huge_length_req :: string where
  "huge_length_req = ''GET / HTTP/1.1'' @ crlf @ ''Content-Length: 9223372036854775807'' @ crlf @ crlf"

lemma huge_length: "content_length huge_length_req = int64_max"
proof -
  have f: "find_sub ''Content-Length:'' huge_length_req = Some 16" "str_find huge_length_req crlf 16 = Some 51"
    "substr huge_length_req (16 + 15) (51 - (16 + 15)) = '' 9223372036854775807''" by code_simp+
  have "stol '' 9223372036854775807'' = Inr int64_max"
    by (simp add: stol_def scan_int_def strip_sign_def isspace_def isdigit_def dec_val_def digit_val_def
        int64_max_def int64_min_def)
  with f show ?thesis by (simp add: content_length_def)
qed

text \<open>
  The length check comes before the token: in every state, whatever token is configured, one
  short request without it, with the largest \<open>long\<close> as its \<open>Content-Length\<close>, makes \<open>header_len + cl\<close>
  overflow, which is undefined behaviour.
\<close>

theorem content_length_overflow:
  "fst (serve [Some (stats_conn\<lparr>ac_bufs := [huge_length_req]\<rparr>)] s) = [Undefined]"
proof -
  have "huge_length_req \<noteq> []" "c_str huge_length_req = huge_length_req"
    "find_sub (crlf @ crlf) huge_length_req \<noteq> None" by code_simp+
  then have "read_request [huge_length_req] = None" by (auto simp: read_request_one huge_length)
  then show ?thesis by (simp add: serve_one_def is_reply_def stats_conn_def)
qed

section \<open>A worker thread's connection\<close>

text \<open>
  \<open>WorkerThread\<close> tries five times while the service is not stopping; a thread without a
  connection ends without a trace.
\<close>

fun worker_connect :: "nat \<Rightarrow> (nat \<Rightarrow> bool) \<Rightarrow> (nat \<Rightarrow> bool) \<Rightarrow> nat \<Rightarrow> bool" where
  "worker_connect 0 stopped connects k = False"
| "worker_connect (Suc n) stopped connects k =
     (if stopped k then False
      else if connects k then True
      else worker_connect n stopped connects (Suc k))"

definition worker_thread ::
  "config \<Rightarrow> ('c, 'm) digest_scheme \<Rightarrow> (nat \<Rightarrow> bool) \<Rightarrow> (nat \<Rightarrow> bool) \<Rightarrow> loop_event list \<Rightarrow> world \<Rightarrow> world" where
  "worker_thread cfg D stopped connects evs s =
     (if worker_connect 5 stopped connects 0 then worker_loop cfg D evs s else s)"

section \<open>Shutdown\<close>

text \<open>
  The end of \<open>main\<close>: the API server, the workers, the rotation manager, the database. The join
  of the workers always ends (their loops test the stop flag every second). \<open>None\<close>: \<open>main\<close> hangs
  in the first of them.
\<close>

definition main_stop :: "bool \<Rightarrow> rot_cfg \<Rightarrow> listener \<Rightarrow> pendings \<Rightarrow> rot_world \<Rightarrow> rot_world option" where
  "main_stop wakes rc l pend s =
     (case api_Stop wakes l of
        None \<Rightarrow> None
      | Some l' \<Rightarrow> Some (rot_on_db (\<lambda>d. ((), Close d)) (stop_dispatch rc pend s)))"

text \<open>What dispatching intents does to the stored orientations.\<close>

definition set_orientations :: "pendings \<Rightarrow> import_record list \<Rightarrow> import_record list" where
  "set_orientations pend rows =
     map (\<lambda>r. case map_of pend (rec_id r) of None \<Rightarrow> r | Some rot \<Rightarrow> r\<lparr>orientation := pr_orientation rot\<rparr>) rows"

definition good_conn :: "db \<Rightarrow> bool" where
  "good_conn d \<longleftrightarrow> conn d \<and> (\<forall>k. stmt_ok (srv d) k)"

lemma acquire_rot_free:
  assumes "good_conn (rw_db s)" "locks (rw_db s) i = None"
  shows "fst (acquire_rot i s)" "good_conn (rw_db (snd (acquire_rot i s)))"
    "locks (rw_db (snd (acquire_rot i s))) = (locks (rw_db s))(i \<mapsto> (''rotation-mgr'', rw_clock s (rw_ticks s) + 30))"
  using assms
  by (auto simp: acquire_rot_def AcquireLock_def select_lock_def upsert_lock_def send_def good_conn_def
      effective_worker_def lock_busy_def varchar_def Let_def)

lemma orientation_frame:
  "conn (snd (UpdateOrientation i ori d)) = conn d" "srv (snd (UpdateOrientation i ori d)) = srv d"
  "locks (snd (UpdateOrientation i ori d)) = locks d"
  by (auto simp: UpdateOrientation_def update_import_def send_def split: option.split)

lemma ReleaseLock_good:
  "good_conn d \<Longrightarrow> locks (snd (ReleaseLock i d)) = (locks d)(i := None) \<and> good_conn (snd (ReleaseLock i d))"
  by (simp add: ReleaseLock_def send_def good_conn_def)

text \<open>One intent of the shutdown loop, its lock being free.\<close>

lemma stop_dispatch_one:
  assumes "good_conn (rw_db s)" "locks (rw_db s) i = None" "0 \<le> pr_orientation rot" "pr_orientation rot \<le> 255"
  obtains s' where "\<And>pend. stop_dispatch rc ((i, rot) # pend) s = stop_dispatch rc pend s'"
    "good_conn (rw_db s')" "locks (rw_db s') = locks (rw_db s)"
    "map fst (rw_cmds s') = map fst (rw_cmds s) @ [rotation_cmd rc rot]"
    "import_rows (rw_db s') =
       map (\<lambda>r. if rec_id r = i then r\<lparr>orientation := pr_orientation rot\<rparr> else r) (import_rows (rw_db s))"
proof
  define s1 where "s1 = snd (acquire_rot i s)"
  define s2 where "s2 = snd (run_system (rotation_cmd rc rot) s1)"
  define s3 where "s3 = rot_on_db (UpdateOrientation i (pr_orientation rot)) s2"
  define s4 where "s4 = rot_on_db (ReleaseLock i) s3"
  note a = acquire_rot_free [OF assms(1,2), folded s1_def]
  show "stop_dispatch rc ((i, rot) # pend) s = stop_dispatch rc pend s4" for pend
    using a(1) by (simp add: split_beta Let_def s1_def s2_def s3_def s4_def)
  have d2: "rw_db s2 = rw_db s1" by (simp add: s2_def)
  have g3: "good_conn (rw_db s3)" "locks (rw_db s3) = locks (rw_db s1)"
    using a(2) by (simp_all add: s3_def rot_on_db_def d2 good_conn_def orientation_frame)
  have rel: "locks (rw_db s4) = (locks (rw_db s3))(i := None)" "good_conn (rw_db s4)"
    using ReleaseLock_good [OF g3(1), of i] by (simp_all add: s4_def rot_on_db_def)
  show "good_conn (rw_db s4)" by (rule rel(2))
  show "locks (rw_db s4) = locks (rw_db s)" using rel(1) g3(2) a(3) assms(2) by auto
  show "map fst (rw_cmds s4) = map fst (rw_cmds s) @ [rotation_cmd rc rot]"
    by (simp add: s4_def s3_def rot_on_db_def s2_def s1_def acquire_rot_frame)
  show "import_rows (rw_db s4) =
       map (\<lambda>r. if rec_id r = i then r\<lparr>orientation := pr_orientation rot\<rparr> else r) (import_rows (rw_db s))"
    using a(2) assms(3,4)
    by (simp add: s4_def s3_def rot_on_db_def ReleaseLock_rows d2 update_import_rows good_conn_def s1_def acquire_rot_rows)
qed

lemma stop_dispatch_all:
  assumes "good_conn (rw_db s)" "distinct (map fst pend)" "\<forall>i \<in> fst ` set pend. locks (rw_db s) i = None"
    and "\<forall>rot \<in> snd ` set pend. 0 \<le> pr_orientation rot \<and> pr_orientation rot \<le> 255"
  shows "map fst (rw_cmds (stop_dispatch rc pend s)) = map fst (rw_cmds s) @ map (rotation_cmd rc \<circ> snd) pend \<and>
    import_rows (rw_db (stop_dispatch rc pend s)) = set_orientations pend (import_rows (rw_db s)) \<and>
    locks (rw_db (stop_dispatch rc pend s)) = locks (rw_db s)"
  using assms
proof (induction pend arbitrary: s)
  case Nil
  then show ?case by (simp add: set_orientations_def)
next
  case (Cons x pend)
  obtain i rot where x: "x = (i, rot)" by fastforce
  obtain s' where s': "\<And>p. stop_dispatch rc ((i, rot) # p) s = stop_dispatch rc p s'"
    "good_conn (rw_db s')" "locks (rw_db s') = locks (rw_db s)"
    "map fst (rw_cmds s') = map fst (rw_cmds s) @ [rotation_cmd rc rot]"
    "import_rows (rw_db s') =
       map (\<lambda>r. if rec_id r = i then r\<lparr>orientation := pr_orientation rot\<rparr> else r) (import_rows (rw_db s))"
    using stop_dispatch_one [of s i rot rc] Cons.prems x by auto
  have IH: "map fst (rw_cmds (stop_dispatch rc pend s')) = map fst (rw_cmds s') @ map (rotation_cmd rc \<circ> snd) pend \<and>
    import_rows (rw_db (stop_dispatch rc pend s')) = set_orientations pend (import_rows (rw_db s')) \<and>
    locks (rw_db (stop_dispatch rc pend s')) = locks (rw_db s')"
    using Cons.prems s'(2,3) by (intro Cons.IH) auto
  have "map_of pend i = None" using Cons.prems(2) x by (simp add: map_of_eq_None_iff)
  then have "set_orientations pend (import_rows (rw_db s')) = set_orientations (x # pend) (import_rows (rw_db s))"
    by (auto simp: set_orientations_def s'(5) x split: option.split)
  with IH s'(1,3,4) x show ?case by simp
qed



end
