(* ===== verification/Import_Once.thy ===== *)
theory Import_Once
  imports Lifecycle
begin

text \<open>
  What the duplicate check of \<open>Worker::ProcessFile\<close> promises (\<open>src/src/worker.cpp\<close>): one worker
  imports each content once; two workers can import the same content twice, because the lookup
  and the insert are separate statements and no index makes the hash unique. And what the
  counters of a run say about the rows it added.
\<close>

section \<open>The interface: an index of contents\<close>

text \<open>
  \<open>find_content\<close> finds every content that is indexed, while the index is readable. A client that
  only adds what it did not find adds each content once.
\<close>

locale content_index =
  fixes find_content :: "string \<Rightarrow> 'd \<Rightarrow> 'r option \<times> 'd"
    and contents :: "'d \<Rightarrow> string list"
    and usable :: "'d \<Rightarrow> bool"
  assumes complete: "usable d \<Longrightarrow> h \<in> set (contents d) \<Longrightarrow> fst (find_content h d) \<noteq> None"
begin

lemma added_once:
  assumes "\<forall>k < n. usable (f k) \<and> (contents (f (Suc k)) = contents (f k) \<or>
             (\<exists>h. fst (find_content h (f k)) = None \<and> contents (f (Suc k)) = contents (f k) @ [h]))"
  shows "\<exists>new. contents (f n) = contents (f 0) @ new \<and> distinct new \<and> set new \<inter> set (contents (f 0)) = {}"
  using assms
proof (induction n)
  case 0
  show ?case by simp
next
  case (Suc n)
  then obtain new where new: "contents (f n) = contents (f 0) @ new" "distinct new"
      "set new \<inter> set (contents (f 0)) = {}" by auto
  from Suc.prems consider "contents (f (Suc n)) = contents (f n)"
    | h where "usable (f n)" "fst (find_content h (f n)) = None" "contents (f (Suc n)) = contents (f n) @ [h]"
    by auto
  then show ?case
  proof cases
    case 1
    with new show ?thesis by auto
  next
    case (2 h)
    then have "h \<notin> set (contents (f n))" using complete by blast
    with new 2(3) show ?thesis by (intro exI [of _ "new @ [h]"]) auto
  qed
qed

end

definition readable :: "db \<Rightarrow> bool" where
  "readable d \<longleftrightarrow> (\<forall>r \<in> set (import_rows d). row_fits (row_text d r))"

definition lookups_work :: "db \<Rightarrow> bool" where
  "lookups_work d \<longleftrightarrow> (\<forall>k. stmt_ok (srv d) k) \<and> (\<forall>x. txt_eq (srv d) x x) \<and> readable d"

definition source_hashes :: "db \<Rightarrow> string list" where
  "source_hashes d = map source_hash (import_rows d)"

interpretation by_hash: content_index GetImportByHash source_hashes lookups_work
proof
  fix d h
  assume ok: "lookups_work d" and "h \<in> set (source_hashes d)"
  then obtain r where r: "r \<in> set (import_rows d)" "h = source_hash r" by (auto simp: source_hashes_def)
  from ok have "stmt_ok (srv d) (stmt_no d)" "txt_eq (srv d) h h" "\<forall>x \<in> set (import_rows d). row_fits (row_text d x)"
    by (simp_all add: lookups_work_def readable_def)
  then show "fst (GetImportByHash h d) \<noteq> None"
    using select_import_found [of d r "\<lambda>s x. txt_eq s (source_hash x) h \<or> txt_eq s (output_hash x) h"] r
    by (auto simp: GetImportByHash_def)
qed

section \<open>What one file does to the rows and the counters\<close>

definition completed_count :: "world \<Rightarrow> int" where
  "completed_count s = conv_completed (w_met s)"

definition failed_count :: "world \<Rightarrow> int" where
  "failed_count s = conv_failed (w_met s)"

definition detected_count :: "world \<Rightarrow> int" where
  "detected_count s = files_detected (w_met s)"

lemmas counter_defs = completed_count_def failed_count_def detected_count_def

lemma met_frames [simp]:
  "w_met (on_pool f s) = w_met s" "w_met (snd (on_db h s)) = w_met s" "w_met (snd (on_fs k s)) = w_met s"
  "w_met (on_met g s) = g (w_met s)"
  by (simp_all add: on_pool_def on_db_def on_fs_def on_met_def split_beta Let_def)

lemma observe_counters [simp]:
  "conv_completed (observe_conversion_duration r x m) = conv_completed m"
  "conv_failed (observe_conversion_duration r x m) = conv_failed m"
  "files_detected (observe_conversion_duration r x m) = files_detected m"
  "conv_completed (observe_fast_fingerprint_duration r x m) = conv_completed m"
  "conv_failed (observe_fast_fingerprint_duration r x m) = conv_failed m"
  "files_detected (observe_fast_fingerprint_duration r x m) = files_detected m"
  "conv_completed (observe_hash_duration r x m) = conv_completed m"
  "conv_failed (observe_hash_duration r x m) = conv_failed m"
  "files_detected (observe_hash_duration r x m) = files_detected m"
  "conv_completed (observe_exif_duration r x m) = conv_completed m"
  "conv_failed (observe_exif_duration r x m) = conv_failed m"
  "files_detected (observe_exif_duration r x m) = files_detected m"
  "conv_completed (observe_db_duration r x m) = conv_completed m"
  "conv_failed (observe_db_duration r x m) = conv_failed m"
  "files_detected (observe_db_duration r x m) = files_detected m"
  "conv_completed (observe_archive_duration r x m) = conv_completed m"
  "conv_failed (observe_archive_duration r x m) = conv_failed m"
  "files_detected (observe_archive_duration r x m) = files_detected m"
  by (simp_all add: observe_conversion_duration_def observe_fast_fingerprint_duration_def observe_hash_duration_def
      observe_exif_duration_def observe_db_duration_def observe_archive_duration_def)

lemma dead_letter_met [simp]: "w_met (move_to_dead_letter cfg a p s) = w_met s"
  by (simp add: move_to_dead_letter_def Let_def split_beta)

lemma dead_letter_rows [simp]: "import_rows (w_db (move_to_dead_letter cfg a p s)) = import_rows (w_db s)"
  by (auto simp: move_to_dead_letter_def Let_def split_beta InsertAlert_def send_def split: option.split)

lemma hash_stage_met:
  "completed_count (snd (hash_stage cfg D a p s)) = completed_count s"
  "failed_count (snd (hash_stage cfg D a p s)) = failed_count s"
  "detected_count (snd (hash_stage cfg D a p s)) = detected_count s"
  by (auto simp: hash_stage_def Let_def counter_defs split: option.split)

lemma engine_stage_met:
  "completed_count (snd (engine_stage cfg a p fld name s)) = completed_count s"
  "failed_count (snd (engine_stage cfg a p fld name s)) = failed_count s"
  "detected_count (snd (engine_stage cfg a p fld name s)) = detected_count s"
  by (auto simp: engine_stage_def Let_def split_beta counter_defs split: option.split)

lemma duplicate_stage_frame:
  "w_met (duplicate_stage cfg a p s) = w_met s" "w_db (duplicate_stage cfg a p s) = w_db s"
  by (simp_all add: duplicate_stage_def Let_def)

lemma finish_import_met:
  "completed_count (finish_import cfg D a p h sq ex fld s) = completed_count s + 1"
  "failed_count (finish_import cfg D a p h sq ex fld s) = failed_count s"
  "detected_count (finish_import cfg D a p h sq ex fld s) = detected_count s"
  by (simp_all add: finish_import_def Let_def counter_defs inc_conversions_completed_def)

lemma InsertImport_rows:
  obtains "import_rows (snd (InsertImport r d)) = import_rows d"
      "\<not> (stmt_ok (srv d) (stmt_no d) \<and> row_ok (srv d) r \<and> sequence_id r \<in> fst ` set (sequences d))"
  | r' where "import_rows (snd (InsertImport r d)) = import_rows d @ [r']" "source_hash r' = source_hash r"
proof (cases "stmt_ok (srv d) (stmt_no d) \<and> row_ok (srv d) r \<and> sequence_id r \<in> fst ` set (sequences d)")
  case True
  then have "import_rows (snd (InsertImport r d)) = import_rows d @
      [r\<lparr>rec_id := imp_next d, rec_date_source := Exif, error_message := [], sequence_name := [],
         created_at := now_txt (srv d) (stmt_no d), completed_at := now_txt (srv d) (stmt_no d)\<rparr>]"
    by (simp add: InsertImport_def send_def)
  then show ?thesis by (rule that(2)) simp
next
  case False
  then have "import_rows (snd (InsertImport r d)) = import_rows d" by (auto simp: InsertImport_def send_def)
  then show ?thesis using False by (rule that(1))
qed

text \<open>The server executes every statement and accepts every row.\<close>

definition healthy :: "db \<Rightarrow> bool" where
  "healthy d \<longleftrightarrow> db_wf d \<and> (\<forall>k. stmt_ok (srv d) k) \<and> (\<forall>r. row_ok (srv d) r)"

text \<open>
  The effect of the stages after the lookup: at most one row more, with the hash that was looked
  up, and exactly the counters that go with it.
\<close>

definition file_effect :: "string \<Rightarrow> world \<Rightarrow> world \<Rightarrow> bool" where
  "file_effect h s s' \<longleftrightarrow>
     (\<exists>new. import_rows (w_db s') = import_rows (w_db s) @ new \<and> (\<forall>r \<in> set new. source_hash r = h) \<and>
        int (length new) \<le> completed_count s' - completed_count s \<and>
        (healthy (w_db s) \<longrightarrow> int (length new) = completed_count s' - completed_count s) \<and>
        completed_count s' - completed_count s + (failed_count s' - failed_count s) \<le> 1 \<and>
        0 \<le> failed_count s' - failed_count s \<and> detected_count s' = detected_count s)"

lemma file_effect_none:
  "import_rows (w_db s') = import_rows (w_db s) \<Longrightarrow> completed_count s' = completed_count s \<Longrightarrow>
   failed_count s' - failed_count s \<in> {0, 1} \<Longrightarrow> detected_count s' = detected_count s \<Longrightarrow> file_effect h s s'"
  by (auto simp: file_effect_def)

lemma convert_stage_effect: "file_effect h s (convert_stage cfg D a p h s)"
proof -
  obtain n name d1 where al: "AllocateSequence (a_tok a) (w_db s) = ((n, name), d1)" by (metis prod.exhaust)
  have rest: "same_rest (w_db s) d1" using AllocateSequence_rest [of "w_db s" "a_tok a"] al by simp
  then have rows: "import_rows d1 = import_rows (w_db s)" "srv d1 = srv (w_db s)" by (simp_all add: same_rest_def)
  define s3 where "s3 = on_met (observe_db_duration (a_rnd a) (a_dur a 3))
      (snd (on_db (AllocateSequence (a_tok a)) (on_met (observe_exif_duration (a_rnd a) (a_dur a 2)) s)))"
  have s3: "w_db s3 = d1" "completed_count s3 = completed_count s" "failed_count s3 = failed_count s"
    "detected_count s3 = detected_count s" by (simp_all add: s3_def al counter_defs)
  show ?thesis
  proof (cases "n = 0")
    case True
    then have "convert_stage cfg D a p h s = move_to_dead_letter cfg a p s3"
      by (simp add: convert_stage_def Let_def split_beta s3_def al)
    then show ?thesis using s3 rows by (intro file_effect_none) (simp_all add: counter_defs)
  next
    case False
    define ex where "ex = exif_stage a p (w_fs s)"
    define fld where "fld = build_folder_schema (cfg_folder_schema cfg) (ex_date ex)"
    obtain conv s5 where e: "engine_stage cfg a p fld name s3 = (conv, s5)" by fastforce
    have s5: "w_db s5 = d1" "completed_count s5 = completed_count s" "failed_count s5 = failed_count s"
      "detected_count s5 = detected_count s"
      using engine_stage_db [of cfg a p fld name s3] engine_stage_met [of cfg a p fld name s3] e s3 by simp_all
    have c: "convert_stage cfg D a p h s = on_pool (release_inflight p)
        (if conv then finish_import cfg D a p h (n, name) ex fld s5
         else move_to_dead_letter cfg a p (on_met (inc_conversions_completed ''failed'' 1) s5))"
      using False e by (simp add: convert_stage_def Let_def split_beta al s3_def [symmetric] result_stage_def
          ex_def [symmetric] fld_def [symmetric])
    show ?thesis
    proof (cases conv)
      case True
      define r where "r = import_of cfg p h (n, name) (out_path_of cfg fld name)
          (sha256_file D (w_fs s5) (out_path_of cfg fld name)) ex fld"
      have r: "source_hash r = h" "sequence_id r = n" by (simp_all add: r_def import_of_def)
      let ?s' = "convert_stage cfg D a p h s"
      have met: "completed_count ?s' = completed_count s + 1" "failed_count ?s' = failed_count s"
        "detected_count ?s' = detected_count s"
        using finish_import_met [of cfg D a p h "(n, name)" ex fld s5] s5 c True by (simp_all add: counter_defs)
      have db: "w_db ?s' = snd (InsertImport r d1)" using c True s5 by (simp add: r_def)
      have known: "n \<in> fst ` set (sequences d1)" if "healthy (w_db s)"
      proof -
        have "1 \<le> seq_next (w_db s)" using that by (simp add: healthy_def db_wf_def seqs_wf_def)
        from al this show ?thesis using \<open>n \<noteq> 0\<close> by (cases rule: AllocateSequence_cases) auto
      qed
      show ?thesis
      proof (cases rule: InsertImport_rows [of r d1])
        case 1
        with known r(2) rows have "\<not> healthy (w_db s)" by (auto simp: healthy_def)
        with 1 db met rows show ?thesis by (simp add: file_effect_def)
      next
        case (2 r')
        with db met rows r show ?thesis by (simp add: file_effect_def)
      qed
    next
      case False
      then show ?thesis using c s5 rows
        by (intro file_effect_none) (simp_all add: counter_defs inc_conversions_completed_def)
    qed
  qed
qed

text \<open>A completed conversion, in full.\<close>

lemma convert_stage_done:
  assumes "AllocateSequence (a_tok a) (w_db s) = ((n, name), d1)" "n \<noteq> 0"
    and "a_engine a = Some run" "\<forall>dst fs. fst (run p dst (worker_settings cfg) fs)"
    and "ex = exif_stage a p (w_fs s)" "fld = build_folder_schema (cfg_folder_schema cfg) (ex_date ex)"
    and "dst = out_path_of cfg fld name"
    and "out = snd (run p dst (worker_settings cfg) (snd (ensure_dir (a_mkdir_out a) (output_dir cfg @ ''/'' @ fld) (w_fs s))))"
  shows "w_db (convert_stage cfg D a p h s) =
      snd (InsertImport (import_of cfg p h (n, name) dst (sha256_file D out dst) ex fld) d1)"
    and "completed_count (convert_stage cfg D a p h s) = completed_count s + 1"
  using assms
  by (simp_all add: convert_stage_def Let_def split_beta result_stage_def engine_stage_def)
    (simp add: finish_import_def Let_def counter_defs inc_conversions_completed_def)

text \<open>A whole file: a row only after a lookup that found nothing.\<close>

lemma ProcessFile_effect:
  obtains s0 h where "file_effect h s0 (ProcessFile cfg D a p s)"
    "completed_count s0 = completed_count s" "failed_count s0 = failed_count s" "detected_count s0 = detected_count s + 1"
    "import_rows (w_db s0) = import_rows (w_db s)" "only_sent (w_db s) (w_db s0)"
    "length (import_rows (w_db (ProcessFile cfg D a p s))) = length (import_rows (w_db s)) \<or>
     fst (GetImportByHash h (w_db s)) = None"
proof -
  define s1 where "s1 = snd (hash_stage cfg D a p (on_met (inc_files_detected 1) s))"
  define h where "h = fst (hash_stage cfg D a p (on_met (inc_files_detected 1) s))"
  have s1: "w_db s1 = w_db s" "completed_count s1 = completed_count s" "failed_count s1 = failed_count s"
    "detected_count s1 = detected_count s + 1"
    using hash_stage_met [of cfg D a p "on_met (inc_files_detected 1) s"]
    by (simp_all add: s1_def counter_defs inc_files_detected_def)
  define s2 where "s2 = snd (on_db (GetImportByHash h) s1)"
  have sent: "only_sent (w_db s) (w_db s2)" using reads_only_sent(2) s1 by (simp add: s2_def)
  have s2: "completed_count s2 = completed_count s" "failed_count s2 = failed_count s"
    "detected_count s2 = detected_count s + 1" "import_rows (w_db s2) = import_rows (w_db s)"
    using s1 sent by (auto simp: s2_def counter_defs only_sent_def)
  let ?s' = "ProcessFile cfg D a p s"
  have P: "?s' = (if h = [] then move_to_dead_letter cfg a p s1
      else if fst (GetImportByHash h (w_db s)) \<noteq> None then duplicate_stage cfg a p s2
      else convert_stage cfg D a p h s2)"
    using s1(1) by (simp add: ProcessFile_def split_beta s1_def h_def s2_def Let_def)
  show ?thesis
  proof (cases "h \<noteq> [] \<and> fst (GetImportByHash h (w_db s)) = None")
    case True
    show ?thesis by (rule that [of h s2]) (use True P convert_stage_effect s2 sent in simp_all)
  next
    case False
    have "import_rows (w_db ?s') = import_rows (w_db s)" "completed_count ?s' = completed_count s"
      "failed_count ?s' = failed_count s" "detected_count ?s' = detected_count s + 1"
      using False s1 s2 by (auto simp: P duplicate_stage_frame counter_defs)
    then show ?thesis using s2 sent by (intro that [of h s2] file_effect_none) simp_all
  qed
qed

section \<open>A worker's run\<close>

lemma worker_loop_frame:
  "srv (w_db (worker_loop cfg D evs s)) = srv (w_db s)"
  "db_wf (w_db s) \<Longrightarrow> db_wf (w_db (worker_loop cfg D evs s))"
  using import_reach_frame worker_run_reach [of s undefined cfg D evs] by fastforce+

lemma loop_step_healthy: "healthy (w_db s) \<Longrightarrow> healthy (w_db (loop_step cfg D e s))"
  using import_reach_frame loop_step_reach [of s undefined cfg D e] by (fastforce simp: healthy_def)

lemma worker_loop_take_Suc:
  "k < length evs \<Longrightarrow> worker_loop cfg D (take (Suc k) evs) s =
     loop_step cfg D (evs ! k) (worker_loop cfg D (take k evs) s)"
  by (simp add: take_Suc_conv_app_nth worker_loop_def)

text \<open>Whether an event takes a file, and how many a run takes.\<close>

definition takes_file :: "loop_event \<Rightarrow> world \<Rightarrow> bool" where
  "takes_file e s = (case e of Others f \<Rightarrow> False | Own_Turn a \<Rightarrow> fileq (w_pool s) \<noteq> [])"

fun files_taken :: "config \<Rightarrow> ('c, 'm) digest_scheme \<Rightarrow> loop_event list \<Rightarrow> world \<Rightarrow> nat" where
  "files_taken cfg D [] s = 0"
| "files_taken cfg D (e # evs) s = (if takes_file e s then 1 else 0) + files_taken cfg D evs (loop_step cfg D e s)"

text \<open>One event of the loop: a file's effect, or none on database and counters.\<close>

lemma loop_step_cases:
  obtains "\<not> takes_file e s" "w_db (loop_step cfg D e s) = w_db s" "w_met (loop_step cfg D e s) = w_met s"
  | a p w where "takes_file e s" "w_db (loop_step cfg D e s) = w_db (ProcessFile cfg D a p (s\<lparr>w_pool := w\<rparr>))"
      "w_met (loop_step cfg D e s) = w_met (ProcessFile cfg D a p (s\<lparr>w_pool := w\<rparr>))"
proof (cases e)
  case (Others f)
  then show ?thesis by (intro that(1)) (simp_all add: takes_file_def)
next
  case (Own_Turn a)
  show ?thesis
  proof (cases rule: worker_turn_cases [where s = s and cfg = cfg and D = D and a = a])
    case 1
    then show ?thesis using Own_Turn by (intro that(1)) (simp_all add: takes_file_def)
  next
    case (2 p w)
    then show ?thesis using Own_Turn by (intro that(2) [of a p w]) (simp_all add: takes_file_def)
  qed
qed

lemma loop_step_added:
  obtains "source_hashes (w_db (loop_step cfg D e s)) = source_hashes (w_db s)"
  | h where "fst (GetImportByHash h (w_db s)) = None"
      "source_hashes (w_db (loop_step cfg D e s)) = source_hashes (w_db s) @ [h]"
proof (cases rule: loop_step_cases [where e = e and s = s and cfg = cfg and D = D])
  case 1
  then show ?thesis using that(1) by simp
next
  case (2 a p w)
  let ?s = "s\<lparr>w_pool := w\<rparr>"
  show ?thesis
  proof (cases rule: ProcessFile_effect [where cfg = cfg and D = D and a = a and p = p and s = ?s])
    case (1 s0 h)
    then obtain new where new: "import_rows (w_db (loop_step cfg D e s)) = import_rows (w_db s) @ new"
        "\<forall>r \<in> set new. source_hash r = h" "int (length new) \<le> 1"
      using 2 by (auto simp: file_effect_def)
    with 1(7) 2 consider "new = []" | r where "new = [r]" "fst (GetImportByHash h (w_db s)) = None"
      by (cases new) auto
    then show ?thesis using new(1,2) that by cases (auto simp: source_hashes_def)
  qed
qed

lemma loop_step_counts:
  assumes "healthy (w_db s)"
  obtains n where "import_rows (w_db (loop_step cfg D e s)) = import_rows (w_db s) @ n"
    "completed_count (loop_step cfg D e s) = completed_count s + int (length n)"
    "int (length n) + (failed_count (loop_step cfg D e s) - failed_count s) \<le> (if takes_file e s then 1 else 0)"
    "detected_count (loop_step cfg D e s) = detected_count s + (if takes_file e s then 1 else 0)"
proof (cases rule: loop_step_cases [where e = e and s = s and cfg = cfg and D = D])
  case 1
  then show ?thesis using that [of "[]"] by (simp add: counter_defs)
next
  case (2 a p w)
  let ?s = "s\<lparr>w_pool := w\<rparr>" let ?s' = "ProcessFile cfg D a p ?s"
  have eq: "completed_count (loop_step cfg D e s) = completed_count ?s'" "failed_count (loop_step cfg D e s) = failed_count ?s'"
    "detected_count (loop_step cfg D e s) = detected_count ?s'" "completed_count ?s = completed_count s"
    "failed_count ?s = failed_count s" "detected_count ?s = detected_count s"
    using 2 by (simp_all add: counter_defs)
  show ?thesis
  proof (cases rule: ProcessFile_effect [where cfg = cfg and D = D and a = a and p = p and s = ?s])
    case (1 s0 h)
    have "healthy (w_db s0)" using assms 1(6) by (auto simp: only_sent_def healthy_def db_wf_def)
    with 1(1) obtain n where n: "import_rows (w_db ?s') = import_rows (w_db s0) @ n"
        "int (length n) = completed_count ?s' - completed_count s0"
        "completed_count ?s' - completed_count s0 + (failed_count ?s' - failed_count s0) \<le> 1"
        "detected_count ?s' = detected_count s0"
      unfolding file_effect_def by blast
    with 1 2 eq show ?thesis by (intro that [of n]) simp_all
  qed
qed

text \<open>
  C5: One worker imports each content once: while the lookups work, the rows a run of any length adds
  have pairwise different source hashes, none of which was in the table before, whatever files
  it meets in whatever order, and however many copies of a content there are.
\<close>

theorem same_content_once:
  assumes "\<forall>k < length evs. lookups_work (w_db (worker_loop cfg D (take k evs) s))"
  shows "\<exists>new. source_hashes (w_db (worker_loop cfg D evs s)) = source_hashes (w_db s) @ new \<and>
           distinct new \<and> set new \<inter> set (source_hashes (w_db s)) = {}"
proof -
  let ?f = "\<lambda>k. w_db (worker_loop cfg D (take k evs) s)"
  have "source_hashes (?f (Suc k)) = source_hashes (?f k) \<or>
      (\<exists>h. fst (GetImportByHash h (?f k)) = None \<and> source_hashes (?f (Suc k)) = source_hashes (?f k) @ [h])"
    if "k < length evs" for k
    by (cases rule: loop_step_added [where e = "evs ! k" and s = "worker_loop cfg D (take k evs) s" and cfg = cfg and D = D])
      (auto simp: worker_loop_take_Suc that)
  then have "\<forall>k < length evs. lookups_work (?f k) \<and> (source_hashes (?f (Suc k)) = source_hashes (?f k) \<or>
      (\<exists>h. fst (GetImportByHash h (?f k)) = None \<and> source_hashes (?f (Suc k)) = source_hashes (?f k) @ [h]))"
    using assms by blast
  from by_hash.added_once [where f = ?f, OF this] show ?thesis by (simp add: worker_loop_def)
qed

text \<open>
  C17: The counters account for the rows: after a run, \<open>files_detected\<close> has grown by the number of
  files, \<open>conversions_completed\<close> by exactly the number of new rows, and completed and failed
  conversions together by no more than the number of files, while the server works.
\<close>

theorem counters_account:
  assumes "healthy (w_db s)"
  shows "detected_count (worker_loop cfg D evs s) = detected_count s + int (files_taken cfg D evs s) \<and>
     (\<exists>new. import_rows (w_db (worker_loop cfg D evs s)) = import_rows (w_db s) @ new \<and>
        completed_count (worker_loop cfg D evs s) = completed_count s + int (length new) \<and>
        int (length new) + (failed_count (worker_loop cfg D evs s) - failed_count s) \<le> int (files_taken cfg D evs s))"
  using assms
proof (induction evs arbitrary: s)
  case Nil
  show ?case by (simp add: worker_loop_def)
next
  case (Cons e evs)
  let ?t = "loop_step cfg D e s"
  obtain n0 where n0: "import_rows (w_db ?t) = import_rows (w_db s) @ n0"
      "completed_count ?t = completed_count s + int (length n0)"
      "int (length n0) + (failed_count ?t - failed_count s) \<le> (if takes_file e s then 1 else 0)"
      "detected_count ?t = detected_count s + (if takes_file e s then 1 else 0)"
    using loop_step_counts [OF Cons.prems] by blast
  have run: "worker_loop cfg D (e # evs) s = worker_loop cfg D evs ?t" by (simp add: worker_loop_def)
  from Cons.IH [OF loop_step_healthy [OF Cons.prems], of cfg D e] obtain n1 where n1:
      "import_rows (w_db (worker_loop cfg D evs ?t)) = import_rows (w_db ?t) @ n1"
      "completed_count (worker_loop cfg D evs ?t) = completed_count ?t + int (length n1)"
      "int (length n1) + (failed_count (worker_loop cfg D evs ?t) - failed_count ?t) \<le> int (files_taken cfg D evs ?t)"
      "detected_count (worker_loop cfg D evs ?t) = detected_count ?t + int (files_taken cfg D evs ?t)" by blast
  show ?case
    using n0 n1 unfolding run by (cases "takes_file e s"; intro conjI exI [of _ "n0 @ n1"]) simp_all
qed

section \<open>Two workers\<close>

lemma lookup_again:
  assumes "\<forall>k. stmt_ok (srv d) k"
  shows "fst (GetImportByHash h (snd (GetImportByHash g d))) = fst (GetImportByHash h d)"
proof -
  have rt: "row_text (d\<lparr>stmt_no := n\<rparr>) r = row_text d r" for n r
    by (simp add: row_text_def row_cols_def)
  show ?thesis using assms
    by (simp add: GetImportByHash_def select_import_eq first_row_def rt split: option.split)
qed

lemma healthy_lookup: "healthy d \<Longrightarrow> healthy (snd (GetImportByHash h d))"
  by (auto simp: GetImportByHash_def select_import_eq healthy_def db_wf_def)

lemma healthy_convert: "healthy (w_db s) \<Longrightarrow> healthy (w_db (convert_stage cfg D a p h s))"
  using import_reach_frame convert_stage_traffic [of s undefined cfg D a p h] by (fastforce simp: healthy_def)

lemma convert_stage_row:
  assumes "healthy (w_db s)" "completed_count (convert_stage cfg D a p h s) = completed_count s + 1"
  shows "source_hashes (w_db (convert_stage cfg D a p h s)) = source_hashes (w_db s) @ [h]"
proof -
  obtain new where new: "import_rows (w_db (convert_stage cfg D a p h s)) = import_rows (w_db s) @ new"
      "\<forall>r \<in> set new. source_hash r = h" "int (length new) = 1"
    using convert_stage_effect [of h s cfg D a p] assms by (auto simp: file_effect_def)
  then obtain r where "new = [r]" by (auto simp: length_Suc_conv)
  with new show ?thesis by (simp add: source_hashes_def)
qed

text \<open>
  Two workers can import the same content twice: when both look a hash up before either has
  inserted its row, both lookups find nothing, and if both conversions complete, the table holds
  two rows for one content; no lock covers the two steps, and no index makes the hash unique.
\<close>

theorem race_imports_twice:
  assumes "healthy (w_db s)" "fst (GetImportByHash h (w_db s)) = None"
    and "s1 = snd (on_db (GetImportByHash h) s)" "s2 = snd (on_db (GetImportByHash h) s1)"
    and "s3 = convert_stage cfg D a p h s2" "completed_count s3 = completed_count s2 + 1"
    and "s4 = convert_stage cfg D b q h s3" "completed_count s4 = completed_count s3 + 1"
  shows "fst (GetImportByHash h (w_db s1)) = None \<and> source_hashes (w_db s4) = source_hashes (w_db s) @ [h, h]"
proof -
  have sent: "only_sent (w_db s) (w_db s1)" "only_sent (w_db s1) (w_db s2)"
    using reads_only_sent(2) assms(3,4) by simp_all
  then have rows: "source_hashes (w_db s2) = source_hashes (w_db s)" by (auto simp: only_sent_def source_hashes_def)
  have h2: "healthy (w_db s2)" using assms(1,3,4) healthy_lookup by simp
  have "source_hashes (w_db s3) = source_hashes (w_db s2) @ [h]"
    using convert_stage_row [OF h2] assms(5,6) by simp
  moreover have "healthy (w_db s3)" using healthy_convert [OF h2] assms(5) by simp
  then have "source_hashes (w_db s4) = source_hashes (w_db s3) @ [h]"
    using convert_stage_row assms(7,8) by simp
  moreover have "fst (GetImportByHash h (w_db s1)) = None"
    using lookup_again [of "w_db s" h h] assms(1,2,3) by (simp add: healthy_def)
  ultimately show ?thesis using rows by simp
qed

section \<open>Examples\<close>

text \<open>
  On a server that executes every statement, accepts every row and tells names and placeholders
  apart, properly named rows never stop an allocation.
\<close>

definition willing :: "server \<Rightarrow> bool" where
  "willing s \<longleftrightarrow> server_ok s \<and> (\<forall>k. stmt_ok s k) \<and> (\<forall>r. row_ok s r) \<and>
     (\<forall>i tok. \<not> txt_eq s (seq_name i) (''TMP_'' @ tok))"

lemma willing_good [simp]: "willing good_server"
  by (simp add: willing_def) (simp add: good_server_def ci_eq_def seq_name_def tolower_def Let_def)

definition all_named :: "db \<Rightarrow> bool" where
  "all_named d \<longleftrightarrow> willing (srv d) \<and> db_wf d \<and> (\<forall>(i, m) \<in> set (sequences d). m = seq_name i)"

lemma allocate_named:
  assumes "all_named d" "length tok \<le> 28"
  shows "AllocateSequence tok d = ((seq_next d, seq_name (seq_next d)), snd (AllocateSequence tok d)) \<and>
         sequences (snd (AllocateSequence tok d)) = sequences d @ [(seq_next d, seq_name (seq_next d))] \<and>
         seq_next d \<noteq> 0 \<and> seq_next (snd (AllocateSequence tok d)) = seq_next d + 1"
proof -
  have ok: "server_ok (srv d)" "\<And>k. stmt_ok (srv d) k" "\<And>i t. \<not> txt_eq (srv d) (seq_name i) (''TMP_'' @ t)"
    using assms by (simp_all add: all_named_def willing_def)
  have one: "1 \<le> seq_next d" "\<forall>(i, m) \<in> set (sequences d). i < seq_next d"
    using assms by (auto simp: all_named_def db_wf_def seqs_wf_def)
  have keep: "\<not> stale_name (srv d) m" if "(i, m) \<in> set (sequences d)" for i m
    using that assms seq_name_not_stale [OF ok(1)] by (auto simp: all_named_def)
  obtain Q where q: "sequences (clean_rows (srv d) d) = filter Q (sequences d)"
      "\<forall>(i, m) \<in> set (sequences d). \<not> stale_name (srv d) m \<longrightarrow> Q (i, m)"
    using clean_rows_seqs [of "srv d" d] by blast
  define c where "c = clean_rows (srv d) d"
  have "filter Q (sequences d) = sequences d" using q(2) keep by (intro filter_True) auto
  then have c: "sequences c = sequences d" "seq_next c = seq_next d" "srv c = srv d"
    using q(1) clean_rows_frame [where d = d and sv = "srv d"] by (simp_all add: c_def same_rest_def)
  let ?n = "seq_next d" and ?tmp = "''TMP_'' @ tok"
  define c4 where "c4 = c\<lparr>stmt_no := stmt_no c + 2, sequences := sequences d @ [(?n, ?tmp)], seq_next := ?n + 1\<rparr>"
  have names: "m = seq_name i" if "(i, m) \<in> set (sequences d)" for i m
    using that assms by (auto simp: all_named_def)
  then have "\<not> (\<exists>(i, m) \<in> set (sequences d). txt_eq (srv d) m ?tmp)" using ok(3) by blast
  then have ins: "insert_sequence ?tmp (snd (send c)) = (True, c4)"
    using assms(2) by (simp add: insert_sequence_def send_def c c4_def ok(2) varchar_def)
  have "\<not> (\<exists>(i, m) \<in> set (sequences c4). i \<noteq> ?n \<and> txt_eq (srv c4) m (seq_name ?n))"
    using names ok by (auto simp: c4_def c server_ok_def)
  moreover have "map (\<lambda>(i, m). if i = ?n then (i, seq_name ?n) else (i, m)) (sequences d) = sequences d"
    using one(2) by (intro map_idI) auto
  ultimately have ren: "rename_sequence (seq_name ?n) ?n c4 =
      (True, c4\<lparr>stmt_no := stmt_no c + 3, sequences := sequences d @ [(?n, seq_name ?n)]\<rparr>)"
    by (simp add: rename_sequence_def send_def c4_def c ok(2))
  have "AllocateSequence tok d =
      ((?n, seq_name ?n), c4\<lparr>stmt_no := stmt_no c + 4, sequences := sequences d @ [(?n, seq_name ?n)]\<rparr>)"
    using ins ren one(1) c
    by (simp add: AllocateSequence_def c_def [symmetric, unfolded clean_rows_def] send_def ok(2) seq_name_def Let_def c4_def)
  with one(1) show ?thesis by (simp add: c4_def)
qed

definition copy_path :: path where
  "copy_path = ''/watch/COPY.NEF''"

definition copy_answers :: answers where
  "copy_answers = demo_answers\<lparr>a_engine := Some (\<lambda>src dst st fs. (True, write_file fs dst [7] 0))\<rparr>"

definition two_copies :: world where
  "two_copies = (demo_world good_server)\<lparr>w_fs := write_file (w_fs (demo_world good_server)) copy_path [1, 2] 0\<rparr>"

definition copy_scan :: "pool \<Rightarrow> pool" where
  "copy_scan = poll_scan default_config 0 [(demo_path, True, 100), (copy_path, True, 100)]"

definition copy_run :: "loop_event list" where
  "copy_run = [Others copy_scan, Own_Turn copy_answers, Own_Turn copy_answers]"

lemma copy_scan_queue: "fileq (copy_scan empty_pool) = [demo_path, copy_path]" "fp_cache (copy_scan empty_pool) = []"
  unfolding copy_scan_def by code_simp+

definition copy_ex :: exif_result where
  "copy_ex = exif_stage copy_answers demo_path (w_fs two_copies)"

definition copy_row :: import_record where
  "copy_row = import_of default_config demo_path ''0102'' (1, ''IMG_1'')
     (out_path_of default_config (build_folder_schema (cfg_folder_schema default_config) (ex_date copy_ex)) ''IMG_1'')
     ''07'' copy_ex (build_folder_schema (cfg_folder_schema default_config) (ex_date copy_ex))"

lemma copy_row_small:
  "let d = snd (AllocateSequence ''x'' ((empty_db good_server)\<lparr>stmt_no := 1\<rparr>)); d' = snd (InsertImport copy_row d)
   in fst (AllocateSequence ''x'' ((empty_db good_server)\<lparr>stmt_no := 1\<rparr>)) = (1, ''IMG_1'') \<and>
      source_hashes d' = [''0102''] \<and> list_all (\<lambda>r. list_all (\<lambda>c. length c < 100) (row_text d' r)) (import_rows d')"
  unfolding copy_row_def copy_ex_def two_copies_def copy_answers_def by code_simp

lemma sha_concat: "content fs p = Some bs \<Longrightarrow> sha256_file concat_digest fs p = to_hex bs"
  by (simp add: sha256_file_def hash_blocks_streaming [OF streaming_concat_digest])
    (simp add: concat_digest_def finish_digest_def)

lemma first_copy:
  assumes "w_fs s = w_fs two_copies" "w_db s = empty_db good_server" "fp_cache (w_pool s) = []"
  shows "w_db (ProcessFile default_config concat_digest copy_answers demo_path s) =
     snd (InsertImport copy_row (snd (AllocateSequence ''x'' ((empty_db good_server)\<lparr>stmt_no := 1\<rparr>))))"
proof -
  have c: "content (w_fs two_copies) demo_path = Some [1, 2]"
    by (simp add: two_copies_def demo_world_def content_def write_file_def demo_path_def copy_path_def)
  have hex: "to_hex [1, 2] = ''0102''" "to_hex [7] = ''07''" by code_simp+
  let ?s1 = "on_met (inc_files_detected 1) s"
  define s2 where "s2 = snd (on_db (GetImportByHash ''0102'') (snd (hash_stage default_config concat_digest copy_answers demo_path ?s1)))"
  have "cache_hit (w_pool ?s1) demo_path fp = None" for fp
    using assms(3) by (simp add: cache_hit_def)
  then have sha: "fst (hash_stage default_config concat_digest copy_answers demo_path ?s1) = ''0102''"
    using sha_concat [OF c] hex assms(1) by (simp add: hash_stage_def Let_def)
  have none: "GetImportByHash ''0102'' (w_db s) = (None, (empty_db good_server)\<lparr>stmt_no := 1\<rparr>)"
    by (simp add: GetImportByHash_def select_import_eq assms(2) first_row_def empty_db_def)
  have s2: "w_db s2 = (empty_db good_server)\<lparr>stmt_no := 1\<rparr>" "w_fs s2 = w_fs two_copies"
    using none assms(1) by (simp_all add: s2_def)
  have P: "ProcessFile default_config concat_digest copy_answers demo_path s =
      convert_stage default_config concat_digest copy_answers demo_path ''0102'' s2"
    using sha none by (simp add: ProcessFile_def split_beta s2_def)
  obtain d1 where al: "AllocateSequence (a_tok copy_answers) (w_db s2) = ((1, ''IMG_1''), d1)"
    using copy_row_small s2(1) by (simp add: Let_def copy_answers_def demo_answers_def) (metis prod.collapse)
  let ?run = "\<lambda>src dst st fs. (True, write_file fs dst [7] 0)"
  let ?fld = "build_folder_schema (cfg_folder_schema default_config) (ex_date copy_ex)"
  let ?dst = "out_path_of default_config ?fld ''IMG_1''"
  let ?out = "snd (?run demo_path ?dst (worker_settings default_config)
      (snd (ensure_dir (a_mkdir_out copy_answers) (output_dir default_config @ ''/'' @ ?fld) (w_fs s2))))"
  have "sha256_file concat_digest ?out ?dst = ''07''" using hex by (simp add: sha_concat)
  moreover have "a_engine copy_answers = Some ?run" by (simp add: copy_answers_def)
  moreover have "copy_ex = exif_stage copy_answers demo_path (w_fs s2)" by (simp add: copy_ex_def s2(2))
  ultimately have "w_db (convert_stage default_config concat_digest copy_answers demo_path ''0102'' s2) =
      snd (InsertImport copy_row d1)"
    using convert_stage_done(1) [OF al, of ?run demo_path default_config copy_ex ?fld ?dst ?out concat_digest "''0102''"]
    by (simp add: copy_row_def)
  moreover have "d1 = snd (AllocateSequence ''x'' ((empty_db good_server)\<lparr>stmt_no := 1\<rparr>))"
    using al s2(1) by (simp add: copy_answers_def demo_answers_def)
  ultimately show ?thesis by (simp add: P)
qed

lemma good_lookups: "srv d = good_server \<Longrightarrow> readable d \<Longrightarrow> lookups_work d"
  by (simp add: lookups_work_def good_server_def ci_eq_def)

text \<open>The example run, state by state.\<close>

definition copy_state :: "nat \<Rightarrow> world" where
  "copy_state k = worker_loop default_config concat_digest (take k copy_run) two_copies"

lemma copy_states:
  "copy_state 0 = two_copies" "copy_state (Suc 0) = on_pool copy_scan two_copies"
  "w_db (copy_state (Suc 0)) = empty_db good_server" "fileq (w_pool (copy_state (Suc 0))) = [demo_path, copy_path]"
  "w_db (copy_state 2) = snd (InsertImport copy_row (snd (AllocateSequence ''x'' ((empty_db good_server)\<lparr>stmt_no := 1\<rparr>))))"
  "fileq (w_pool (copy_state 2)) = [copy_path]"
proof -
  show "copy_state 0 = two_copies" by (simp add: copy_state_def worker_loop_def)
  show one: "copy_state (Suc 0) = on_pool copy_scan two_copies"
    by (simp add: copy_state_def worker_loop_def copy_run_def)
  then show db: "w_db (copy_state (Suc 0)) = empty_db good_server" by (simp add: two_copies_def demo_world_def)
  have pool: "w_pool (copy_state (Suc 0)) = copy_scan empty_pool"
    by (simp add: one two_copies_def demo_world_def on_pool_def)
  then show q: "fileq (w_pool (copy_state (Suc 0))) = [demo_path, copy_path]" by (simp add: copy_scan_queue)
  define w where "w = snd (the (pop_file (w_pool (copy_state (Suc 0)))))"
  have w: "pop_file (w_pool (copy_state (Suc 0))) = Some (demo_path, w)" "fileq w = [copy_path]" "fp_cache w = []"
    using q copy_scan_queue(2) by (simp_all add: w_def pop_file_def pool)
  have "copy_state 2 = loop_step default_config concat_digest (Own_Turn copy_answers) (copy_state (Suc 0))"
    by (simp add: copy_state_def worker_loop_def copy_run_def numeral_2_eq_2)
  then have two: "copy_state 2 = on_pool (\<lambda>w. w\<lparr>active_workers := active_workers w - 1\<rparr>)
      (ProcessFile default_config concat_digest copy_answers demo_path ((copy_state (Suc 0))\<lparr>w_pool := w\<rparr>))"
    by (simp add: worker_turn_def w(1))
  show "w_db (copy_state 2) = snd (InsertImport copy_row (snd (AllocateSequence ''x'' ((empty_db good_server)\<lparr>stmt_no := 1\<rparr>))))"
    using first_copy [of "(copy_state (Suc 0))\<lparr>w_pool := w\<rparr>"] w(3) db one by (simp add: two)
  show "fileq (w_pool (copy_state 2)) = [copy_path]"
    using w(2) by (simp add: two ProcessFile_fileq)
qed

lemma copy_run_states: "w_db (worker_loop default_config concat_digest (take k copy_run) two_copies) = w_db (copy_state k)"
  by (simp add: copy_state_def)

theorem same_content_once_witness:
  "\<exists>rest. source_hashes (w_db (worker_loop default_config concat_digest copy_run two_copies)) = ''0102'' # rest \<and>
          ''0102'' \<notin> set rest"
proof -
  let ?d = "snd (AllocateSequence ''x'' ((empty_db good_server)\<lparr>stmt_no := 1\<rparr>))"
  have rows: "source_hashes (w_db (copy_state 2)) = [''0102'']"
    "list_all (\<lambda>r. list_all (\<lambda>c. length c < 100) (row_text (w_db (copy_state 2)) r)) (import_rows (w_db (copy_state 2)))"
    using copy_row_small unfolding copy_states by (simp_all add: Let_def)
  then have "readable (w_db (copy_state 2))"
    by (fastforce simp: readable_def row_fits_def kBuf_def list_all_iff)
  moreover have "w_db (copy_state 0) = empty_db good_server" by (simp add: copy_states two_copies_def demo_world_def)
  then have start: "readable (w_db (copy_state 0))" "readable (w_db (copy_state (Suc 0)))" "source_hashes (w_db (copy_state 0)) = []"
    by (simp_all add: copy_states(3) readable_def empty_db_def source_hashes_def)
  moreover have "srv (w_db (copy_state k)) = good_server" for k
    by (simp add: copy_state_def worker_loop_frame(1) two_copies_def demo_world_def empty_db_def)
  ultimately have "lookups_work (w_db (copy_state 0))" "lookups_work (w_db (copy_state (Suc 0)))" "lookups_work (w_db (copy_state 2))"
    using good_lookups by blast+
  then have ok: "\<forall>k < length copy_run. lookups_work (w_db (worker_loop default_config concat_digest (take k copy_run) two_copies))"
    unfolding copy_run_states by (auto simp: copy_run_def less_Suc_eq numeral_2_eq_2)
  have three: "w_db (copy_state 3) = w_db (worker_loop default_config concat_digest copy_run two_copies)"
    by (simp add: copy_state_def copy_run_def)
  have d: "distinct (source_hashes (w_db (copy_state 3)))"
    using same_content_once [OF ok] start(3) by (auto simp: three copy_states(1))
  have "copy_state 3 = loop_step default_config concat_digest (Own_Turn copy_answers) (copy_state 2)"
    by (simp add: copy_state_def worker_loop_def copy_run_def numeral_eq_Suc)
  then obtain new where "source_hashes (w_db (copy_state 3)) = ''0102'' # new"
    using rows(1) by (cases rule: loop_step_added [where e = "Own_Turn copy_answers" and s = "copy_state 2"
          and cfg = default_config and D = concat_digest]) auto
  with d show ?thesis by (auto simp: three)
qed

theorem counters_account_witness:
  "detected_count (worker_loop default_config concat_digest copy_run two_copies) = 2"
proof -
  have "healthy (w_db two_copies)"
    using empty_db_wf by (simp add: two_copies_def demo_world_def healthy_def good_server_def [symmetric])
      (simp add: empty_db_def good_server_def)
  note counts = counters_account [OF this, of default_config concat_digest copy_run]
  have "loop_step default_config concat_digest (Others copy_scan) two_copies = copy_state (Suc 0)"
    by (simp add: copy_states(2))
  moreover have "loop_step default_config concat_digest (Own_Turn copy_answers) (copy_state (Suc 0)) = copy_state 2"
    by (simp add: copy_state_def worker_loop_def copy_run_def numeral_2_eq_2)
  ultimately have "files_taken default_config concat_digest copy_run two_copies = 2"
    by (simp add: copy_run_def takes_file_def copy_states(4,6) del: loop_step.simps)
  with counts show ?thesis
    by (simp add: two_copies_def demo_world_def counter_defs initial_metrics_def)
qed

lemma copy_engine: "a_engine copy_answers = Some (\<lambda>src dst st fs. (True, write_file fs dst [7] 0))"
  by (simp add: copy_answers_def)

lemma copy_completes:
  assumes "all_named (w_db s)"
  shows "completed_count (convert_stage cfg D copy_answers p h s) = completed_count s + 1"
    and "all_named (w_db (convert_stage cfg D copy_answers p h s))"
proof -
  have "length (a_tok copy_answers) \<le> 28" by (simp add: copy_answers_def demo_answers_def)
  note al = allocate_named [OF assms this]
  note full = convert_stage_done [OF conjunct1 [OF al] _ copy_engine _ refl refl refl refl]
  show "completed_count (convert_stage cfg D copy_answers p h s) = completed_count s + 1"
    by (rule full(2)) (use al in simp_all)
  obtain r where db: "w_db (convert_stage cfg D copy_answers p h s) =
      snd (InsertImport r (snd (AllocateSequence (a_tok copy_answers) (w_db s))))"
    by (rule that, rule full(1)) (use al in simp_all)
  have "sequences (w_db (convert_stage cfg D copy_answers p h s)) = sequences (w_db s) @ [(seq_next (w_db s), seq_name (seq_next (w_db s)))]"
    using al by (simp add: db InsertImport_def send_def)
  moreover have "healthy (w_db s)" using assms by (simp add: all_named_def healthy_def willing_def)
  from healthy_convert [OF this, of cfg D copy_answers p h]
  have "db_wf (w_db (convert_stage cfg D copy_answers p h s))" by (simp add: healthy_def)
  moreover have "srv (w_db (convert_stage cfg D copy_answers p h s)) = srv (w_db s)"
    using import_reach_frame convert_stage_traffic [of s undefined cfg D copy_answers p h] by fastforce
  ultimately show "all_named (w_db (convert_stage cfg D copy_answers p h s))"
    using assms by (auto simp: all_named_def)
qed

theorem race_imports_twice_witness:
  "\<exists>s2. only_sent (w_db two_copies) (w_db s2) \<and>
     source_hashes (w_db (convert_stage default_config concat_digest copy_answers copy_path ''0102''
       (convert_stage default_config concat_digest copy_answers demo_path ''0102'' s2))) = [''0102'', ''0102'']"
proof -
  define s1 where "s1 = snd (on_db (GetImportByHash ''0102'') two_copies)"
  define s2 where "s2 = snd (on_db (GetImportByHash ''0102'') s1)"
  define s3 where "s3 = convert_stage default_config concat_digest copy_answers demo_path ''0102'' s2"
  have d: "w_db two_copies = empty_db good_server" by (simp add: two_copies_def demo_world_def)
  have h: "healthy (w_db two_copies)"
    using empty_db_wf by (simp add: d healthy_def good_server_def [symmetric]) (simp add: empty_db_def good_server_def)
  have none: "fst (GetImportByHash ''0102'' (w_db two_copies)) = None"
    by (simp add: d GetImportByHash_def select_import_eq first_row_def empty_db_def limit1_def)
  have sent: "only_sent (w_db two_copies) (w_db s2)"
    using only_sent_trans [OF reads_only_sent(2) reads_only_sent(2)] by (simp add: s1_def s2_def)
  then have n2: "all_named (w_db s2)"
    using h by (auto simp: only_sent_def all_named_def d empty_db_def healthy_def db_wf_def)
  have w2: "w_db s2 = (empty_db good_server)\<lparr>stmt_no := stmt_no (w_db s2)\<rparr>"
    using sent by (auto simp: only_sent_def d)
  have n3: "all_named (w_db s3)" using copy_completes(2) [OF n2] by (simp add: s3_def)
  have c2: "completed_count s3 = completed_count s2 + 1" unfolding s3_def by (rule copy_completes(1) [OF n2])
  have c3: "completed_count (convert_stage default_config concat_digest copy_answers copy_path ''0102'' s3) = completed_count s3 + 1"
    by (rule copy_completes(1) [OF n3])
  have "source_hashes (w_db two_copies) = []" by (simp add: d source_hashes_def empty_db_def)
  with race_imports_twice [OF h none s1_def s2_def s3_def c2 refl c3] sent show ?thesis
    unfolding s3_def by auto
qed

end
