(* ===== verification/Retry_Cycle.thy ===== *)
theory Retry_Cycle
  imports Import_Once
begin

text \<open>
  The retry cycle of a failing file (\<open>src/src/worker.cpp\<close>), across the poller, a worker thread, the
  failure counters and the dead-letter folder: scan, take, process, release, expiry of the
  \<open>seen\<close> entry, scan again.
\<close>

section \<open>One round\<close>

text \<open>
  A scan that lists one entry at time \<open>now\<close>, the turn of a worker thread that finds it in the
  queue, and the clean-up of \<open>seen\<close> at time \<open>later\<close>.
\<close>

definition retry_round ::
  "config \<Rightarrow> ('c, 'm) digest_scheme \<Rightarrow> dir_entry \<Rightarrow> answers \<times> int \<times> int \<Rightarrow> world \<Rightarrow> world" where
  "retry_round cfg D e r s =
     (case r of (a, now, later) \<Rightarrow>
        on_pool (cleanup_seen_ttl cfg later) (worker_turn cfg D a (on_pool (poll_scan cfg now [e]) s)))"

section \<open>A failing file\<close>

text \<open>
  The engine is missing or does not convert this file, and leaves the file alone.
\<close>

definition engine_fails :: "answers \<Rightarrow> path \<Rightarrow> bool" where
  "engine_fails a p \<longleftrightarrow> (\<forall>run. a_engine a = Some run \<longrightarrow>
     (\<forall>dst st fs. \<not> fst (run p dst st fs) \<and> content (snd (run p dst st fs)) p = content fs p))"

text \<open>No import has the file's hash, and the fingerprint cache holds nothing else for the path.\<close>

definition not_imported :: "string \<Rightarrow> db \<Rightarrow> bool" where
  "not_imported h d \<longleftrightarrow> (\<forall>r \<in> set (import_rows d). \<not> txt_eq (srv d) (source_hash r) h \<and> \<not> txt_eq (srv d) (output_hash r) h)"

definition cache_sound :: "path \<Rightarrow> string \<Rightarrow> pool \<Rightarrow> bool" where
  "cache_sound p h w \<longleftrightarrow> (\<forall>(q, e) \<in> set (fp_cache w). q = p \<longrightarrow> fpe_sha e = h)"

lemma not_imported_lookup: "not_imported h d \<Longrightarrow> fst (GetImportByHash h d) = None"
proof -
  assume "not_imported h d"
  then have "[r \<leftarrow> import_rows d. txt_eq (srv d) (source_hash r) h \<or> txt_eq (srv d) (output_hash r) h] = []"
    by (auto simp: not_imported_def filter_empty_conv)
  then show ?thesis
    by (simp add: GetImportByHash_def select_import_eq first_row_def limit1_def)
qed

lemma set_update: "set (AList.update k v al) \<subseteq> insert (k, v) (set al)"
  by (induction al) auto

lemma evict_subset: "set (evict_to n c) \<subseteq> set c"
proof (induction n c rule: evict_to.induct)
  case (1 n c)
  show ?case
  proof (cases "length c > n")
    case True
    with 1 have "set (evict_to n (erase_key (fst (oldest_entry (hd c) c)) c)) \<subseteq> set (erase_key (fst (oldest_entry (hd c) c)) c)" by blast
    also have "\<dots> \<subseteq> set c" by (auto simp: erase_key_def)
    finally show ?thesis using True by (subst evict_to.simps) simp
  next
    case False
    then show ?thesis by (subst evict_to.simps) simp
  qed
qed

text \<open>The pool but for the fingerprint cache.\<close>

definition same_queues :: "pool \<Rightarrow> pool \<Rightarrow> bool" where
  "same_queues w w' \<longleftrightarrow> fileq w' = fileq w \<and> seen w' = seen w \<and> inflight w' = inflight w \<and> fail_counts w' = fail_counts w"

lemma hash_stage_pool:
  assumes "cache_sound p h (w_pool s)" "sha256_file D (w_fs s) p = h"
  shows "fst (hash_stage cfg D a p s) = h \<and> cache_sound p h (w_pool (snd (hash_stage cfg D a p s))) \<and>
         same_queues (w_pool s) (w_pool (snd (hash_stage cfg D a p s)))"
proof -
  have upd: "cache_sound p h (w\<lparr>fp_cache := AList.update p e (fp_cache w)\<rparr>)"
    if "cache_sound p h w" "fpe_sha e = h" for w e
    using that set_update [of p e "fp_cache w"] by (fastforce simp: cache_sound_def)
  have evict: "cache_sound p h (evict_fp_cache w)" if "cache_sound p h w" for w
    using that evict_subset [of kMaxEntries "fp_cache w"] by (fastforce simp: cache_sound_def evict_fp_cache_def)
  have hit: "fpe_sha e = h" if "cache_hit (w_pool s) p fp = Some e" for fp e
    using that assms(1) by (auto simp: cache_hit_def cache_sound_def split: option.splits if_splits dest!: map_of_SomeD)
  have queues: "same_queues w (w\<lparr>fp_cache := c\<rparr>)" "same_queues w (evict_fp_cache (w\<lparr>fp_cache := c\<rparr>))" for w c
    by (simp_all add: same_queues_def evict_fp_cache_def)
  have refl: "same_queues w w" for w by (simp add: same_queues_def)
  show ?thesis
    using assms hit upd evict queues refl
    by (auto simp: hash_stage_def Let_def split: option.split)
qed

text \<open>A file with new content passes the first two stages.\<close>

lemma ProcessFile_unknown:
  assumes "cache_sound p h (w_pool s)" "sha256_file D (w_fs s) p = h" "not_imported h (w_db s)"
  obtains s1 s2 where
    "ProcessFile cfg D a p s = (if h = [] then move_to_dead_letter cfg a p s1 else convert_stage cfg D a p h s2)"
    "w_fs s1 = w_fs s" "w_db s1 = w_db s" "cache_sound p h (w_pool s1)" "same_queues (w_pool s) (w_pool s1)"
    "w_fs s2 = w_fs s" "only_sent (w_db s) (w_db s2)" "w_pool s2 = w_pool s1"
proof -
  define s0 where "s0 = on_met (inc_files_detected 1) s"
  define s1 where "s1 = snd (hash_stage cfg D a p s0)"
  have s0: "w_pool s0 = w_pool s" "w_fs s0 = w_fs s" "w_db s0 = w_db s" by (simp_all add: s0_def)
  note hs = hash_stage_pool [of p h s0 D cfg a, unfolded s0, OF assms(1,2)]
  have s1: "fst (hash_stage cfg D a p s0) = h" "cache_sound p h (w_pool s1)" "same_queues (w_pool s) (w_pool s1)"
    "w_fs s1 = w_fs s" "w_db s1 = w_db s"
    using hs s0 by (simp_all add: s1_def)
  define s2 where "s2 = snd (on_db (GetImportByHash h) s1)"
  have "ProcessFile cfg D a p s = (if h = [] then move_to_dead_letter cfg a p s1 else convert_stage cfg D a p h s2)"
    using s1(1,5) not_imported_lookup [OF assms(3)]
    by (simp add: ProcessFile_def split_beta s0_def [symmetric] s1_def [symmetric] s2_def Let_def)
  moreover have "w_pool s2 = w_pool s1" "w_fs s2 = w_fs s" "only_sent (w_db s) (w_db s2)"
    using s1 reads_only_sent(2) [of "w_db s1" h] by (simp_all add: s2_def)
  ultimately show ?thesis using that s1 by blast
qed

text \<open>A failing file goes to \<open>move_to_dead_letter\<close>, whichever stage gives up.\<close>

lemma ProcessFile_failing:
  assumes "content (w_fs s) p = Some bs" "cache_sound p h (w_pool s)" "sha256_file D (w_fs s) p = h"
    and "not_imported h (w_db s)" "engine_fails a p"
  obtains s1 where "ProcessFile cfg D a p s = move_to_dead_letter cfg a p s1 \<or>
      ProcessFile cfg D a p s = on_pool (release_inflight p) (move_to_dead_letter cfg a p s1)"
    "content (w_fs s1) p = Some bs" "cache_sound p h (w_pool s1)" "same_queues (w_pool s) (w_pool s1)"
    "import_rows (w_db s1) = import_rows (w_db s)" "srv (w_db s1) = srv (w_db s)" "alerts (w_db s1) = alerts (w_db s)"
proof -
  obtain s1 s2 where P: "ProcessFile cfg D a p s =
      (if h = [] then move_to_dead_letter cfg a p s1 else convert_stage cfg D a p h s2)"
    and s1: "w_fs s1 = w_fs s" "w_db s1 = w_db s" "cache_sound p h (w_pool s1)" "same_queues (w_pool s) (w_pool s1)"
    and P2: "w_fs s2 = w_fs s" "only_sent (w_db s) (w_db s2)" "w_pool s2 = w_pool s1"
    by (rule ProcessFile_unknown [OF assms(2-4)])
  have s2: "w_pool s2 = w_pool s1" "w_fs s2 = w_fs s" "import_rows (w_db s2) = import_rows (w_db s)"
    "srv (w_db s2) = srv (w_db s)" "alerts (w_db s2) = alerts (w_db s)"
    using P2 by (auto simp: only_sent_def)
  show ?thesis
  proof (cases "h = []")
    case True
    then show ?thesis using that [of s1] P s1 assms(1) by simp
  next
    case False
    obtain n name d1 where al: "AllocateSequence (a_tok a) (w_db s2) = ((n, name), d1)" by (metis prod.exhaust)
    have rest: "import_rows d1 = import_rows (w_db s)" "srv d1 = srv (w_db s)" "alerts d1 = alerts (w_db s)"
      using AllocateSequence_rest [of "w_db s2" "a_tok a"] al s2 by (simp_all add: same_rest_def)
    define s3 where "s3 = on_met (observe_db_duration (a_rnd a) (a_dur a 3))
        (snd (on_db (AllocateSequence (a_tok a)) (on_met (observe_exif_duration (a_rnd a) (a_dur a 2)) s2)))"
    have s3: "w_db s3 = d1" "w_fs s3 = w_fs s" "w_pool s3 = w_pool s1" using al s2 by (simp_all add: s3_def)
    show ?thesis
    proof (cases "n = 0")
      case True
      then have "ProcessFile cfg D a p s = move_to_dead_letter cfg a p s3"
        using P False by (simp add: convert_stage_def Let_def split_beta s3_def al)
      then show ?thesis using that [of s3] s3 s1 rest assms(1) by simp
    next
      case n: False
      define fld where "fld = build_folder_schema (cfg_folder_schema cfg) (ex_date (exif_stage a p (w_fs s2)))"
      define s4 where "s4 = snd (engine_stage cfg a p fld name s3)"
      have eng: "\<not> fst (engine_stage cfg a p fld name s3)" "content (w_fs s4) p = Some bs"
        "w_pool s4 = w_pool s1" "w_db s4 = d1"
        using assms(1,5) s3 engine_stage_db [of cfg a p fld name s3]
        by (auto simp: s4_def engine_stage_def Let_def split_beta engine_fails_def split: option.split)
      let ?s5 = "on_met (inc_conversions_completed ''failed'' 1) s4"
      have "ProcessFile cfg D a p s = on_pool (release_inflight p) (move_to_dead_letter cfg a p ?s5)"
        using P False n eng(1)
        by (simp add: convert_stage_def Let_def split_beta s3_def [symmetric] al result_stage_def fld_def [symmetric] s4_def)
      then show ?thesis using that [of ?s5] eng s1 rest by simp
    qed
  qed
qed

section \<open>Rounds\<close>

text \<open>The file lies in the watch folder, unknown to the queue, with \<open>n\<close> failures so far.\<close>

definition waiting :: "path \<Rightarrow> byte list \<Rightarrow> string \<Rightarrow> nat \<Rightarrow> world \<Rightarrow> bool" where
  "waiting p bs h n s \<longleftrightarrow> content (w_fs s) p = Some bs \<and> cache_sound p h (w_pool s) \<and> fileq (w_pool s) = [] \<and>
     p \<notin> inflight (w_pool s) \<and> seen (w_pool s) p = None \<and>
     fail_counts (w_pool s) p = (if n = 0 then None else Some (int n)) \<and> not_imported h (w_db s)"

definition dead_move_works :: "config \<Rightarrow> answers \<Rightarrow> path \<Rightarrow> bool" where
  "dead_move_works cfg a p \<longleftrightarrow>
     (\<forall>fs n. content fs p \<noteq> None \<longrightarrow> fst (move_file (a_move_dead a) p (dead_path cfg p n) fs))"

text \<open>A round in which the file fails again.\<close>

definition failing_round :: "config \<Rightarrow> path \<Rightarrow> answers \<times> int \<times> int \<Rightarrow> bool" where
  "failing_round cfg p r \<longleftrightarrow>
     (case r of (a, now, later) \<Rightarrow>
        engine_fails a p \<and> dead_move_works cfg a p \<and> later - now > 2 * poll_interval_sec cfg * 1000000000)"

lemma sha_content: "content fs p = content fs' p \<Longrightarrow> sha256_file D fs p = sha256_file D fs' p"
  by (simp add: sha256_file_def)

lemma dead_letter_cases:
  assumes "fail_counts (w_pool s) p = (if n = 0 then None else Some (int n))" "content (w_fs s) p = Some bs"
    and "dead_move_works cfg a p" "watched cfg p"
  defines "s' \<equiv> move_to_dead_letter cfg a p s"
  shows "fileq (w_pool s') = fileq (w_pool s) \<and> seen (w_pool s') = seen (w_pool s) \<and>
    inflight (w_pool s') = inflight (w_pool s) - {p} \<and> fp_cache (w_pool s') = fp_cache (w_pool s) \<and>
    import_rows (w_db s') = import_rows (w_db s) \<and> srv (w_db s') = srv (w_db s) \<and>
    (if int n + 1 < dead_letter_max_retries cfg
     then fail_counts (w_pool s') p = Some (int n + 1) \<and> content (w_fs s') p = Some bs
     else fail_counts (w_pool s') p = None \<and> content (w_fs s') p = None \<and>
          content (w_fs s') (dead_path cfg p (int n + 1)) = Some bs)"
proof -
  let ?dst = "dead_path cfg p (int n + 1)"
  let ?fs = "snd (ensure_dir (a_mkdir_dead a) (archive_dir cfg @ ''/failed'') (w_fs s))"
  obtain ok fs' where m: "move_file (a_move_dead a) p ?dst ?fs = (ok, fs')" by fastforce
  have src: "content ?fs p = Some bs" using assms(2) by simp
  then have "fst (move_file (a_move_dead a) p ?dst ?fs)"
    using assms(3) unfolding dead_move_works_def by blast
  then have ok: "ok" by (simp only: m fst_conv)
  have ne: "p \<noteq> ?dst" by (rule watched_neq(1) [OF assms(4)])
  have moved: "content fs' ?dst = Some bs" "content fs' p = None"
    using mv.not_lost [OF ne src m] mv.ok_source_gone [OF ne] m ok by simp_all
  have al: "import_rows (snd (InsertAlert a b c e d)) = import_rows d" "srv (snd (InsertAlert a b c e d)) = srv d" for a b c e d
    by (auto simp: InsertAlert_def send_def Let_def split: option.split)
  have b: "bump_failure cfg p (w_pool (on_pool (release_inflight p) s)) =
     (int n + 1, int n + 1 \<ge> dead_letter_max_retries cfg,
      (release_inflight p (w_pool s))\<lparr>fail_counts := (fail_counts (w_pool s))(p :=
         if int n + 1 \<ge> dead_letter_max_retries cfg then None else Some (int n + 1))\<rparr>)"
    using assms(1) by (auto simp: bump_failure_def Let_def release_inflight_def)
  show ?thesis
  proof (cases "int n + 1 < dead_letter_max_retries cfg")
    case True
    then show ?thesis using assms(2) b
      by (simp add: s'_def move_to_dead_letter_def Let_def release_inflight_def)
  next
    case False
    then show ?thesis using b m ok moved
      by (simp add: s'_def move_to_dead_letter_def Let_def split_beta release_inflight_def al)
  qed
qed

text \<open>A scan that finds the waiting file, and the worker's turn that takes it.\<close>

lemma scan_and_take:
  assumes "waiting p bs h n s" "poll_accepts cfg (p, True, age)"
  obtains t where
    "worker_turn cfg D a (on_pool (poll_scan cfg now [(p, True, age)]) s) =
       on_pool (\<lambda>w. w\<lparr>active_workers := active_workers w - 1\<rparr>) (ProcessFile cfg D a p t)"
    "w_fs t = w_fs s" "w_db t = w_db s" "fileq (w_pool t) = []" "seen (w_pool t) = (seen (w_pool s))(p \<mapsto> now)"
    "inflight (w_pool t) = insert p (inflight (w_pool s))" "fail_counts (w_pool t) = fail_counts (w_pool s)"
    "fp_cache (w_pool t) = fp_cache (w_pool s)"
proof -
  define w where "w = (w_pool s)\<lparr>seen := (seen (w_pool s))(p \<mapsto> now), fileq := [p], queue_depth := queue_depth (w_pool s) + 1\<rparr>"
  have scan: "poll_scan cfg now [(p, True, age)] (w_pool s) = w"
    using assms by (simp add: poll_scan_def poll_entry_def waiting_def w_def)
  define w1 where "w1 = w\<lparr>fileq := [], queue_depth := queue_depth w - 1, active_workers := active_workers w + 1,
      inflight := insert p (inflight w)\<rparr>"
  have pop: "pop_file w = Some (p, w1)" by (simp add: pop_file_def w_def w1_def)
  show ?thesis
    by (rule that [of "(on_pool (poll_scan cfg now [(p, True, age)]) s)\<lparr>w_pool := w1\<rparr>"])
      (use scan pop in \<open>simp_all add: worker_turn_def on_pool_def w1_def w_def\<close>)
qed

lemma retry_round_step:
  assumes "waiting p bs h n s" "poll_accepts cfg (p, True, age)" "watched cfg p" "failing_round cfg p r"
    and "\<And>fs. content fs p = Some bs \<Longrightarrow> sha256_file D fs p = h"
  defines "s' \<equiv> retry_round cfg D (p, True, age) r s"
  shows "if int n + 1 < dead_letter_max_retries cfg then waiting p bs h (Suc n) s'
         else content (w_fs s') p = None \<and> content (w_fs s') (dead_path cfg p (int n + 1)) = Some bs \<and>
              fail_counts (w_pool s') p = None \<and> import_rows (w_db s') = import_rows (w_db s)"
proof -
  obtain a now later where r: "r = (a, now, later)" by (cases r) auto
  have r': "engine_fails a p" "dead_move_works cfg a p" "later - now > 2 * poll_interval_sec cfg * 1000000000"
    using assms(4) by (simp_all add: failing_round_def r)
  obtain t where take: "worker_turn cfg D a (on_pool (poll_scan cfg now [(p, True, age)]) s) =
       on_pool (\<lambda>w. w\<lparr>active_workers := active_workers w - 1\<rparr>) (ProcessFile cfg D a p t)"
    and t: "w_fs t = w_fs s" "w_db t = w_db s" "fileq (w_pool t) = []" "seen (w_pool t) = (seen (w_pool s))(p \<mapsto> now)"
      "inflight (w_pool t) = insert p (inflight (w_pool s))" "fail_counts (w_pool t) = fail_counts (w_pool s)"
      "fp_cache (w_pool t) = fp_cache (w_pool s)"
    by (rule scan_and_take [OF assms(1,2)])
  have c: "content (w_fs t) p = Some bs" "cache_sound p h (w_pool t)" "not_imported h (w_db t)"
    using assms(1) t by (simp_all add: waiting_def cache_sound_def)
  obtain s1 where s1: "ProcessFile cfg D a p t = move_to_dead_letter cfg a p s1 \<or>
        ProcessFile cfg D a p t = on_pool (release_inflight p) (move_to_dead_letter cfg a p s1)"
      "content (w_fs s1) p = Some bs" "cache_sound p h (w_pool s1)" "same_queues (w_pool t) (w_pool s1)"
      "import_rows (w_db s1) = import_rows (w_db t)" "srv (w_db s1) = srv (w_db t)"
    using ProcessFile_failing [OF c(1,2) assms(5) [OF c(1)] c(3) r'(1)] by blast
  have q1: "fileq (w_pool s1) = []" "seen (w_pool s1) = (seen (w_pool s))(p \<mapsto> now)"
    "fail_counts (w_pool s1) = fail_counts (w_pool s)" "inflight (w_pool s1) = insert p (inflight (w_pool s))"
    using s1(4) t by (simp_all add: same_queues_def)
  have fc: "fail_counts (w_pool s1) p = (if n = 0 then None else Some (int n))"
    using assms(1) q1(3) by (simp add: waiting_def)
  note dl = dead_letter_cases [OF fc s1(2) r'(2) assms(3)]
  define u where "u = ProcessFile cfg D a p t"
  define d where "d = move_to_dead_letter cfg a p s1"
  have u: "fileq (w_pool u) = []" "seen (w_pool u) p = Some now" "p \<notin> inflight (w_pool u)"
    "fail_counts (w_pool u) = fail_counts (w_pool d)" "fp_cache (w_pool u) = fp_cache (w_pool s1)"
    "w_fs u = w_fs d" "import_rows (w_db u) = import_rows (w_db s)" "srv (w_db u) = srv (w_db s)"
  proof -
    have d: "fileq (w_pool d) = []" "seen (w_pool d) p = Some now" "p \<notin> inflight (w_pool d)"
      "fp_cache (w_pool d) = fp_cache (w_pool s1)" "import_rows (w_db d) = import_rows (w_db s)" "srv (w_db d) = srv (w_db s)"
      using dl q1 s1(5,6) t(2) by (simp_all add: d_def)
    have "u = d \<or> u = on_pool (release_inflight p) d" using s1(1) by (simp only: u_def d_def)
    then show "fileq (w_pool u) = []" "seen (w_pool u) p = Some now" "p \<notin> inflight (w_pool u)"
      "fail_counts (w_pool u) = fail_counts (w_pool d)" "fp_cache (w_pool u) = fp_cache (w_pool s1)"
      "w_fs u = w_fs d" "import_rows (w_db u) = import_rows (w_db s)" "srv (w_db u) = srv (w_db s)"
      using d by (elim disjE; simp add: release_inflight_def)+
  qed
  have s': "s' = on_pool (cleanup_seen_ttl cfg later) (on_pool (\<lambda>w. w\<lparr>active_workers := active_workers w - 1\<rparr>) u)"
    using take by (simp add: s'_def retry_round_def r u_def)
  then have p': "fileq (w_pool s') = []" "seen (w_pool s') p = None" "p \<notin> inflight (w_pool s')"
    "fail_counts (w_pool s') = fail_counts (w_pool d)" "fp_cache (w_pool s') = fp_cache (w_pool s1)"
    "w_fs s' = w_fs d" "w_db s' = w_db u"
    using u r'(3) by (simp_all add: cleanup_seen_ttl_def Let_def)
  show ?thesis
  proof (cases "int n + 1 < dead_letter_max_retries cfg")
    case True
    with dl have "fail_counts (w_pool d) p = Some (int n + 1)" "content (w_fs d) p = Some bs" by (simp_all add: d_def)
    then show ?thesis
      using True p' u(7,8) s1(3) assms(1) by (simp add: waiting_def cache_sound_def not_imported_def)
  next
    case False
    with dl have "fail_counts (w_pool d) p = None" "content (w_fs d) p = None"
      "content (w_fs d) (dead_path cfg p (int n + 1)) = Some bs" by (simp_all add: d_def)
    then show ?thesis using False p' u(7) by simp
  qed
qed

lemma retry_rounds_waiting:
  assumes "waiting p bs h 0 s" "poll_accepts cfg (p, True, age)" "watched cfg p" "\<forall>r \<in> set rs. failing_round cfg p r"
    and "\<And>fs. content fs p = Some bs \<Longrightarrow> sha256_file D fs p = h" "int (length rs) < dead_letter_max_retries cfg"
  shows "waiting p bs h (length rs) (fold (retry_round cfg D (p, True, age)) rs s)"
  using assms(4,6)
proof (induction rs rule: rev_induct)
  case Nil
  then show ?case using assms(1) by simp
next
  case (snoc r rs)
  then have w: "waiting p bs h (length rs) (fold (retry_round cfg D (p, True, age)) rs s)" by simp
  from retry_round_step [OF w assms(2,3), of r D] assms(5) snoc.prems show ?case by simp
qed

text \<open>
  C9: A file that keeps failing is retried and then set aside: in every round the poller queues it
  again, a worker takes it and fails; for as long as there were fewer than
  \<open>DEAD_LETTER_MAX_RETRIES\<close> failures it stays where it is, with the failures counted; the round
  that reaches the limit moves it, bytes unchanged, to the dead-letter folder under the number of
  failures and forgets its count.
\<close>

theorem failing_file_dead_lettered:
  assumes "waiting p bs h 0 s" "poll_accepts cfg (p, True, age)" "watched cfg p" "\<forall>r \<in> set rs. failing_round cfg p r"
    and "\<forall>fs. content fs p = Some bs \<longrightarrow> sha256_file D fs p = h"
    and "int (length rs) = dead_letter_max_retries cfg" "0 < dead_letter_max_retries cfg"
  shows "(\<forall>k < length rs. let s' = fold (retry_round cfg D (p, True, age)) (take k rs) s
             in content (w_fs s') p = Some bs \<and> failure_count p (w_pool s') = int k) \<and>
         (let s' = fold (retry_round cfg D (p, True, age)) rs s
          in content (w_fs s') p = None \<and> content (w_fs s') (dead_path cfg p (dead_letter_max_retries cfg)) = Some bs \<and>
             failure_count p (w_pool s') = 0)"
proof
  have sha: "\<And>fs. content fs p = Some bs \<Longrightarrow> sha256_file D fs p = h" using assms(5) by blast
  show "\<forall>k < length rs. let s' = fold (retry_round cfg D (p, True, age)) (take k rs) s
             in content (w_fs s') p = Some bs \<and> failure_count p (w_pool s') = int k"
  proof (intro allI impI)
    fix k assume k: "k < length rs"
    have "waiting p bs h (length (take k rs)) (fold (retry_round cfg D (p, True, age)) (take k rs) s)"
      using assms(4,6) k by (intro retry_rounds_waiting [OF assms(1-3) _ sha]) (auto dest: in_set_takeD)
    then show "let s' = fold (retry_round cfg D (p, True, age)) (take k rs) s
             in content (w_fs s') p = Some bs \<and> failure_count p (w_pool s') = int k"
      using k by (auto simp: waiting_def failure_count_def)
  qed
  obtain qs r where rs: "rs = qs @ [r]" using assms(6,7) by (cases rs rule: rev_cases) auto
  have w: "waiting p bs h (length qs) (fold (retry_round cfg D (p, True, age)) qs s)"
    using assms(4,6) rs by (intro retry_rounds_waiting [OF assms(1-3) _ sha]) auto
  from retry_round_step [OF w assms(2,3) _ sha, of r] assms(4,6) rs
  show "let s' = fold (retry_round cfg D (p, True, age)) rs s
          in content (w_fs s') p = None \<and> content (w_fs s') (dead_path cfg p (dead_letter_max_retries cfg)) = Some bs \<and>
             failure_count p (w_pool s') = 0"
    by (simp add: failure_count_def add.commute)
qed

definition no_engine :: answers where
  "no_engine = demo_answers\<lparr>a_engine := None\<rparr>"

definition three_rounds :: "(answers \<times> int \<times> int) list" where
  "three_rounds = [(no_engine, 0, 21000000000), (no_engine, 22000000000, 43000000000), (no_engine, 44000000000, 65000000000)]"

theorem failing_file_dead_lettered_witness:
  "content (w_fs (fold (retry_round default_config concat_digest (demo_path, True, 60)) three_rounds (demo_world good_server)))
     ''/archive/failed/DSC_1.NEF.failcount.3'' = Some [1, 2]"
proof -
  let ?s = "demo_world good_server"
  have cfg: "dead_letter_max_retries default_config = 3" "poll_interval_sec default_config = 10" by (simp_all add: default_config_def)
  have "waiting demo_path [1, 2] ''0102'' 0 ?s"
    using demo_facts(1)
    by (simp add: waiting_def cache_sound_def not_imported_def demo_world_def empty_pool_def empty_db_def)
  moreover have "poll_accepts default_config (demo_path, True, 60)" unfolding demo_path_def by code_simp
  moreover have "engine_fails no_engine demo_path" by (simp add: engine_fails_def no_engine_def)
  moreover have "dead_move_works default_config no_engine demo_path"
    using rename_always by (simp add: dead_move_works_def no_engine_def demo_answers_def)
  ultimately have pre: "waiting demo_path [1, 2] ''0102'' 0 ?s" "poll_accepts default_config (demo_path, True, 60)"
    "\<forall>r \<in> set three_rounds. failing_round default_config demo_path r"
    by (simp_all add: three_rounds_def failing_round_def cfg)
  have "to_hex [1, 2] = ''0102''" by code_simp
  then have "\<forall>fs. content fs demo_path = Some [1, 2] \<longrightarrow> sha256_file concat_digest fs demo_path = ''0102''"
    by (simp add: sha_concat)
  from failing_file_dead_lettered [OF pre(1,2) demo_facts(2) pre(3) this]
  have "content (w_fs (fold (retry_round default_config concat_digest (demo_path, True, 60)) three_rounds ?s))
     (dead_path default_config demo_path 3) = Some [1, 2]"
    by (simp add: cfg three_rounds_def Let_def)
  moreover have "dead_path default_config demo_path 3 = ''/archive/failed/DSC_1.NEF.failcount.3''"
    unfolding dead_path_def demo_path_def by code_simp
  ultimately show ?thesis by (simp only:)
qed

end
