(* ===== verification/Import_Flow.thy ===== *)
theory Import_Flow
  imports Retry_Cycle
begin

text \<open>
  What the service is for, across the poller, a worker thread, the external engine, the database
  and the files (\<open>src/src/worker.cpp\<close>): a new file in the watch folder becomes a numbered DNG with a
  row of its own, and its original is archived; however often it has failed before.
\<close>

section \<open>A new file is imported\<close>

text \<open>The engine converts this file, and writes nothing but its output.\<close>

definition converts :: "config \<Rightarrow> answers \<Rightarrow> path \<Rightarrow> bool" where
  "converts cfg a p \<longleftrightarrow> engine_frame a \<and>
     (\<exists>run. a_engine a = Some run \<and> (\<forall>fs dst. fst (run p dst (worker_settings cfg) fs)))"

text \<open>A worker that has just taken such a file from the queue.\<close>

lemma queued_file_imported:
  assumes "content (w_fs t) p = Some bs" "cache_sound p h (w_pool t)" "not_imported h (w_db t)" "fileq (w_pool t) = []"
    and "sha256_file D (w_fs t) p = h" "h \<noteq> []" "watched cfg p" "converts cfg a p" "\<forall>fld. archive_works cfg a p fld"
    and "all_named (w_db t)" "length (a_tok a) \<le> 28"
    and "s' = on_pool (\<lambda>w. w\<lparr>active_workers := active_workers w - 1\<rparr>) (ProcessFile cfg D a p t)"
  shows "\<exists>r fld. import_rows (w_db s') = import_rows (w_db t) @ [r] \<and> sequence_id r = seq_next (w_db t) \<and>
    seq_next (w_db s') = seq_next (w_db t) + 1 \<and>
    source_path r = p \<and> source_hash r = h \<and> status r = Completed \<and>
    fld = build_folder_schema (cfg_folder_schema cfg) (ex_date (exif_stage a p (w_fs t))) \<and>
    output_path r = output_dir cfg @ ''/'' @ fld @ ''/IMG_'' @ dec_int (seq_next (w_db t)) @ ''.dng'' \<and>
    moved_to p bs (archive_dir cfg @ ''/'' @ fld @ ''/'' @ filename p) (w_fs s') \<and>
    fileq (w_pool s') = [] \<and> p \<notin> inflight (w_pool s') \<and> failure_count p (w_pool s') = 0"
proof -
  obtain s1 s2 where P0: "ProcessFile cfg D a p t =
      (if h = [] then move_to_dead_letter cfg a p s1 else convert_stage cfg D a p h s2)"
    and s2: "w_fs s2 = w_fs t" "only_sent (w_db t) (w_db s2)"
    by (rule ProcessFile_unknown [OF assms(2,5,3)])
  have P: "ProcessFile cfg D a p t = convert_stage cfg D a p h s2" using P0 assms(6) by simp
  have db: "all_named (w_db s2)" "seq_next (w_db s2) = seq_next (w_db t)" "import_rows (w_db s2) = import_rows (w_db t)"
    using assms(10) s2(2) by (auto simp: only_sent_def all_named_def db_wf_def)
  obtain run where run: "engine_frame a" "a_engine a = Some run" "\<forall>fs dst. fst (run p dst (worker_settings cfg) fs)"
    using assms(8) by (auto simp: converts_def)
  let ?fld = "build_folder_schema (cfg_folder_schema cfg) (ex_date (exif_stage a p (w_fs s2)))"
  have ok: "db_wf (w_db s2)" "\<forall>r. row_ok (srv (w_db s2)) r" "stmt_ok (srv (w_db s2)) k" for k
    using db(1) by (simp_all add: all_named_def willing_def)
  note al = allocate_named [OF db(1) assms(11)]
  have c2: "content (w_fs s2) p = Some bs" using assms(1) s2 by simp
  from convert_stage_imports [OF c2 assms(7) run refl _ ok(1) conjunct1 [OF al] _ ok(2,3), of D h] al assms(9)
  obtain r where r: "import_rows (w_db (convert_stage cfg D a p h s2)) = import_rows (w_db s2) @ [r]"
    "sequence_id r = seq_next (w_db s2)" "source_path r = p" "source_hash r = h" "status r = Completed"
    "output_path r = output_dir cfg @ ''/'' @ ?fld @ ''/IMG_'' @ dec_int (seq_next (w_db s2)) @ ''.dng''"
    "moved_to p bs (archive_dir cfg @ ''/'' @ ?fld @ ''/'' @ filename p) (w_fs (convert_stage cfg D a p h s2))"
    "p \<notin> inflight (w_pool (convert_stage cfg D a p h s2))" "fail_counts (w_pool (convert_stage cfg D a p h s2)) p = None"
    by auto
  obtain row where "w_db (convert_stage cfg D a p h s2) = snd (InsertImport row (snd (AllocateSequence (a_tok a) (w_db s2))))"
    using convert_stage_done(1) [OF conjunct1 [OF al] _ run(2) _ refl refl refl refl, of p cfg D h] al run(3) by simp
  then have "seq_next (w_db (convert_stage cfg D a p h s2)) = seq_next (w_db s2) + 1"
    using InsertImport_seq_next [OF prod.collapse [symmetric]] al by simp
  moreover have "fileq (w_pool s') = []" using ProcessFile_fileq [of cfg D a p t] assms(4,12) by simp
  ultimately show ?thesis using r unfolding assms(12) P by (simp add: db s2(1) failure_count_def)
qed

text \<open>
  C3: A new file is imported: when the scan lists a file that has lain still for long enough, has new
  content and failed \<open>n\<close> times before, and the engine converts it and the server executes every
  statement, then after one turn of a worker the tables have exactly one more row, completed,
  with the next number (the only one taken), the path and the hash of the file; the DNG is named after the number in
  the folder of the capture date; the bytes of the original are in the archive and no longer
  in the watch folder; and the queue, the mark and the count of failures are gone.
\<close>

theorem new_file_imported:
  assumes "waiting p bs h n s" "poll_accepts cfg (p, True, age)" "watched cfg p"
    and "sha256_file D (w_fs s) p = h" "h \<noteq> []" "converts cfg a p" "\<forall>fld. archive_works cfg a p fld"
    and "all_named (w_db s)" "length (a_tok a) \<le> 28"
    and "s' = worker_turn cfg D a (on_pool (poll_scan cfg now [(p, True, age)]) s)"
  shows "\<exists>r fld. import_rows (w_db s') = import_rows (w_db s) @ [r] \<and> sequence_id r = seq_next (w_db s) \<and>
    seq_next (w_db s') = seq_next (w_db s) + 1 \<and>
    source_path r = p \<and> source_hash r = h \<and> status r = Completed \<and>
    fld = build_folder_schema (cfg_folder_schema cfg) (ex_date (exif_stage a p (w_fs s))) \<and>
    output_path r = output_dir cfg @ ''/'' @ fld @ ''/IMG_'' @ dec_int (seq_next (w_db s)) @ ''.dng'' \<and>
    moved_to p bs (archive_dir cfg @ ''/'' @ fld @ ''/'' @ filename p) (w_fs s') \<and>
    fileq (w_pool s') = [] \<and> p \<notin> inflight (w_pool s') \<and> failure_count p (w_pool s') = 0"
proof -
  obtain t where take: "worker_turn cfg D a (on_pool (poll_scan cfg now [(p, True, age)]) s) =
       on_pool (\<lambda>w. w\<lparr>active_workers := active_workers w - 1\<rparr>) (ProcessFile cfg D a p t)"
    and t: "w_fs t = w_fs s" "w_db t = w_db s" "fileq (w_pool t) = []" "fp_cache (w_pool t) = fp_cache (w_pool s)"
    by (rule scan_and_take [OF assms(1,2)])
  have "content (w_fs t) p = Some bs" "cache_sound p h (w_pool t)" "not_imported h (w_db t)"
    using assms(1) t by (simp_all add: waiting_def cache_sound_def)
  from queued_file_imported [OF this t(3) _ assms(5,3,6,7) _ assms(9) assms(10) [unfolded take]] assms(4,8) t(1,2)
  show ?thesis by simp
qed

text \<open>A file that failed twice before, on the third attempt.\<close>

definition tried_twice :: world where
  "tried_twice = on_pool (\<lambda>w. w\<lparr>fail_counts := [demo_path \<mapsto> 2]\<rparr>) (demo_world good_server)"

theorem new_file_imported_witness:
  "\<exists>r. import_rows (w_db (worker_turn default_config concat_digest copy_answers
       (on_pool (poll_scan default_config 0 [(demo_path, True, 60)]) tried_twice))) = [r] \<and>
     sequence_id r = 1 \<and> source_path r = demo_path \<and> source_hash r = ''0102'' \<and> status r = Completed"
proof -
  have w: "w_fs tried_twice = w_fs (demo_world good_server)" "w_db tried_twice = empty_db good_server"
    by (simp_all add: tried_twice_def demo_world_def)
  have "waiting demo_path [1, 2] ''0102'' 2 tried_twice"
    using demo_facts(1)
    by (simp add: waiting_def cache_sound_def not_imported_def tried_twice_def demo_world_def empty_pool_def empty_db_def)
  moreover have "poll_accepts default_config (demo_path, True, 60)" unfolding demo_path_def by code_simp
  moreover have "sha256_file concat_digest (w_fs tried_twice) demo_path = ''0102''"
  proof -
    have "to_hex [1, 2] = ''0102''" by code_simp
    with sha_concat [of "w_fs tried_twice" demo_path "[1, 2]"] demo_facts(1) w(1) show ?thesis by simp
  qed
  moreover have "converts default_config copy_answers demo_path"
    using copy_engine by (auto simp: converts_def engine_frame_def copy_answers_def)
  moreover have "\<forall>fld. archive_works default_config copy_answers demo_path fld"
    using demo_archive_works [of default_config demo_path] by (simp add: archive_works_def copy_answers_def)
  moreover have "all_named (w_db tried_twice)" using empty_db_wf by (simp add: w all_named_def) (simp add: empty_db_def)
  moreover have "length (a_tok copy_answers) \<le> 28" by (simp add: copy_answers_def demo_answers_def)
  ultimately obtain r where "import_rows (w_db (worker_turn default_config concat_digest copy_answers
       (on_pool (poll_scan default_config 0 [(demo_path, True, 60)]) tried_twice))) = import_rows (w_db tried_twice) @ [r]"
    "sequence_id r = seq_next (w_db tried_twice)" "source_path r = demo_path" "source_hash r = ''0102''" "status r = Completed"
    using new_file_imported [of demo_path "[1, 2]" "''0102''" 2 tried_twice default_config 60 concat_digest copy_answers _ 0]
      demo_facts(2) by force
  then show ?thesis by (simp add: w) (simp add: empty_db_def)
qed

end
