(* ===== verification/Rotation_Flow.thy ===== *)
theory Rotation_Flow
  imports Lifecycle
begin

text \<open>
  The rotation manager's threads (\<open>src/src/rotation.cpp\<close>): the worker thread with its two waits,
  the callers of \<open>Queue\<close> and the thread in \<open>Stop\<close>, as one step relation whose steps are the
  critical sections and the points between them that matter. The results: what is dispatched
  when, and when \<open>Stop\<close> returns.
\<close>

section \<open>States and steps\<close>

text \<open>
  The worker thread: at the loop's head; inside \<open>cv.wait\<close> with the predicate found false, still
  holding the mutex; blocked there; inside \<open>cv.wait_until\<close> the given deadline; ended.
\<close>

datatype rot_pc = Loop_Head | Will_Sleep | Asleep | Timed int | Ended

text \<open>The thread that calls \<open>Stop\<close>: before it, after the flag, in \<open>join\<close>, after the remaining intents.\<close>

datatype closer = Not_Stopping | Flag_Set | Joining | Stopped

record rflow =
  rf_pc :: rot_pc
  rf_stop :: bool
  rf_closer :: closer
  rf_now :: int
  rf_pend :: pendings
  rf_world :: rot_world

datatype ract =
    End_Worker
  | Test_Empty
  | Fall_Asleep
  | Start_Timed
  | Run_Due
  | Tick int
  | Intend intent
  | Set_Flag
  | Notify_Join
  | Join_Done

text \<open>
  A \<open>Queue\<close> call needs the mutex, so it cannot fall between the worker's test and its sleep; the
  flag of \<open>Stop\<close> is set without the mutex, so it can. \<open>notify_all\<close> ends the sleep of a blocked
  worker whose predicate now holds. A timed wait ends at its deadline or when the flag is up.
\<close>

inductive rstep :: "rot_cfg \<Rightarrow> rflow \<Rightarrow> ract \<Rightarrow> rflow \<Rightarrow> bool" for rc where
  r_end: "rf_pc s = Loop_Head \<Longrightarrow> rf_stop s \<Longrightarrow> rstep rc s End_Worker (s\<lparr>rf_pc := Ended\<rparr>)"
| r_test: "rf_pc s = Loop_Head \<Longrightarrow> \<not> rf_stop s \<Longrightarrow> rf_pend s = [] \<Longrightarrow>
    rstep rc s Test_Empty (s\<lparr>rf_pc := Will_Sleep\<rparr>)"
| r_sleep: "rf_pc s = Will_Sleep \<Longrightarrow> rstep rc s Fall_Asleep (s\<lparr>rf_pc := Asleep\<rparr>)"
| r_timed: "rf_pc s = Loop_Head \<Longrightarrow> \<not> rf_stop s \<Longrightarrow> soonest (rf_pend s) = Some t \<Longrightarrow>
    rstep rc s Start_Timed (s\<lparr>rf_pc := Timed t\<rparr>)"
| r_due: "rf_pc s = Timed t \<Longrightarrow> t \<le> rf_now s \<or> rf_stop s \<Longrightarrow>
    dispatch_due rc (rf_now s) (rf_pend s) (rf_world s) = (rest, w) \<Longrightarrow>
    rstep rc s Run_Due (s\<lparr>rf_pc := Loop_Head, rf_pend := rest, rf_world := w\<rparr>)"
| r_tick: "rf_now s \<le> t \<Longrightarrow> rstep rc s (Tick t) (s\<lparr>rf_now := t\<rparr>)"
| r_intend: "rf_pc s \<noteq> Will_Sleep \<Longrightarrow>
    rstep rc s (Intend (rf_now s, i, dng, ori, client))
      (s\<lparr>rf_pend := Queue rc (rf_now s) i dng ori client (rf_pend s),
         rf_pc := (if rf_pc s = Asleep then Loop_Head else rf_pc s)\<rparr>)"
| r_flag: "rf_closer s = Not_Stopping \<Longrightarrow> rstep rc s Set_Flag (s\<lparr>rf_stop := True, rf_closer := Flag_Set\<rparr>)"
| r_notify: "rf_closer s = Flag_Set \<Longrightarrow>
    rstep rc s Notify_Join (s\<lparr>rf_closer := Joining, rf_pc := (if rf_pc s = Asleep then Loop_Head else rf_pc s)\<rparr>)"
| r_join: "rf_closer s = Joining \<Longrightarrow> rf_pc s = Ended \<Longrightarrow>
    rstep rc s Join_Done (s\<lparr>rf_closer := Stopped, rf_world := stop_dispatch rc (rf_pend s) (rf_world s), rf_pend := []\<rparr>)"

inductive_simps rstep_simps:
  "rstep rc s End_Worker s'" "rstep rc s Test_Empty s'" "rstep rc s Fall_Asleep s'" "rstep rc s Start_Timed s'"
  "rstep rc s Run_Due s'" "rstep rc s (Tick t) s'" "rstep rc s (Intend x) s'" "rstep rc s Set_Flag s'"
  "rstep rc s Notify_Join s'" "rstep rc s Join_Done s'"

inductive rrun :: "rot_cfg \<Rightarrow> rflow \<Rightarrow> ract list \<Rightarrow> rflow \<Rightarrow> bool" for rc where
  rrun_nil: "rrun rc s [] s"
| rrun_snoc: "rrun rc s as s1 \<Longrightarrow> rstep rc s1 a s2 \<Longrightarrow> rrun rc s (as @ [a]) s2"

inductive_cases rrun_snocE: "rrun rc s (as @ [a]) s'"

definition rot_start :: "int \<Rightarrow> rot_world \<Rightarrow> rflow" where
  "rot_start now w = \<lparr>rf_pc = Loop_Head, rf_stop = False, rf_closer = Not_Stopping, rf_now = now, rf_pend = [], rf_world = w\<rparr>"

section \<open>The grace period\<close>

text \<open>The intents of a run, and what each action dispatches: the entries due at its time.\<close>

fun intents :: "ract list \<Rightarrow> intent list" where
  "intents [] = []"
| "intents (Intend x # as) = x # intents as"
| "intents (_ # as) = intents as"

lemma intents_append [simp]: "intents (as @ bs) = intents as @ intents bs"
  by (induction as rule: intents.induct) simp_all

definition for_import :: "int \<Rightarrow> intent list \<Rightarrow> intent list" where
  "for_import i xs = [x \<leftarrow> xs. fst (snd x) = i]"

text \<open>Every pending entry is the last intent of its import; times of intents are past.\<close>

definition pend_ok :: "rot_cfg \<Rightarrow> intent list \<Rightarrow> rflow \<Rightarrow> bool" where
  "pend_ok rc xs s \<longleftrightarrow> distinct (map fst (rf_pend s)) \<and>
     (\<forall>(i, rot) \<in> set (rf_pend s). for_import i xs \<noteq> [] \<and> rot = rot_of rc (last (for_import i xs))) \<and>
     (\<forall>x \<in> set xs. fst x \<le> rf_now s)"

lemma pend_ok_step:
  assumes "rstep rc s a s'" "pend_ok rc xs s"
  shows "pend_ok rc (xs @ intents [a]) s'"
  using assms(1)
proof cases
  case (r_due t rest w)
  then have "rest = [(i, r) \<leftarrow> rf_pend s. rf_now s < pr_deadline r]"
    using dispatch_due_rest [of rc "rf_now s" "rf_pend s" "rf_world s"] by simp
  then show ?thesis using assms(2) r_due by (auto simp: pend_ok_def distinct_map_filter)
next
  case (r_tick t)
  then show ?thesis using assms(2) by (fastforce simp: pend_ok_def)
next
  case (r_intend i dng ori client)
  let ?x = "(rf_now s, i, dng, ori, client)"
  have pend: "rf_pend s' = AList.update i (rot_of rc ?x) (rf_pend s)" "rf_now s' = rf_now s"
    using r_intend by (simp_all add: Queue_def rot_of_def)
  have dist: "distinct (map fst (rf_pend s'))"
    using assms(2) by (simp add: pend distinct_update pend_ok_def)
  have "for_import j (xs @ [?x]) \<noteq> [] \<and> rot = rot_of rc (last (for_import j (xs @ [?x])))"
    if "(j, rot) \<in> set (rf_pend s')" for j rot
  proof (cases "j = i")
    case True
    have "map_of (rf_pend s') j = Some rot" using that dist by simp
    then show ?thesis using True by (simp add: pend update_conv for_import_def)
  next
    case False
    have "map_of (rf_pend s') j = Some rot" using that dist by simp
    then have "(j, rot) \<in> set (rf_pend s)" using False by (auto simp: pend update_conv dest: map_of_SomeD)
    then show ?thesis using False assms(2) by (auto simp: pend_ok_def for_import_def)
  qed
  then show ?thesis using dist assms(2) r_intend(1,2) pend(2) by (auto simp: pend_ok_def)
qed (use assms(2) in \<open>auto simp: pend_ok_def\<close>)

lemma rrun_pend_ok: "rrun rc s as s' \<Longrightarrow> pend_ok rc [] s \<Longrightarrow> pend_ok rc (intents as) s'"
proof (induction rule: rrun.induct)
  case (rrun_snoc s as s1 a s2)
  then show ?case using pend_ok_step [of rc s1 a s2 "intents as"] by simp
qed simp

lemma start_pend_ok: "pend_ok rc [] (rot_start t0 w)"
  by (simp add: pend_ok_def rot_start_def)

definition due_now :: "int \<Rightarrow> pendings \<Rightarrow> pendings" where
  "due_now now pend = [(i, r) \<leftarrow> pend. pr_deadline r \<le> now]"

lemma dispatch_due_fold:
  "dispatch_due rc now pend s =
     ([(i, r) \<leftarrow> pend. now < pr_deadline r], fold (\<lambda>(i, r). Dispatch rc i r) (due_now now pend) s)"
  by (induction rc now pend s rule: dispatch_due.induct) (auto simp: due_now_def split_beta)

text \<open>
  C13: The worker keeps the grace period and coalesces: in every run, each turn of the worker
  dispatches a list of entries in order, at most one per import; each is the last intent queued
  for its import so far, and its grace period is over, even when the turn was cut short by
  \<open>Stop\<close>; what stays pending is not due.
\<close>

theorem grace_period_kept:
  assumes "rrun rc (rot_start t0 w0) as s" "rstep rc s Run_Due s'"
  shows "\<exists>due. rf_world s' = fold (\<lambda>(i, rot). Dispatch rc i rot) due (rf_world s) \<and> distinct (map fst due) \<and>
     (\<forall>(i, rot) \<in> set due. for_import i (intents as) \<noteq> [] \<and> rot = rot_of rc (last (for_import i (intents as))) \<and>
        fst (last (for_import i (intents as))) + rc_grace rc \<le> rf_now s) \<and>
     (\<forall>x \<in> set (rf_pend s). x \<in> set due \<or> (x \<in> set (rf_pend s') \<and> rf_now s < pr_deadline (snd x)))"
proof -
  have ok: "pend_ok rc (intents as) s" by (rule rrun_pend_ok [OF assms(1) start_pend_ok])
  let ?due = "due_now (rf_now s) (rf_pend s)"
  from assms(2) have s': "rf_world s' = fold (\<lambda>(i, rot). Dispatch rc i rot) ?due (rf_world s)"
    "rf_pend s' = [(i, r) \<leftarrow> rf_pend s. rf_now s < pr_deadline r]"
    by (auto simp: rstep_simps dispatch_due_fold)
  have "distinct (map fst ?due)" using ok by (simp add: due_now_def pend_ok_def distinct_map_filter)
  moreover have "for_import i (intents as) \<noteq> [] \<and> rot = rot_of rc (last (for_import i (intents as))) \<and>
      fst (last (for_import i (intents as))) + rc_grace rc \<le> rf_now s" if "(i, rot) \<in> set ?due" for i rot
    using that ok by (auto simp: due_now_def pend_ok_def rot_of_def split: prod.splits)
  ultimately show ?thesis using s' by (intro exI [of _ ?due]) (auto simp: due_now_def)
qed

section \<open>Stopping\<close>

text \<open>\<open>Stop\<close> waits for a worker that sleeps with nothing pending.\<close>

definition hung :: "rflow \<Rightarrow> bool" where
  "hung s \<longleftrightarrow> rf_closer s = Joining \<and> rf_pc s = Asleep \<and> rf_pend s = []"

definition hang_acts :: "ract list" where
  "hang_acts = [Test_Empty, Set_Flag, Notify_Join, Fall_Asleep]"

text \<open>
  \<open>Stop\<close> can hang: it sets its flag without the mutex, so when that happens between the worker's
  test of the predicate and its sleep, the notification comes before the sleep and is lost; from
  then on no step of the program but a new intent wakes the worker, and at shutdown the API
  that could bring one is already closed (a spurious wake-up, which no implementation owes, is
  not counted).
\<close>

theorem stop_can_hang:
  "(\<exists>s. rrun rc (rot_start t0 w) hang_acts s \<and> hung s) \<and>
   (\<forall>s a s'. hung s \<and> rstep rc s a s' \<and> (\<forall>x. a \<noteq> Intend x) \<longrightarrow> hung s')"
proof
  let ?s0 = "rot_start t0 w"
  let ?s1 = "?s0\<lparr>rf_pc := Will_Sleep\<rparr>"
  let ?s2 = "?s1\<lparr>rf_stop := True, rf_closer := Flag_Set\<rparr>"
  let ?s3 = "?s2\<lparr>rf_closer := Joining\<rparr>"
  let ?s4 = "?s3\<lparr>rf_pc := Asleep\<rparr>"
  have "rstep rc ?s0 Test_Empty ?s1" "rstep rc ?s1 Set_Flag ?s2" "rstep rc ?s2 Notify_Join ?s3" "rstep rc ?s3 Fall_Asleep ?s4"
    by (simp_all add: rstep_simps rot_start_def)
  then have "rrun rc ?s0 (((([] @ [Test_Empty]) @ [Set_Flag]) @ [Notify_Join]) @ [Fall_Asleep]) ?s4"
    by (rule rrun_snoc [OF rrun_snoc [OF rrun_snoc [OF rrun_snoc [OF rrun_nil]]]])
  then show "\<exists>s. rrun rc (rot_start t0 w) hang_acts s \<and> hung s"
    by (intro exI [of _ ?s4]) (simp add: hang_acts_def hung_def rot_start_def)
  show "\<forall>s a s'. hung s \<and> rstep rc s a s' \<and> (\<forall>x. a \<noteq> Intend x) \<longrightarrow> hung s'"
    by (auto simp: hung_def elim!: rstep.cases)
qed

text \<open>Runs in which the flag does not fall into the window.\<close>

inductive calm_rrun :: "rot_cfg \<Rightarrow> rflow \<Rightarrow> ract list \<Rightarrow> rflow \<Rightarrow> bool" for rc where
  calm_rnil: "calm_rrun rc s [] s"
| calm_rsnoc: "calm_rrun rc s as s1 \<Longrightarrow> rstep rc s1 a s2 \<Longrightarrow> (a = Set_Flag \<longrightarrow> rf_pc s1 \<noteq> Will_Sleep) \<Longrightarrow>
    calm_rrun rc s (as @ [a]) s2"

definition stop_ok :: "rflow \<Rightarrow> bool" where
  "stop_ok s \<longleftrightarrow> (rf_stop s \<longleftrightarrow> rf_closer s \<noteq> Not_Stopping) \<and>
     (rf_closer s = Flag_Set \<longrightarrow> rf_pc s \<noteq> Will_Sleep) \<and>
     (rf_closer s = Joining \<longrightarrow> rf_pc s \<noteq> Will_Sleep \<and> rf_pc s \<noteq> Asleep)"

lemma stop_ok_step: "rstep rc s a s' \<Longrightarrow> (a = Set_Flag \<longrightarrow> rf_pc s \<noteq> Will_Sleep) \<Longrightarrow> stop_ok s \<Longrightarrow> stop_ok s'"
  by (induction rule: rstep.induct) (auto simp: stop_ok_def)

lemma stop_ok_run: "calm_rrun rc s as s' \<Longrightarrow> stop_ok s \<Longrightarrow> stop_ok s'"
  by (induction rule: calm_rrun.induct) (auto intro: stop_ok_step)

text \<open>The entries a last turn of the worker dispatches before it ends, and those left to \<open>Stop\<close>.\<close>

definition last_turn :: "rflow \<Rightarrow> pendings" where
  "last_turn s = (case rf_pc s of Timed _ \<Rightarrow> due_now (rf_now s) (rf_pend s) | _ \<Rightarrow> [])"

definition left_over :: "rflow \<Rightarrow> pendings" where
  "left_over s = (case rf_pc s of Timed _ \<Rightarrow> [(i, r) \<leftarrow> rf_pend s. rf_now s < pr_deadline r] | _ \<Rightarrow> rf_pend s)"

lemma end_and_join:
  assumes "rrun rc s as s1" "rf_pc s1 = Loop_Head" "rf_stop s1" "rf_closer s1 = Joining"
  shows "rrun rc s (as @ [End_Worker, Join_Done])
     (s1\<lparr>rf_pc := Ended, rf_closer := Stopped, rf_world := stop_dispatch rc (rf_pend s1) (rf_world s1), rf_pend := []\<rparr>)"
proof -
  have "rstep rc s1 End_Worker (s1\<lparr>rf_pc := Ended\<rparr>)" using assms by (simp add: rstep_simps)
  moreover have "rstep rc (s1\<lparr>rf_pc := Ended\<rparr>) Join_Done
     (s1\<lparr>rf_pc := Ended, rf_closer := Stopped, rf_world := stop_dispatch rc (rf_pend s1) (rf_world s1), rf_pend := []\<rparr>)"
    using assms by (simp add: rstep_simps)
  ultimately have "rrun rc s ((as @ [End_Worker]) @ [Join_Done])
     (s1\<lparr>rf_pc := Ended, rf_closer := Stopped, rf_world := stop_dispatch rc (rf_pend s1) (rf_world s1), rf_pend := []\<rparr>)"
    by (rule rrun_snoc [OF rrun_snoc [OF assms(1)]])
  then show ?thesis by simp
qed

text \<open>
  Otherwise \<open>Stop\<close> returns: in every run in which the flag does not fall into that window, a
  thread that has reached the join goes on after at most one turn of the worker and its end,
  with no further notification, no time and no intent needed; nothing is pending then, and every
  entry that was has been dispatched, by that turn if it was due and by \<open>Stop\<close> if not.
\<close>

theorem stop_returns:
  assumes "calm_rrun rc (rot_start t0 w0) as s" "rf_closer s = Joining"
  shows "\<exists>bs s'. rrun rc s (bs @ [Join_Done]) s' \<and> bs \<in> {[], [End_Worker], [Run_Due, End_Worker]} \<and>
     rf_closer s' = Stopped \<and> rf_pend s' = [] \<and>
     rf_world s' = stop_dispatch rc (left_over s) (fold (\<lambda>(i, rot). Dispatch rc i rot) (last_turn s) (rf_world s)) \<and>
     set (last_turn s) \<union> set (left_over s) = set (rf_pend s)"
proof -
  have "stop_ok (rot_start t0 w0)" by (simp add: stop_ok_def rot_start_def)
  from stop_ok_run [OF assms(1) this] assms(2)
  have ok: "rf_stop s" "rf_pc s \<noteq> Will_Sleep" "rf_pc s \<noteq> Asleep" by (simp_all add: stop_ok_def)
  have all: "set (last_turn s) \<union> set (left_over s) = set (rf_pend s)"
    by (auto simp: last_turn_def left_over_def due_now_def split: rot_pc.splits)
  from ok consider "rf_pc s = Loop_Head" | t where "rf_pc s = Timed t" | "rf_pc s = Ended" by (cases "rf_pc s") auto
  then show ?thesis
  proof cases
    case 1
    from end_and_join [OF rrun_nil 1 ok(1) assms(2)] all show ?thesis
      by (intro exI [of _ "[End_Worker]"] exI) (auto simp: last_turn_def left_over_def 1)
  next
    case (2 t)
    let ?s1 = "s\<lparr>rf_pc := Loop_Head, rf_pend := left_over s,
        rf_world := fold (\<lambda>(i, rot). Dispatch rc i rot) (last_turn s) (rf_world s)\<rparr>"
    have "rstep rc s Run_Due ?s1"
      using 2 ok(1) by (simp add: rstep_simps dispatch_due_fold last_turn_def left_over_def)
    from end_and_join [OF rrun_snoc [OF rrun_nil this]] ok(1) assms(2) all show ?thesis
      by (intro exI [of _ "[Run_Due, End_Worker]"] exI conjI) auto
  next
    case 3
    have "rstep rc s Join_Done (s\<lparr>rf_closer := Stopped, rf_world := stop_dispatch rc (rf_pend s) (rf_world s), rf_pend := []\<rparr>)"
      using 3 assms(2) by (simp add: rstep_simps)
    from rrun_snoc [OF rrun_nil this] all show ?thesis
      by (intro exI [of _ "[]"] exI) (auto simp: last_turn_def left_over_def 3)
  qed
qed

section \<open>From a request to the row\<close>

lemma select_import_source:
  assumes "fst (select_import P d) = Some r" "\<forall>x \<in> set (import_rows d). id_range x"
  shows "\<exists>x \<in> set (import_rows d). P (srv d) x \<and> rec_id r = rec_id x \<and> output_path r = output_path x"
proof -
  obtain x where x: "limit1 (srv d) [x \<leftarrow> import_rows d. P (srv d) x] = Some x" "r = vec_to_record (row_text d x)"
    using assms(1) by (auto simp: select_import_eq first_row_def split: if_splits option.splits list.splits)
  then have "x \<in> set (import_rows d)" "P (srv d) x" using limit1_Some by fastforce+
  with x(2) assms(2) vec_to_record_row_text [of x d] show ?thesis
    by (intro bexI [of _ x]) (auto simp: read_back_def)
qed

lemma Dispatch_stores:
  assumes "good_conn (rw_db w)" "locks (rw_db w) i = None" "rw_sys w (length (rw_cmds w)) = 0"
    and "0 \<le> pr_orientation rot" "pr_orientation rot \<le> 255"
  shows "(\<exists>others. rw_cmds (Dispatch rc i rot w) = rw_cmds w @ (rotation_cmd rc rot, 0) # others) \<and>
    import_rows (rw_db (Dispatch rc i rot w)) =
      map (\<lambda>r. if rec_id r = i then r\<lparr>orientation := pr_orientation rot\<rparr> else r) (import_rows (rw_db w)) \<and>
    locks (rw_db (Dispatch rc i rot w)) = locks (rw_db w)"
proof -
  define w1 where "w1 = snd (acquire_rot i w)"
  define w2 where "w2 = snd (run_system (rotation_cmd rc rot) w1)"
  define w3 where "w3 = rot_on_db (UpdateOrientation i (pr_orientation rot)) w2"
  define w4 where "w4 = (if rc_immich rc \<noteq> [] then snd (run_system (immich_cmd rc) w3) else w3)"
  define w5 where "w5 = (if rc_digikam rc then snd (run_system ''touch /tmp/digikam_rescan.trigger'' w4) else w4)"
  note a = acquire_rot_free [OF assms(1,2), folded w1_def]
  have sys: "rw_sys w1 (length (rw_cmds w1)) = 0" using assms(3) by (simp add: w1_def acquire_rot_frame)
  have D: "Dispatch rc i rot w = rot_on_db (ReleaseLock i) w5"
    using a(1) sys by (simp add: Dispatch_def split_beta Let_def w1_def w2_def w3_def w4_def w5_def)
  have cmds: "rw_cmds w2 = rw_cmds w @ [(rotation_cmd rc rot, 0)]"
    using sys by (simp add: w2_def w1_def acquire_rot_frame)
  have "\<exists>others. rw_cmds w5 = rw_cmds w2 @ others"
    by (auto simp: w5_def w4_def w3_def rot_on_db_def)
  with cmds have log: "\<exists>others. rw_cmds w5 = rw_cmds w @ (rotation_cmd rc rot, 0) # others" by auto
  have db: "rw_db w5 = rw_db w3" "rw_db w2 = rw_db w1" by (simp_all add: w5_def w4_def w2_def)
  have g3: "good_conn (rw_db w3)" "locks (rw_db w3) = locks (rw_db w1)"
    using a(2) by (simp_all add: w3_def rot_on_db_def db(2) good_conn_def orientation_frame)
  have rel: "locks (snd (ReleaseLock i (rw_db w3))) = (locks (rw_db w3))(i := None)" using ReleaseLock_good [OF g3(1)] by blast
  have "import_rows (rw_db w3) = map (\<lambda>r. if rec_id r = i then r\<lparr>orientation := pr_orientation rot\<rparr> else r) (import_rows (rw_db w))"
    using a(2) assms(4,5) by (simp add: w3_def rot_on_db_def db(2) update_import_rows good_conn_def w1_def acquire_rot_rows)
  moreover have "locks (rw_db (Dispatch rc i rot w)) = locks (rw_db w)"
    using rel g3(2) a(3) assms(2) by (auto simp: D rot_on_db_def db(1))
  ultimately show ?thesis using log by (simp add: D rot_on_db_def db(1) ReleaseLock_rows)
qed


section \<open>Examples\<close>

definition demo_rw :: rot_world where
  "demo_rw = rot_demo two_imports (\<lambda>_. 0)"

definition demo_intent :: intent where
  "demo_intent = (0, 1, ''/output/IMG_1.dng'', 6, ''lr'')"

definition demo_rc :: rot_cfg where
  "demo_rc = \<lparr>rc_exiftool = ''exiftool'', rc_grace = 1500, rc_immich = [], rc_digikam = False\<rparr>"

definition timed_state :: rflow where
  "timed_state = (rot_start 0 demo_rw)\<lparr>rf_pc := Timed 1500, rf_pend := [(1, demo_rot)]\<rparr>"

lemma demo_steps:
  "rstep demo_rc (rot_start 0 demo_rw) (Intend demo_intent) ((rot_start 0 demo_rw)\<lparr>rf_pend := [(1, demo_rot)]\<rparr>)"
  "rstep demo_rc ((rot_start 0 demo_rw)\<lparr>rf_pend := [(1, demo_rot)]\<rparr>) Start_Timed timed_state"
  by (simp_all add: rstep_simps rot_start_def demo_intent_def Queue_def demo_rot_def demo_rc_def timed_state_def soonest_def)

theorem grace_period_kept_witness:
  "\<exists>s s' due. rrun demo_rc (rot_start 0 demo_rw) [Intend demo_intent, Start_Timed, Tick 1500] s \<and>
     rstep demo_rc s Run_Due s' \<and> rf_world s' = fold (\<lambda>(i, rot). Dispatch demo_rc i rot) due (rf_world s) \<and>
     (1, demo_rot) \<in> set due"
proof -
  let ?s = "timed_state\<lparr>rf_now := 1500\<rparr>"
  have "rstep demo_rc timed_state (Tick 1500) ?s" by (simp add: rstep_simps timed_state_def rot_start_def)
  from rrun_snoc [OF rrun_snoc [OF rrun_snoc [OF rrun_nil demo_steps(1)] demo_steps(2)] this]
  have run: "rrun demo_rc (rot_start 0 demo_rw) [Intend demo_intent, Start_Timed, Tick 1500] ?s" by simp
  obtain rest w where "dispatch_due demo_rc (rf_now ?s) (rf_pend ?s) (rf_world ?s) = (rest, w)" by fastforce
  then have step: "rstep demo_rc ?s Run_Due (?s\<lparr>rf_pc := Loop_Head, rf_pend := rest, rf_world := w\<rparr>)" (is "rstep _ _ _ ?s'")
    by (intro r_due [where t = 1500]) (simp_all add: timed_state_def)
  have "(1, demo_rot) \<in> set (rf_pend ?s)" "\<not> rf_now ?s < pr_deadline demo_rot"
    by (simp_all add: timed_state_def rot_start_def demo_rot_def)
  with grace_period_kept [OF run step] run step show ?thesis by fastforce
qed

theorem stop_can_hang_witness:
  "\<exists>s. rrun demo_rc (rot_start 0 demo_rw) hang_acts s \<and> hung s \<and> hung (s\<lparr>rf_now := rf_now s + 60000\<rparr>)"
proof -
  obtain s where s: "rrun demo_rc (rot_start 0 demo_rw) hang_acts s" "hung s"
    using stop_can_hang [of demo_rc 0 demo_rw] by blast
  have "rstep demo_rc s (Tick (rf_now s + 60000)) (s\<lparr>rf_now := rf_now s + 60000\<rparr>)" by (simp add: rstep_simps)
  with s stop_can_hang [of demo_rc 0 demo_rw] show ?thesis by blast
qed

theorem stop_returns_witness:
  "\<exists>s s' bs. rrun demo_rc s (bs @ [Join_Done]) s' \<and> rf_pend s = [(1, demo_rot)] \<and> rf_closer s' = Stopped \<and>
     rf_world s' = stop_dispatch demo_rc [(1, demo_rot)] demo_rw"
proof -
  let ?s3 = "timed_state\<lparr>rf_stop := True, rf_closer := Flag_Set\<rparr>"
  let ?s4 = "?s3\<lparr>rf_closer := Joining\<rparr>"
  have "rstep demo_rc timed_state Set_Flag ?s3" "rstep demo_rc ?s3 Notify_Join ?s4" "rf_pc timed_state \<noteq> Will_Sleep"
    by (simp_all add: rstep_simps timed_state_def rot_start_def)
  then have "calm_rrun demo_rc (rot_start 0 demo_rw) (((([] @ [Intend demo_intent]) @ [Start_Timed]) @ [Set_Flag]) @ [Notify_Join]) ?s4"
    by (intro calm_rsnoc [OF calm_rsnoc [OF calm_rsnoc [OF calm_rsnoc [OF calm_rnil demo_steps(1)] demo_steps(2)]]]) simp_all
  from stop_returns [OF this] obtain bs s' where s': "rrun demo_rc ?s4 (bs @ [Join_Done]) s'" "rf_closer s' = Stopped"
      "rf_world s' = stop_dispatch demo_rc (left_over ?s4) (fold (\<lambda>(i, rot). Dispatch demo_rc i rot) (last_turn ?s4) (rf_world ?s4))"
    by auto
  have "left_over ?s4 = [(1, demo_rot)]" "last_turn ?s4 = []" "rf_world ?s4 = demo_rw" "rf_pend ?s4 = [(1, demo_rot)]"
    by (simp_all add: left_over_def last_turn_def due_now_def timed_state_def rot_start_def demo_rot_def)
  with s' show ?thesis by (intro exI [of _ ?s4] exI [of _ s'] exI [of _ bs]) (simp only: fold_simps conj_absorb simp_thms)
qed

definition rotate_db :: db where
  "rotate_db = snd (InsertImport (new_record\<lparr>sequence_id := 1, source_path := ''s'', output_path := ''o''\<rparr>) example_db)"

definition rotate_req :: request where
  "rotate_req = \<lparr>rq_text = ''POST /p HTTP/1.1'' @ crlf @ crlf @ ''{'' @ json_field ''source_path'' ''s'' @
       '','' @ json_field ''orientation'' ''6'' @ ''}'',
     rq_method = ''POST'', rq_path = ''/p'', rq_query = Map.empty\<rparr>"


end
