(* ===== verification/Worker_Steps.thy ===== *)
theory Worker_Steps
  imports Worker_Queue
begin

text \<open>
  The poller and the worker threads of \<open>src/src/worker.cpp\<close> as a transition system over the
  shared pool. A step is one critical section: the poller's turn for one directory entry, its
  clean-up of \<open>seen\<close>, a worker taking a file, its release of the \<open>inflight\<close> mark when a
  failure starts \<open>move_to_dead_letter\<close>, and the end of \<open>ProcessFile\<close>, which may release the
  mark once more (worker.cpp:412-414).
\<close>

section \<open>Steps\<close>

text \<open>\<open>handler i\<close> is the file thread \<open>i\<close> works on, and whether it has released its mark.\<close>

record wsys =
  wpool :: pool
  handler :: "nat \<rightharpoonup> path \<times> bool"

datatype wact =
    Scan_Entry int dir_entry
  | Expire int
  | Take nat
  | Fail_Release nat
  | Finish_Release nat
  | Finish nat
  | Queue_Reconvert reconversion_job
  | Take_Reconvert

inductive wstep :: "config \<Rightarrow> wsys \<Rightarrow> wact \<Rightarrow> wsys \<Rightarrow> bool" for cfg where
  w_scan: "wstep cfg s (Scan_Entry now e) (s\<lparr>wpool := poll_entry cfg now e (wpool s)\<rparr>)"
| w_expire: "wstep cfg s (Expire now) (s\<lparr>wpool := cleanup_seen_ttl cfg now (wpool s)\<rparr>)"
| w_take: "handler s i = None \<Longrightarrow> pop_file (wpool s) = Some (p, w) \<Longrightarrow>
    wstep cfg s (Take i) (s\<lparr>wpool := w, handler := (handler s)(i \<mapsto> (p, False))\<rparr>)"
| w_fail: "handler s i = Some (p, False) \<Longrightarrow>
    wstep cfg s (Fail_Release i) (s\<lparr>wpool := snd (snd (bump_failure cfg p (release_inflight p (wpool s)))),
       handler := (handler s)(i \<mapsto> (p, True))\<rparr>)"
| w_finish_release: "handler s i = Some (p, b) \<Longrightarrow>
    wstep cfg s (Finish_Release i)
      (s\<lparr>wpool := (release_inflight p (wpool s))\<lparr>active_workers := active_workers (wpool s) - 1\<rparr>,
         handler := (handler s)(i := None)\<rparr>)"
| w_finish: "handler s i = Some (p, True) \<Longrightarrow>
    wstep cfg s (Finish i)
      (s\<lparr>wpool := (wpool s)\<lparr>active_workers := active_workers (wpool s) - 1\<rparr>, handler := (handler s)(i := None)\<rparr>)"
| w_queue: "wstep cfg s (Queue_Reconvert job) (s\<lparr>wpool := push_reconvert job (wpool s)\<rparr>)"
| w_reconv: "pop_reconvert (wpool s) = Some (job, w) \<Longrightarrow> wstep cfg s Take_Reconvert (s\<lparr>wpool := w\<rparr>)"

inductive_simps wstep_simps:
  "wstep cfg s (Scan_Entry now e) s'" "wstep cfg s (Expire now) s'" "wstep cfg s (Take i) s'"
  "wstep cfg s (Fail_Release i) s'" "wstep cfg s (Finish_Release i) s'" "wstep cfg s (Finish i) s'"

inductive wrun :: "config \<Rightarrow> wsys \<Rightarrow> wact list \<Rightarrow> wsys \<Rightarrow> bool" for cfg where
  wrun_nil: "wrun cfg s [] s"
| wrun_cons: "wstep cfg s a s1 \<Longrightarrow> wrun cfg s1 as s2 \<Longrightarrow> wrun cfg s (a # as) s2"

definition wstart :: wsys where
  "wstart = \<lparr>wpool = empty_pool, handler = Map.empty\<rparr>"

section \<open>What holds under every interleaving\<close>

definition counts_ok :: "wsys \<Rightarrow> bool" where
  "counts_ok s \<longleftrightarrow> queue_depth (wpool s) = int (length (fileq (wpool s))) \<and>
     finite (dom (handler s)) \<and> active_workers (wpool s) = int (card (dom (handler s)))"

lemmas pool_ops = poll_entry_def cleanup_seen_ttl_def pop_file_def release_inflight_def
  bump_failure_def push_reconvert_def pop_reconvert_def Let_def

lemma counts_step: "wstep cfg s a s' \<Longrightarrow> counts_ok s \<Longrightarrow> counts_ok s'"
proof (induction rule: wstep.induct)
  case (w_take s i p w)
  then have "i \<notin> dom (handler s)" by auto
  with w_take show ?case
    by (auto simp: counts_ok_def pop_file_def split: list.splits)
next
  case (w_fail s i p)
  then have "insert i (dom (handler s)) = dom (handler s)" by auto
  with w_fail show ?case by (simp add: counts_ok_def pool_ops)
next
  case (w_finish_release s i p b)
  then have "i \<in> dom (handler s)" by auto
  then have "int (card (dom (handler s))) = int (card (dom (handler s) - {i})) + 1"
    using w_finish_release(2) by (simp add: counts_ok_def card_Suc_Diff1 [symmetric] del: card_Diff_insert)
  with w_finish_release show ?case by (simp add: counts_ok_def pool_ops)
next
  case (w_finish s i p)
  then have "i \<in> dom (handler s)" by auto
  then have "int (card (dom (handler s))) = int (card (dom (handler s) - {i})) + 1"
    using w_finish(2) by (simp add: counts_ok_def card_Suc_Diff1 [symmetric] del: card_Diff_insert)
  with w_finish show ?case by (simp add: counts_ok_def pool_ops)
qed (auto simp: counts_ok_def pool_ops split: prod.splits list.splits)

lemma counts_run: "wrun cfg s as s' \<Longrightarrow> counts_ok s \<Longrightarrow> counts_ok s'"
  by (induction rule: wrun.induct) (auto intro: counts_step)

text \<open>
  The gauges are exact: in every state any interleaving of the poller and the workers can
  reach, \<open>queue_depth\<close> is the length of the file queue and \<open>active_workers\<close> the number of
  threads working on a file, so neither is ever negative.
\<close>

theorem gauges_exact:
  assumes "wrun cfg wstart as s"
  shows "queue_depth (wpool s) = int (length (fileq (wpool s))) \<and>
         active_workers (wpool s) = int (card (dom (handler s)))"
proof -
  have "counts_ok wstart" by (simp add: counts_ok_def wstart_def empty_pool_def)
  from counts_run [OF assms this] show ?thesis by (simp add: counts_ok_def)
qed

section \<open>One handler per file, under a timing condition\<close>

text \<open>
  A calm expiry drops no path that still waits in the queue or is being worked on: the
  \<open>2 * POLL_INTERVAL\<close> of the \<open>seen\<close> map exceed the time a file spends in the pool.
\<close>

definition calm :: "config \<Rightarrow> wsys \<Rightarrow> wact \<Rightarrow> bool" where
  "calm cfg s a \<longleftrightarrow>
     (case a of
        Expire now \<Rightarrow> \<forall>p \<in> set (fileq (wpool s)) \<union> fst ` ran (handler s).
                        seen (cleanup_seen_ttl cfg now (wpool s)) p \<noteq> None
      | _ \<Rightarrow> True)"

inductive calm_run :: "config \<Rightarrow> wsys \<Rightarrow> wact list \<Rightarrow> wsys \<Rightarrow> bool" for cfg where
  calm_nil: "calm_run cfg s [] s"
| calm_cons: "wstep cfg s a s1 \<Longrightarrow> calm cfg s a \<Longrightarrow> calm_run cfg s1 as s2 \<Longrightarrow> calm_run cfg s (a # as) s2"

definition handled :: "wsys \<Rightarrow> path set" where
  "handled s = {p. \<exists>i b. handler s i = Some (p, b)}"

definition exclusive :: "wsys \<Rightarrow> bool" where
  "exclusive s \<longleftrightarrow> distinct (fileq (wpool s)) \<and> set (fileq (wpool s)) \<inter> handled s = {} \<and>
     set (fileq (wpool s)) \<union> handled s \<subseteq> dom (seen (wpool s)) \<and>
     (\<forall>i j p b c. handler s i = Some (p, b) \<longrightarrow> handler s j = Some (p, c) \<longrightarrow> i = j)"

lemma exclusive_fewer:
  assumes "exclusive s" "fileq (wpool s') = fileq (wpool s)" "seen (wpool s') = seen (wpool s)"
    and "\<And>i p b. handler s' i = Some (p, b) \<Longrightarrow> \<exists>c. handler s i = Some (p, c)"
  shows "exclusive s'"
proof -
  have "handled s' \<subseteq> handled s" using assms(4) unfolding handled_def by blast
  moreover have "i = j" if "handler s' i = Some (p, b)" "handler s' j = Some (p, c)" for i j p b c
    using assms(1) assms(4) [OF that(1)] assms(4) [OF that(2)] unfolding exclusive_def by blast
  ultimately show ?thesis using assms(1-3) unfolding exclusive_def by auto
qed

lemma exclusive_step: "wstep cfg s a s' \<Longrightarrow> calm cfg s a \<Longrightarrow> exclusive s \<Longrightarrow> exclusive s'"
proof (induction rule: wstep.induct)
  case (w_scan s now e)
  obtain p reg age where e: "e = (p, reg, age)" by (metis prod.exhaust)
  show ?case
  proof (cases "poll_accepts cfg e \<and> p \<notin> inflight (wpool s) \<and> seen (wpool s) p = None")
    case True
    then have "p \<notin> set (fileq (wpool s)) \<union> handled s"
      using w_scan(2) by (auto simp: exclusive_def)
    moreover have "handled (s\<lparr>wpool := poll_entry cfg now e (wpool s)\<rparr>) = handled s"
      by (simp add: handled_def)
    ultimately show ?thesis using True w_scan(2) e
      by (auto simp: exclusive_def poll_entry_def Let_def)
  next
    case False
    then have "poll_entry cfg now e (wpool s) = wpool s" using e by (auto simp: poll_entry_def)
    with w_scan(2) show ?thesis by simp
  qed
next
  case (w_expire s now)
  have "p \<in> dom (seen (cleanup_seen_ttl cfg now (wpool s)))"
    if "p \<in> set (fileq (wpool s)) \<union> handled s" for p
    using w_expire(1) that by (force simp: calm_def handled_def ran_def)
  with w_expire(2) show ?case
    by (auto simp: exclusive_def handled_def cleanup_seen_ttl_def Let_def)
next
  case (w_take s i p w)
  then obtain q where q: "fileq (wpool s) = p # q"
    "w = (wpool s)\<lparr>fileq := q, queue_depth := queue_depth (wpool s) - 1,
       active_workers := active_workers (wpool s) + 1, inflight := insert p (inflight (wpool s))\<rparr>"
    by (auto simp: pop_file_def split: list.splits)
  have "handled (s\<lparr>wpool := w, handler := (handler s)(i \<mapsto> (p, False))\<rparr>) = insert p (handled s)"
    using w_take(1) by (auto simp: handled_def split: if_splits) (metis option.discI)
  moreover have "handler s j \<noteq> Some (p, c)" for j c
    using w_take(4) q by (auto simp: exclusive_def handled_def)
  ultimately show ?case using w_take q by (auto simp: exclusive_def)
next
  case (w_fail s i p)
  show ?case
  proof (rule exclusive_fewer [OF w_fail(3)])
    show "\<exists>c. handler s j = Some (q, c)"
      if "handler (s\<lparr>wpool := snd (snd (bump_failure cfg p (release_inflight p (wpool s)))),
            handler := (handler s)(i \<mapsto> (p, True))\<rparr>) j = Some (q, b)" for j q b
      using that w_fail(1) by (auto split: if_splits)
  qed (simp_all add: bump_failure_def release_inflight_def Let_def)
next
  case (w_finish_release s i p b)
  show ?case
    by (rule exclusive_fewer [OF w_finish_release(3)]) (auto simp: release_inflight_def split: if_splits)
next
  case (w_finish s i p)
  show ?case by (rule exclusive_fewer [OF w_finish(3)]) (auto split: if_splits)
next
  case (w_queue s job)
  then show ?case by (simp add: exclusive_def handled_def push_reconvert_def)
next
  case (w_reconv s job w)
  then have "fileq w = fileq (wpool s)" "seen w = seen (wpool s)"
    by (auto simp: pop_reconvert_def split: list.splits)
  with w_reconv(3) show ?case by (simp add: exclusive_def handled_def)
qed

lemma exclusive_run: "calm_run cfg s as s' \<Longrightarrow> exclusive s \<Longrightarrow> exclusive s'"
  by (induction rule: calm_run.induct) (auto intro: exclusive_step)


definition demo_cfg :: config where
  "demo_cfg = default_config"

definition raw_file :: dir_entry where
  "raw_file = (''/watch/DSC_1.NEF'', True, 60)"

lemma raw_accepted: "poll_accepts demo_cfg raw_file"
  by code_simp

definition pool_after_scan :: pool where
  "pool_after_scan = empty_pool\<lparr>seen := [''/watch/DSC_1.NEF'' \<mapsto> 0], fileq := [''/watch/DSC_1.NEF''], queue_depth := 1\<rparr>"

lemma first_scan: "poll_entry demo_cfg 0 raw_file empty_pool = pool_after_scan"
  using raw_accepted by (simp add: poll_entry_def raw_file_def pool_after_scan_def empty_pool_def)

definition pool_taken :: pool where
  "pool_taken = pool_after_scan\<lparr>fileq := [], queue_depth := 0, active_workers := 1, inflight := {''/watch/DSC_1.NEF''}\<rparr>"

lemma first_take: "pop_file pool_after_scan = Some (''/watch/DSC_1.NEF'', pool_taken)"
  by (simp add: pop_file_def pool_after_scan_def pool_taken_def empty_pool_def)

lemma demo_run_taken:
  "calm_run demo_cfg wstart [Scan_Entry 0 raw_file, Take 0]
     \<lparr>wpool = pool_taken, handler = [0 \<mapsto> (''/watch/DSC_1.NEF'', False)]\<rparr>"
  by (rule calm_cons [of _ _ _ "\<lparr>wpool = pool_after_scan, handler = Map.empty\<rparr>"])
    (auto simp: wstep_simps wstart_def first_scan first_take calm_def intro!: calm_cons calm_nil)


lemma calm_run_wrun: "calm_run cfg s as s' \<Longrightarrow> wrun cfg s as s'"
  by (induction rule: calm_run.induct) (auto intro: wrun.intros)

theorem gauges_exact_witness: "active_workers pool_taken = 1"
  using gauges_exact [OF calm_run_wrun [OF demo_run_taken]] by simp

section \<open>Without it\<close>

text \<open>
  The clean-up also drops a path that still waits in the queue; the next scan queues it again,
  and two threads take it.
\<close>

definition double_acts :: "wact list" where
  "double_acts = [Scan_Entry 0 raw_file, Expire 21000000000, Scan_Entry 21000000000 raw_file, Take 0, Take 1]"

definition double_end :: wsys where
  "double_end = \<lparr>wpool = empty_pool\<lparr>seen := [''/watch/DSC_1.NEF'' \<mapsto> 21000000000], fileq := [], queue_depth := 0,
       active_workers := 2, inflight := {''/watch/DSC_1.NEF''}\<rparr>,
     handler = [0 \<mapsto> (''/watch/DSC_1.NEF'', False), 1 \<mapsto> (''/watch/DSC_1.NEF'', False)]\<rparr>"

lemma double_run: "wrun demo_cfg wstart double_acts double_end"
proof -
  let ?p = "''/watch/DSC_1.NEF''"
  let ?s1 = "\<lparr>wpool = pool_after_scan, handler = Map.empty\<rparr>"
  let ?s2 = "\<lparr>wpool = pool_after_scan\<lparr>seen := Map.empty\<rparr>, handler = Map.empty\<rparr>"
  let ?w3 = "pool_after_scan\<lparr>seen := [?p \<mapsto> 21000000000], fileq := [?p, ?p], queue_depth := 2\<rparr>"
  let ?w4 = "?w3\<lparr>fileq := [?p], queue_depth := 1, active_workers := 1, inflight := {?p}\<rparr>"
  have s1: "wstep demo_cfg wstart (Scan_Entry 0 raw_file) ?s1"
    by (simp add: wstep_simps wstart_def first_scan)
  have "cleanup_seen_ttl demo_cfg 21000000000 pool_after_scan = pool_after_scan\<lparr>seen := Map.empty\<rparr>"
    by (simp add: cleanup_seen_ttl_def pool_after_scan_def demo_cfg_def default_config_def Let_def)
      (rule arg_cong [where f = "\<lambda>x. empty_pool\<lparr>fileq := _, queue_depth := 1, seen := x\<rparr>"], auto)
  then have s2: "wstep demo_cfg ?s1 (Expire 21000000000) ?s2" by (simp add: wstep_simps)
  have "poll_entry demo_cfg 21000000000 raw_file (pool_after_scan\<lparr>seen := Map.empty\<rparr>) = ?w3"
    using raw_accepted by (simp add: poll_entry_def raw_file_def pool_after_scan_def empty_pool_def)
  then have s3: "wstep demo_cfg ?s2 (Scan_Entry 21000000000 raw_file) \<lparr>wpool = ?w3, handler = Map.empty\<rparr>"
    by (simp add: wstep_simps)
  have s4: "wstep demo_cfg \<lparr>wpool = ?w3, handler = Map.empty\<rparr> (Take 0) \<lparr>wpool = ?w4, handler = [0 \<mapsto> (?p, False)]\<rparr>"
    by (simp add: wstep_simps pop_file_def pool_after_scan_def empty_pool_def)
  have s5: "wstep demo_cfg \<lparr>wpool = ?w4, handler = [0 \<mapsto> (?p, False)]\<rparr> (Take 1) double_end"
    by (simp add: wstep_simps pop_file_def pool_after_scan_def empty_pool_def double_end_def)
  from s1 s2 s3 s4 s5 show ?thesis unfolding double_acts_def by (blast intro: wrun.intros)
qed

text \<open>
  Without that condition the guarantee fails: with the default intervals, a file that waits
  in the queue for more than twenty seconds is queued a second time, and two threads end up
  processing it at once, although the poller checks \<open>inflight\<close> and \<open>seen\<close>.
\<close>

theorem queued_file_taken_twice:
  "\<exists>as s. wrun demo_cfg wstart as s \<and>
     handler s 0 = Some (''/watch/DSC_1.NEF'', False) \<and> handler s 1 = Some (''/watch/DSC_1.NEF'', False)"
  using double_run by (intro exI [of _ double_acts] exI [of _ double_end]) (simp add: double_end_def)

end
