(* ===== verification/Exif_Daemon.thy ===== *)
theory Exif_Daemon
  imports Pipeline Config_Model
begin

text \<open>
  The persistent ExifTool process (\<open>src/src/exiftool_daemon.cpp\<close>, POSIX branch): the argument
  file protocol, the framing of responses by \<open>{ready}\<close>, the parsing of the date and every
  fallback to the modification time. What ExifTool answers is an argument.
\<close>

section \<open>State and stream\<close>

text \<open>
  \<open>dm_out\<close> is what can still be read from the process before end of file; \<open>dm_sent\<close> what was
  written to it.
\<close>

record daemon =
  dm_running :: bool
  dm_child :: bool
  dm_stream :: bool
  dm_out :: string
  dm_sent :: "string list"

definition no_daemon :: daemon where
  "no_daemon = \<lparr>dm_running = False, dm_child = False, dm_stream = False, dm_out = [], dm_sent = []\<rparr>"

text \<open>\<open>fgets\<close> with a buffer of 1024: up to and including a newline, at most 1023 characters.\<close>

definition fgets :: "string \<Rightarrow> (string \<times> string) option" where
  "fgets s =
     (if s = [] then None
      else let k = length (takeWhile (\<lambda>c. c \<noteq> CHR 0x0A) s);
               n = min 1023 (Suc k)
           in Some (take n s, drop n s))"

lemma fgets_shorter: "fgets s = Some (l, r) \<Longrightarrow> length r < length s"
  by (auto simp: fgets_def Let_def split: if_splits)

definition chomp :: "string \<Rightarrow> string" where
  "chomp l = (if l \<noteq> [] \<and> last l = CHR 0x0A then butlast l else l)"

definition ready :: string where
  "ready = ''{ready}''"

function read_response :: "string \<Rightarrow> string \<Rightarrow> string option \<times> string" where
  "read_response acc s =
     (case fgets s of
        None \<Rightarrow> (None, [])
      | Some (line, rest) \<Rightarrow>
          let t = chomp (c_str line)
          in if t = ready then (Some acc, rest)
             else read_response (if acc \<noteq> [] then acc @ CHR 0x0A # t else t) rest)"
  by pat_completeness auto
termination
  by (relation "measure (\<lambda>(acc, s). length s)") (auto dest: fgets_shorter)

declare read_response.simps [simp del]

text \<open>
  \<open>reply\<close> is what the process prints after a command, \<open>write_ok\<close> whether the whole command was
  written.
\<close>

definition send_command :: "bool \<Rightarrow> (string \<Rightarrow> string) \<Rightarrow> string \<Rightarrow> daemon \<Rightarrow> string \<times> daemon" where
  "send_command write_ok reply cmd d =
     (if \<not> dm_running d \<or> \<not> dm_child d \<or> \<not> dm_stream d then ([], d)
      else if \<not> write_ok then ([], d\<lparr>dm_running := False\<rparr>)
      else
        let (r, rest) = read_response [] (dm_out d @ reply cmd);
            d1 = d\<lparr>dm_out := rest, dm_sent := dm_sent d @ [cmd]\<rparr>
        in case r of None \<Rightarrow> ([], d1\<lparr>dm_running := False\<rparr>) | Some t \<Rightarrow> (t, d1))"

text \<open>
  \<open>stop\<close>: the request to end is written, whatever comes of it, when there is a child (whose
  standard input is then open); its answer is not read.
\<close>

definition stop_cmd :: string where
  "stop_cmd = ''-stay_open'' @ CHR 0x0A # ''False'' @ CHR 0x0A # ''-execute'' @ [CHR 0x0A]"

definition daemon_stop :: "daemon \<Rightarrow> daemon" where
  "daemon_stop d = d\<lparr>dm_running := False, dm_child := False, dm_stream := False,
     dm_sent := dm_sent d @ (if dm_child d then [stop_cmd] else [])\<rparr>"

text \<open>\<open>start\<close>: pipes, fork, \<open>fdopen\<close>, and the \<open>-ver\<close> handshake.\<close>

definition daemon_start :: "bool \<Rightarrow> bool \<Rightarrow> bool \<Rightarrow> bool \<Rightarrow> (string \<Rightarrow> string) \<Rightarrow> bool \<times> daemon" where
  "daemon_start pipes forked fdopened write_ok reply =
     (if \<not> pipes \<or> \<not> forked then (False, no_daemon)
      else let d = no_daemon\<lparr>dm_child := True\<rparr>
        in if \<not> fdopened then (False, daemon_stop d)
           else let (test, d1) = send_command write_ok reply (''-ver'' @ CHR 0x0A # ''-execute'' @ [CHR 0x0A])
                      (d\<lparr>dm_stream := True, dm_running := True\<rparr>)
             in if test = [] then (False, daemon_stop d1) else (True, d1))"

section \<open>extract_date\<close>

definition safe_path :: "path \<Rightarrow> path" where
  "safe_path p = (if p \<noteq> [] \<and> hd p = CHR ''-'' then ''./'' @ p else p)"

definition date_cmd :: "path \<Rightarrow> string" where
  "date_cmd p = ''-S'' @ CHR 0x0A # ''-DateTimeOriginal'' @ CHR 0x0A # ''-FileModifyDate'' @ CHR 0x0A #
     safe_path p @ CHR 0x0A # ''-execute'' @ [CHR 0x0A]"

definition is_blank :: "char \<Rightarrow> bool" where
  "is_blank c \<longleftrightarrow> c = CHR '' '' \<or> c = CHR 0x09"

definition date_value :: "string \<Rightarrow> (string \<times> string) option" where
  "date_value line =
     (let val0 = substr_from line 17;
          val = (if dropWhile is_blank val0 = [] then val0 else dropWhile is_blank val0)
      in if length val \<ge> 19 \<and> val ! 4 = CHR '':'' \<and> val ! 7 = CHR '':'' \<and> val ! 10 = CHR '' ''
         then Some (substr val 0 4 @ ''-'' @ substr val 5 2 @ ''-'' @ substr val 8 2, substr val 11 8)
         else None)"

fun parse_dates :: "string list \<Rightarrow> (string \<times> string) option" where
  "parse_dates [] = None"
| "parse_dates (l # ls) =
     (if starts_with l ''DateTimeOriginal:''
      then (case date_value l of Some dt \<Rightarrow> Some dt | None \<Rightarrow> parse_dates ls)
      else parse_dates ls)"

definition extract_date ::
  "(int \<Rightarrow> tm) \<Rightarrow> bool \<Rightarrow> (string \<Rightarrow> string) \<Rightarrow> fsys \<Rightarrow> path \<Rightarrow> daemon \<Rightarrow> exif_result \<times> daemon" where
  "extract_date localtime write_ok reply fs p d =
     (if \<not> dm_running d then (exif_from_mtime localtime fs p, d)
      else
        let sp = safe_path p;
            (response, d1) = (if CHR 0x0A \<notin> set sp then send_command write_ok reply (date_cmd p) d else ([], d))
        in case (if response = [] then None else parse_dates (getlines response)) of
             Some (dt, tmv) \<Rightarrow> (\<lparr>ex_date = dt, ex_time = tmv, ex_source = Exif\<rparr>, d1)
           | None \<Rightarrow> (let m = exif_from_mtime localtime fs p
                      in (\<lparr>ex_date = ex_date m, ex_time = ex_time m, ex_source = Mtime\<rparr>, d1)))"

section \<open>Framing\<close>

definition response_text :: "string list \<Rightarrow> string" where
  "response_text ls = concat (map (\<lambda>l. l @ [CHR 0x0A]) ls) @ ready @ [CHR 0x0A]"

definition plain_line :: "string \<Rightarrow> bool" where
  "plain_line l \<longleftrightarrow> CHR 0x0A \<notin> set l \<and> CHR 0x00 \<notin> set l \<and> length l < 1023 \<and> l \<noteq> ready"

fun join_lines :: "string \<Rightarrow> string list \<Rightarrow> string" where
  "join_lines acc [] = acc"
| "join_lines acc (l # ls) = join_lines (if acc \<noteq> [] then acc @ CHR 0x0A # l else l) ls"

lemma fgets_line:
  assumes "CHR 0x0A \<notin> set l" "length l < 1023"
  shows "fgets (l @ CHR 0x0A # rest) = Some (l @ [CHR 0x0A], rest)"
proof -
  have "takeWhile (\<lambda>c. c \<noteq> CHR 0x0A) (l @ CHR 0x0A # rest) = l"
    using assms(1) by (subst takeWhile_append2) auto
  moreover have "min 1023 (Suc (length l)) = Suc (length l)" using assms(2) by simp
  ultimately show ?thesis by (simp add: fgets_def Let_def)
qed

lemma chomp_line [simp]: "chomp (l @ [CHR 0x0A]) = l"
  by (simp add: chomp_def)

lemma c_str_plain: "CHR 0x00 \<notin> set l \<Longrightarrow> c_str (l @ [CHR 0x0A]) = l @ [CHR 0x0A]"
  by (auto simp: c_str_def takeWhile_eq_all_conv)

lemma read_response_lines:
  assumes "\<forall>l \<in> set ls. plain_line l"
  shows "read_response acc (response_text ls @ rst) = (Some (join_lines acc ls), rst)"
  using assms
proof (induction ls arbitrary: acc)
  case Nil
  have "fgets (ready @ CHR 0x0A # rst) = Some (ready @ [CHR 0x0A], rst)"
    by (rule fgets_line) (simp_all add: ready_def)
  moreover have "c_str (ready @ [CHR 0x0A]) = ready @ [CHR 0x0A]"
    by (rule c_str_plain) (simp add: ready_def)
  ultimately show ?case by (subst read_response.simps) (simp add: response_text_def)
next
  case (Cons l ls)
  have "fgets (l @ CHR 0x0A # (response_text ls @ rst)) = Some (l @ [CHR 0x0A], response_text ls @ rst)"
    using Cons.prems by (intro fgets_line) (auto simp: plain_line_def)
  with Cons show ?case
    by (subst read_response.simps) (simp add: response_text_def plain_line_def c_str_plain)
qed

definition usable :: "daemon \<Rightarrow> bool" where
  "usable d \<longleftrightarrow> dm_running d \<and> dm_child d \<and> dm_stream d"

lemma send_command_result:
  assumes "usable d" "dm_out d = []" "reply cmd = response_text ls" "\<forall>l \<in> set ls. plain_line l"
  shows "fst (send_command True reply cmd d) = join_lines [] ls \<and>
         dm_out (snd (send_command True reply cmd d)) = [] \<and> usable (snd (send_command True reply cmd d))"
  using assms read_response_lines [OF assms(4), of "[]" "[]"]
  by (simp add: send_command_def usable_def)

text \<open>
  The response framing stays in step: when ExifTool answers a command with lines of fewer
  than 1023 characters followed by \<open>{ready}\<close>, \<open>send_command\<close> returns exactly those lines joined
  by newlines and consumes everything, so the next command reads its own answer.
\<close>

theorem send_command_framed:
  assumes "usable d" "dm_out d = []" "reply cmd = response_text ls" "\<forall>l \<in> set ls. plain_line l"
  shows "fst (send_command True reply cmd d) = join_lines [] ls \<and>
         dm_out (snd (send_command True reply cmd d)) = [] \<and> usable (snd (send_command True reply cmd d))"
  by (rule send_command_result [of d reply cmd ls, OF assms])

theorem send_command_framed_witness:
  "fst (send_command True (\<lambda>_. response_text [''13.00'', ''ok'']) ''-ver''
      \<lparr>dm_running = True, dm_child = True, dm_stream = True, dm_out = [], dm_sent = []\<rparr>) = ''13.00'' @ CHR 0x0A # ''ok''"
  using send_command_framed [of "\<lparr>dm_running = True, dm_child = True, dm_stream = True, dm_out = [], dm_sent = []\<rparr>"
      "\<lambda>_. response_text [''13.00'', ''ok'']" "''-ver''" "[''13.00'', ''ok'']"]
  by (simp add: usable_def plain_line_def ready_def)

section \<open>Arguments\<close>

lemma getlines_from_line:
  "CHR 0x0A \<notin> set l \<Longrightarrow> getlines_from cur (l @ CHR 0x0A # rest) = (cur @ l) # getlines_from [] rest"
  by (induction l arbitrary: cur) auto

lemma getlines_date_cmd:
  assumes "CHR 0x0A \<notin> set (safe_path p)"
  shows "getlines (date_cmd p) = [''-S'', ''-DateTimeOriginal'', ''-FileModifyDate'', safe_path p, ''-execute'']"
proof -
  have "getlines_from [] (''-S'' @ CHR 0x0A # r) = ''-S'' # getlines_from [] r"
    "getlines_from [] (''-DateTimeOriginal'' @ CHR 0x0A # r) = ''-DateTimeOriginal'' # getlines_from [] r"
    "getlines_from [] (''-FileModifyDate'' @ CHR 0x0A # r) = ''-FileModifyDate'' # getlines_from [] r"
    "getlines_from [] (safe_path p @ CHR 0x0A # r) = safe_path p # getlines_from [] r"
    "getlines_from [] (''-execute'' @ CHR 0x0A # r) = ''-execute'' # getlines_from [] r" for r
    by (rule getlines_from_line [where cur = "[]", unfolded append.simps], use assms in simp)+
  then show ?thesis unfolding getlines_def date_cmd_def by simp
qed

lemma send_command_sent:
  "dm_sent (snd (send_command w f cmd d)) \<in> {dm_sent d, dm_sent d @ [cmd]}"
  by (auto simp: send_command_def Let_def split: prod.split option.split)

lemma extract_date_daemon:
  "snd (extract_date lt w f fs p d) =
     (if dm_running d \<and> CHR 0x0A \<notin> set (safe_path p) then snd (send_command w f (date_cmd p) d) else d)"
  by (auto simp: extract_date_def Let_def split_beta split: option.split)

text \<open>
  No file name can become an ExifTool option or split into several arguments: whatever the
  path, either nothing is sent, or exactly the five argument lines \<open>-S\<close>, the two tags, the file
  and \<open>-execute\<close>, the file being the path itself, or \<open>./\<close> and the path when it starts with a
  dash, and never starting with one.
\<close>

theorem date_command_safe:
  "let d' = snd (extract_date localtime write_ok reply fs p d)
   in dm_sent d' = dm_sent d \<or>
      (\<exists>a. dm_sent d' = dm_sent d @ [date_cmd p] \<and>
           getlines (date_cmd p) = [''-S'', ''-DateTimeOriginal'', ''-FileModifyDate'', a, ''-execute''] \<and>
           a \<in> {p, ''./'' @ p} \<and> \<not> starts_with a ''-'')"
proof (cases "dm_running d \<and> CHR 0x0A \<notin> set (safe_path p)")
  case True
  have "safe_path p \<in> {p, ''./'' @ p}" by (simp add: safe_path_def)
  moreover have "\<not> starts_with (safe_path p) ''-''"
    by (cases p) (auto simp: safe_path_def starts_with_def)
  ultimately show ?thesis
    using True send_command_sent [of write_ok reply "date_cmd p" d] getlines_date_cmd
    by (auto simp: extract_date_daemon Let_def)
next
  case False
  then show ?thesis by (auto simp: extract_date_daemon Let_def)
qed

section \<open>Dates\<close>

definition date_line :: "string \<Rightarrow> bool" where
  "date_line l \<longleftrightarrow> l \<noteq> [] \<and> plain_line l"

lemma join_lines_concat: "acc \<noteq> [] \<Longrightarrow> join_lines acc ls = acc @ concat (map (\<lambda>l. CHR 0x0A # l) ls)"
  by (induction ls arbitrary: acc) auto

lemma getlines_from_last: "CHR 0x0A \<notin> set l \<Longrightarrow> l \<noteq> [] \<or> cur \<noteq> [] \<Longrightarrow> getlines_from cur l = [cur @ l]"
  by (induction l arbitrary: cur) auto

lemma getlines_join:
  assumes "\<forall>l \<in> set ls. date_line l" "ls \<noteq> []"
  shows "getlines (join_lines [] ls) = ls"
proof -
  have "getlines_from [] (k @ concat (map (\<lambda>l. CHR 0x0A # l) ls)) = k # ls"
    if "\<forall>l \<in> set (k # ls). date_line l" for k ls
    using that
  proof (induction ls arbitrary: k)
    case Nil
    then show ?case using getlines_from_last [of k "[]"] by (simp add: date_line_def plain_line_def)
  next
    case (Cons l ls)
    have "CHR 0x0A \<notin> set k" using Cons.prems by (simp add: date_line_def plain_line_def)
    from getlines_from_line [OF this, of "[]"] Cons show ?case by simp
  qed
  moreover obtain k ks where "ls = k # ks" using assms(2) by (cases ls) auto
  moreover have "join_lines [] (k # ks) = k @ concat (map (\<lambda>l. CHR 0x0A # l) ks)"
    using assms(1) \<open>ls = k # ks\<close> by (simp add: join_lines_concat date_line_def)
  ultimately show ?thesis using assms(1) by (simp add: getlines_def)
qed

lemma parse_dates_skip:
  "\<forall>l \<in> set pre. \<not> starts_with l ''DateTimeOriginal:'' \<Longrightarrow> parse_dates (pre @ rst) = parse_dates rst"
  by (induction pre) auto

text \<open>A value in ExifTool's format \<open>YYYY:MM:DD HH:MM:SS\<close>, and the line that carries it.\<close>

definition exif_stamp :: "string \<Rightarrow> string \<Rightarrow> string \<Rightarrow> string \<Rightarrow> string" where
  "exif_stamp y m d hms = y @ '':'' @ m @ '':'' @ d @ '' '' @ hms"

lemma date_value_stamp:
  assumes "length y = 4" "length m = 2" "length d = 2" "length hms = 8" "y = c # cs" "\<not> is_blank c"
  shows "date_value (''DateTimeOriginal: '' @ exif_stamp y m d hms) = Some (y @ ''-'' @ m @ ''-'' @ d, hms)"
proof -
  let ?v = "exif_stamp y m d hms"
  have "is_blank CHR '' ''" by (simp add: is_blank_def)
  then have dw: "dropWhile is_blank (CHR '' '' # ?v) = ?v" using assms(5,6) by (simp add: exif_stamp_def)
  have ne: "?v \<noteq> []" using assms(5) by (simp add: exif_stamp_def)
  have sub: "substr_from (''DateTimeOriginal: '' @ ?v) 17 = CHR '' '' # ?v" by (simp add: substr_from_def)
  have "(if dropWhile is_blank (CHR '' '' # ?v) = [] then CHR '' '' # ?v else dropWhile is_blank (CHR '' '' # ?v)) = ?v"
    unfolding dw using ne by (rule if_not_P)
  moreover have "length ?v = 19" "?v ! 4 = CHR '':''" "?v ! 7 = CHR '':''" "?v ! 10 = CHR '' ''"
    using assms by (simp_all add: exif_stamp_def nth_append)
  moreover have "substr ?v 0 4 = y" "substr ?v 5 2 = m" "substr ?v 8 2 = d" "substr ?v 11 8 = hms"
    using assms by (simp_all add: exif_stamp_def substr_def)
  ultimately show ?thesis unfolding date_value_def sub Let_def by simp
qed

text \<open>
  C33: The capture date ExifTool reports is the one recorded: when the daemon answers with a
  \<open>DateTimeOriginal\<close> line (after any other lines), the result is its date with dashes, its time,
  and source Exif.
\<close>

theorem extract_date_exif:
  assumes "usable d" "dm_out d = []" "CHR 0x0A \<notin> set (safe_path p)"
    and "reply (date_cmd p) = response_text (pre @ (''DateTimeOriginal: '' @ exif_stamp y m dd hms) # post)"
    and "\<forall>l \<in> set (pre @ (''DateTimeOriginal: '' @ exif_stamp y m dd hms) # post). date_line l"
    and "\<forall>l \<in> set pre. \<not> starts_with l ''DateTimeOriginal:''"
    and "length y = 4" "length m = 2" "length dd = 2" "length hms = 8" "\<not> is_blank (hd y)"
  shows "fst (extract_date lt True reply fs p d) =
     \<lparr>ex_date = y @ ''-'' @ m @ ''-'' @ dd, ex_time = hms, ex_source = Exif\<rparr>"
proof -
  let ?l = "''DateTimeOriginal: '' @ exif_stamp y m dd hms"
  let ?ls = "pre @ ?l # post"
  have plain: "\<forall>l \<in> set ?ls. plain_line l" using assms(5) unfolding date_line_def by blast
  have r: "fst (send_command True reply (date_cmd p) d) = join_lines [] ?ls"
    using send_command_result [of d reply "date_cmd p" ?ls, OF assms(1,2,4) plain] by simp
  have lines: "getlines (join_lines [] ?ls) = ?ls" by (rule getlines_join [OF assms(5)]) simp
  have ne: "join_lines [] ?ls \<noteq> []"
  proof
    assume "join_lines [] ?ls = []"
    with lines show False by (simp add: getlines_def)
  qed
  obtain c cs where y: "y = c # cs" using assms(7) by (cases y) auto
  have "date_value ?l = Some (y @ ''-'' @ m @ ''-'' @ dd, hms)"
    using date_value_stamp [OF assms(7-10) y] assms(11) y by simp
  moreover have "starts_with ?l ''DateTimeOriginal:''" by (simp add: starts_with_def)
  ultimately have "parse_dates ?ls = Some (y @ ''-'' @ m @ ''-'' @ dd, hms)"
    using parse_dates_skip [OF assms(6)] by simp
  with r lines ne assms(1,3) show ?thesis
    by (simp add: extract_date_def Let_def split_beta usable_def)
qed

definition demo_reply :: "string \<Rightarrow> string" where
  "demo_reply cmd = response_text [''Warning: x'', ''DateTimeOriginal: 2026:07:05 14:30:22'']"

definition live_daemon :: daemon where
  "live_daemon = \<lparr>dm_running = True, dm_child = True, dm_stream = True, dm_out = [], dm_sent = []\<rparr>"

theorem extract_date_exif_witness:
  "\<forall>lt fs. ex_date (fst (extract_date lt True demo_reply fs ''/watch/DSC_1.NEF'' live_daemon)) = ''2026-07-05''"
proof (intro allI)
  fix lt fs
  have reply: "demo_reply (date_cmd ''/watch/DSC_1.NEF'') =
      response_text ([''Warning: x''] @ (''DateTimeOriginal: '' @ exif_stamp ''2026'' ''07'' ''05'' ''14:30:22'') # [])"
    by (simp add: demo_reply_def exif_stamp_def)
  show "ex_date (fst (extract_date lt True demo_reply fs ''/watch/DSC_1.NEF'' live_daemon)) = ''2026-07-05''"
    using extract_date_exif [of live_daemon "''/watch/DSC_1.NEF''" demo_reply "[''Warning: x'']" "''2026''" "''07''" "''05''"
        "''14:30:22''" "[]" lt fs, OF _ _ _ reply]
    by (simp add: live_daemon_def usable_def safe_path_def date_line_def plain_line_def ready_def exif_stamp_def
        starts_with_def is_blank_def)
qed

text \<open>
  Every failure ends in the modification time: when the daemon is down, cannot be written
  to, dies before \<open>{ready}\<close>, answers nothing or no usable date, or the name holds a newline, the
  result is that of \<open>exif_from_mtime\<close>; and a write failure or end of file disables the daemon for
  good.
\<close>

theorem extract_date_fallback:
  "(ex_source (fst (extract_date lt w reply fs p d)) = Mtime \<longrightarrow>
      fst (extract_date lt w reply fs p d) = exif_from_mtime lt fs p) \<and>
   (\<not> dm_running d \<or> \<not> w \<or> CHR 0x0A \<in> set p \<or> fst (read_response [] (dm_out d @ reply (date_cmd p))) = None \<longrightarrow>
      ex_source (fst (extract_date lt w reply fs p d)) = Mtime) \<and>
   (usable d \<and> CHR 0x0A \<notin> set (safe_path p) \<and>
      (\<not> w \<or> fst (read_response [] (dm_out d @ reply (date_cmd p))) = None) \<longrightarrow>
      \<not> dm_running (snd (extract_date lt w reply fs p d)))"
proof -
  have src: "ex_source (exif_from_mtime lt fs p) = Mtime"
    by (simp add: exif_from_mtime_def Let_def split: option.split)
  have nl: "CHR 0x0A \<in> set (safe_path p) \<longleftrightarrow> CHR 0x0A \<in> set p"
    by (simp add: safe_path_def)
  have one: "ex_source (fst (extract_date lt w reply fs p d)) = Mtime \<longrightarrow>
      fst (extract_date lt w reply fs p d) = exif_from_mtime lt fs p"
    using src by (auto simp: extract_date_def Let_def split_beta split: option.split)
  have silent: "fst (send_command w reply (date_cmd p) d) = []"
    if "\<not> w \<or> fst (read_response [] (dm_out d @ reply (date_cmd p))) = None"
    using that by (auto simp: send_command_def Let_def split_beta)
  have two: "ex_source (fst (extract_date lt w reply fs p d)) = Mtime"
    if "\<not> dm_running d \<or> \<not> w \<or> CHR 0x0A \<in> set p \<or> fst (read_response [] (dm_out d @ reply (date_cmd p))) = None"
    using that silent nl src by (auto simp: extract_date_def Let_def split_beta)
  have three: "\<not> dm_running (snd (extract_date lt w reply fs p d))"
    if "usable d" "CHR 0x0A \<notin> set (safe_path p)" "\<not> w \<or> fst (read_response [] (dm_out d @ reply (date_cmd p))) = None"
    using that by (auto simp: extract_date_daemon usable_def send_command_def Let_def split_beta)
  show ?thesis using one two three by blast
qed

definition tm_epoch :: tm where
  "tm_epoch = \<lparr>tm_year = 70, tm_mon = 0, tm_mday = 1, tm_hour = 0, tm_min = 0, tm_sec = 0\<rparr>"

definition dead_reply :: "string \<Rightarrow> string" where
  "dead_reply cmd = ''DateTimeOriginal: 2026:07:05 14:30:22''"

theorem extract_date_fallback_witness:
  "ex_source (fst (extract_date (\<lambda>_. tm_epoch) True dead_reply \<lparr>files = Map.empty, dirs = {}\<rparr> ''a.nef'' live_daemon)) = Mtime \<and>
   dm_running (snd (extract_date (\<lambda>_. tm_epoch) True dead_reply \<lparr>files = Map.empty, dirs = {}\<rparr> ''a.nef'' live_daemon)) = False"
proof -
  have "fst (read_response [] (dm_out live_daemon @ dead_reply (date_cmd ''a.nef''))) = None" by code_simp
  moreover have "usable live_daemon" "CHR 0x0A \<notin> set (safe_path ''a.nef'')" by code_simp+
  ultimately show ?thesis
    using extract_date_fallback [of "\<lambda>_. tm_epoch" True dead_reply "\<lparr>files = Map.empty, dirs = {}\<rparr>" "''a.nef''" live_daemon]
    by simp
qed

end
