(* ===== verification/Pool_Threads.thy ===== *)
theory Pool_Threads
  imports Worker_Steps Exif_Daemon Converter
begin

text \<open>
  The worker pool from its constructor to \<open>Stop\<close> (\<open>src/src/worker.cpp\<close>): the ExifTool daemon it
  owns, the threads it starts, and what a scan puts into the queue, the first scan after a start
  in particular.
\<close>

section \<open>Constructor, Start, Stop\<close>

record pool_threads =
  pth_poller :: bool
  pth_drain :: bool
  pth_workers :: nat
  pth_stop :: bool
  pth_daemon :: "daemon option"
  pth_pool :: pool

text \<open>
  The constructor: \<open>started\<close> is what \<open>ExifToolDaemon::start\<close> returned and left; an unhealthy daemon is
  dropped, and files get the date of their modification time.
\<close>

definition new_pool :: "config \<Rightarrow> bool \<times> daemon \<Rightarrow> pool_threads" where
  "new_pool cfg started =
     \<lparr>pth_poller = False, pth_drain = False, pth_workers = 0, pth_stop = False,
      pth_daemon = (if exiftool_daemon cfg \<and> dm_running (snd started) then Some (snd started) else None),
      pth_pool = empty_pool\<rparr>"

definition pool_Start :: "config \<Rightarrow> int \<Rightarrow> string option \<Rightarrow> pool_threads \<Rightarrow> pool_threads" where
  "pool_Start cfg hw engine_name t =
     t\<lparr>pth_poller := True, pth_drain := True, pth_workers := pth_workers t + nat (worker_count cfg hw engine_name)\<rparr>"

text \<open>
  \<open>Stop\<close>: every loop tests the flag at least once a second, so the joins end; the queue is not
  emptied. The daemon is stopped but stays owned.
\<close>

definition pool_Stop :: "pool_threads \<Rightarrow> pool_threads" where
  "pool_Stop t = t\<lparr>pth_stop := True, pth_poller := False, pth_drain := False, pth_workers := 0,
     pth_daemon := map_option daemon_stop (pth_daemon t)\<rparr>"

text \<open>\<open>ProcessFile\<close>'s choice of the date source.\<close>

definition date_source_of :: "pool_threads \<Rightarrow> (int \<Rightarrow> tm) \<Rightarrow> bool \<Rightarrow> (string \<Rightarrow> string) \<Rightarrow> fsys \<Rightarrow> path \<Rightarrow> exif_result" where
  "date_source_of t localtime write_ok reply fs p =
     (case pth_daemon t of
        None \<Rightarrow> exif_from_mtime localtime fs p
      | Some d \<Rightarrow> fst (extract_date localtime write_ok reply fs p d))"

section \<open>What a scan queues\<close>

text \<open>The entries of a listing that are not known to the pool.\<close>

definition fresh_entries :: "config \<Rightarrow> pool \<Rightarrow> dir_entry list \<Rightarrow> dir_entry list" where
  "fresh_entries cfg w es = [e \<leftarrow> es. poll_accepts cfg e \<and> fst e \<notin> inflight w \<and> seen w (fst e) = None]"

lemma poll_entry_cases:
  "poll_entry cfg now e w =
     (if poll_accepts cfg e \<and> fst e \<notin> inflight w \<and> seen w (fst e) = None
      then w\<lparr>seen := (seen w)(fst e \<mapsto> now), fileq := fileq w @ [fst e], queue_depth := queue_depth w + 1\<rparr>
      else w)"
  by (cases e) (auto simp: poll_entry_def)

lemma poll_scan_effect:
  assumes "distinct (map fst es)"
  shows "fileq (poll_scan cfg now es w) = fileq w @ map fst (fresh_entries cfg w es) \<and>
    queue_depth (poll_scan cfg now es w) = queue_depth w + int (length (fresh_entries cfg w es)) \<and>
    seen (poll_scan cfg now es w) = (\<lambda>p. if p \<in> fst ` set (fresh_entries cfg w es) then Some now else seen w p) \<and>
    inflight (poll_scan cfg now es w) = inflight w"
  using assms
proof (induction es arbitrary: w)
  case Nil
  then show ?case by (simp add: poll_scan_def fresh_entries_def)
next
  case (Cons e es)
  let ?w = "poll_entry cfg now e w"
  have scan: "poll_scan cfg now (e # es) w = poll_scan cfg now es ?w" by (simp add: poll_scan_def)
  have notin: "fst e \<notin> fst ` set es" "distinct (map fst es)" using Cons.prems by simp_all
  have rest: "fresh_entries cfg ?w es = fresh_entries cfg w es"
  proof -
    have "inflight ?w = inflight w" "\<And>q. q \<noteq> fst e \<Longrightarrow> seen ?w q = seen w q" by (auto simp: poll_entry_cases)
    moreover have "fst x \<noteq> fst e" if "x \<in> set es" for x using notin(1) that by (metis image_eqI)
    ultimately show ?thesis unfolding fresh_entries_def by (intro filter_cong refl) simp
  qed
  show ?case
  proof (cases "poll_accepts cfg e \<and> fst e \<notin> inflight w \<and> seen w (fst e) = None")
    case True
    then have "fresh_entries cfg w (e # es) = e # fresh_entries cfg w es" by (simp add: fresh_entries_def)
    with Cons.IH [OF notin(2), of ?w] True show ?thesis
      unfolding scan rest by (auto simp: poll_entry_cases)
  next
    case False
    then have "fresh_entries cfg w (e # es) = fresh_entries cfg w es" "?w = w"
      by (auto simp: fresh_entries_def poll_entry_cases)
    with Cons.IH [OF notin(2), of w] show ?thesis unfolding scan by simp
  qed
qed

text \<open>
  C18: A start loses no file: the queue is not saved at a stop, but the first turn of the new poller
  queues every acceptable file of the watch folder, each once and in the order of the listing,
  whatever the last run had queued or in work; if the polling interval is longer than an hour the
  first turn does not scan at all.
\<close>

theorem first_scan_complete:
  assumes "distinct (map fst es)" "0 \<le> poll_interval_sec cfg" "now \<le> now2" "now2 - now \<le> 2 * poll_interval_sec cfg * 1000000000"
    and "t = pool_Start cfg hw engine_name (new_pool cfg started)"
  shows "let (last_scan, w) = poll_turn cfg now now2 (Some es) (now - 3600 * 1000000000, pth_pool t)
     in if poll_interval_sec cfg \<le> 3600
        then fileq w = map fst (filter (poll_accepts cfg) es) \<and> distinct (fileq w) \<and>
             queue_depth w = int (length (fileq w)) \<and> dom (seen w) = set (fileq w) \<and> last_scan = now
        else w = cleanup_seen_ttl cfg now2 empty_pool \<and> fileq w = []"
proof -
  have pool: "pth_pool t = empty_pool" by (simp add: assms(5) pool_Start_def new_pool_def)
  have el: "(now - (now - 3600 * 1000000000)) div 1000000000 = (3600 :: int)" by simp
  have fresh: "fresh_entries cfg empty_pool es = filter (poll_accepts cfg) es"
    by (simp add: fresh_entries_def empty_pool_def)
  have dist: "distinct (map fst (filter (poll_accepts cfg) es))" using assms(1) by (simp add: distinct_map_filter)
  show ?thesis
  proof (cases "poll_interval_sec cfg \<le> 3600")
    case True
    let ?w = "poll_scan cfg now es empty_pool"
    have w: "fileq ?w = map fst (filter (poll_accepts cfg) es)" "queue_depth ?w = int (length (fileq ?w))"
      "seen ?w = (\<lambda>p. if p \<in> set (fileq ?w) then Some now else None)"
      using poll_scan_effect [OF assms(1), of cfg now empty_pool] fresh by (auto simp: empty_pool_def)
    have "dom (seen (cleanup_seen_ttl cfg now2 ?w)) = set (fileq ?w)"
      using assms(4) by (auto simp: cleanup_seen_ttl_def w(3) Let_def dom_def split: option.splits if_splits)
    then show ?thesis
      using True w(1,2) dist el by (simp add: poll_turn_def pool cleanup_seen_ttl_def Let_def)
  next
    case False
    then show ?thesis using el by (simp add: poll_turn_def pool cleanup_seen_ttl_def empty_pool_def Let_def)
  qed
qed

theorem first_scan_complete_witness:
  "let t = pool_Start demo_cfg 4 None (new_pool demo_cfg (False, no_daemon));
       (last_scan, w) = poll_turn demo_cfg 5 6 (Some [raw_file, (''/watch/a.txt'', True, 60), (''/watch/B.CR2'', True, 3)])
         (5 - 3600 * 1000000000, pth_pool t)
   in fileq w = [''/watch/DSC_1.NEF''] \<and> last_scan = 5"
proof -
  let ?es = "[raw_file, (''/watch/a.txt'', True, 60), (''/watch/B.CR2'', True, 3)]"
  have acc: "filter (poll_accepts demo_cfg) ?es = [raw_file]" by code_simp
  have cfg: "poll_interval_sec demo_cfg = 10" by (simp add: demo_cfg_def default_config_def)
  have "distinct (map fst ?es)" by (simp add: raw_file_def)
  from first_scan_complete [OF this, of demo_cfg 5 6 _ 4 None "(False, no_daemon)"] acc
  show ?thesis by (simp add: cfg split_beta Let_def raw_file_def)
qed

end
