(* ===== verification/Http_Response.thy ===== *)
theory Http_Response
  imports Api
begin

text \<open>
  The sending half of \<open>src/src/api.cpp\<close>: the loop in \<open>send_response\<close> over short writes, and what a
  client can read back from the bytes that arrive.
\<close>

section \<open>Short writes\<close>

text \<open>
  The send loop; \<open>n k\<close> is what the k-th \<open>send\<close> returns, which is at most what it was given. An
  error (or 0) ends it, and the caller is not told.
\<close>

function send_loop :: "(nat \<Rightarrow> int) \<Rightarrow> nat \<Rightarrow> string \<Rightarrow> string" where
  "send_loop n k out =
     (if out = [] then []
      else if n k \<le> 0 then []
      else let m = min (nat (n k)) (length out) in take m out @ send_loop n (Suc k) (drop m out))"
  by pat_completeness auto
termination
  by (relation "measure (\<lambda>(n, k, out). length out)") auto

declare send_loop.simps [simp del]

lemma send_loop_prefix: "prefix (send_loop n k out) out"
proof (induction n k out rule: send_loop.induct)
  case (1 n k out)
  show ?case
  proof (cases "out = [] \<or> n k \<le> 0")
    case True
    then show ?thesis by (subst send_loop.simps) auto
  next
    case False
    let ?m = "min (nat (n k)) (length out)"
    have "prefix (send_loop n (Suc k) (drop ?m out)) (drop ?m out)" using 1 False by simp
    then have "prefix (take ?m out @ send_loop n (Suc k) (drop ?m out)) (take ?m out @ drop ?m out)"
      by (simp only: same_prefix_prefix)
    then show ?thesis using False by (subst send_loop.simps) (simp add: Let_def)
  qed
qed

lemma send_loop_all: "(\<And>j. 0 < n j) \<Longrightarrow> send_loop n k out = out"
proof (induction n k out rule: send_loop.induct)
  case (1 n k out)
  then have "send_loop n (Suc k) (drop (min (nat (n k)) (length out)) out) = drop (min (nat (n k)) (length out)) out"
    if "out \<noteq> []" using that by (simp add: not_le)
  with 1(2) [of k] show ?case by (subst send_loop.simps) (simp add: Let_def not_le)
qed

section \<open>Reading an answer back\<close>

text \<open>Searching for a pattern skips text without its first character.\<close>

lemma find_sub_skip:
  "c \<notin> set a \<Longrightarrow> find_sub (c # p) rst = Some i \<Longrightarrow> find_sub (c # p) (a @ rst) = Some (length a + i)"
  by (induction a) (auto simp: starts_with_def)

lemma find_sub_here: "find_sub p (p @ rst) = Some 0"
proof (cases "p @ rst")
  case (Cons c cs)
  then have "starts_with (c # cs) p" using starts_with_append [of p rst] by simp
  then show ?thesis by (simp add: Cons)
qed simp

lemma find_sub_after: "p = c # q \<Longrightarrow> c \<notin> set a \<Longrightarrow> find_sub p (a @ p @ rst) = Some (length a)"
  using find_sub_skip [of c a q "p @ rst" 0] find_sub_here [of p rst] by simp

lemma digit_free: "\<not> isdigit c \<Longrightarrow> c \<notin> set (dec_nat k)"
  using dec_nat_digits by blast

lemma dec_int_free: "\<not> isdigit c \<Longrightarrow> c \<noteq> CHR ''-'' \<Longrightarrow> c \<notin> set (dec_int i)"
  by (auto simp: dec_int_def digit_free)

lemma reason_free: "CHR 0x0D \<notin> set (reason code)" "CHR ''C'' \<notin> set (reason code)"
  by (simp_all add: reason_def)

definition plain_type :: "string \<Rightarrow> bool" where
  "plain_type ty \<longleftrightarrow> CHR 0x0D \<notin> set ty \<and> CHR ''C'' \<notin> set ty"

definition status_line :: "int \<Rightarrow> string" where
  "status_line code = ''HTTP/1.1 '' @ dec_int code @ '' '' @ reason code"

lemma status_line_free: "CHR 0x0D \<notin> set (status_line code)" "CHR ''C'' \<notin> set (status_line code)"
  by (simp_all add: status_line_def reason_free dec_int_free isdigit_def)

lemma response_lines:
  "send_response code body ty = status_line code @ crlf @ (''Content-Type: '' @ ty) @ crlf @
     (''Content-Length: '' @ dec_nat (length body)) @ crlf @ ''Connection: close'' @ crlf @ crlf @ body"
  by (simp add: send_response_def status_line_def)

text \<open>The end of the header: the first empty line.\<close>

lemma crlf_cons: "crlf = CHR 0x0D # [CHR 0x0A]" "crlf @ crlf = CHR 0x0D # [CHR 0x0A, CHR 0x0D, CHR 0x0A]"
  by (simp_all add: crlf_def)

lemma crlf_skip:
  assumes "CHR 0x0D \<notin> set l" "hd m = CHR ''C''" "m \<noteq> []" "find_sub (crlf @ crlf) (m @ rst) = Some i"
  shows "find_sub (crlf @ crlf) (l @ crlf @ m @ rst) = Some (length l + (2 + i))"
proof -
  have "find_sub (crlf @ crlf) (crlf @ m @ rst) = Some (2 + i)"
    using assms(2,3,4) by (cases m) (simp_all add: crlf_def starts_with_def)
  then show ?thesis
    using find_sub_skip [OF assms(1), of "[CHR 0x0A] @ crlf" "crlf @ m @ rst"] by (simp add: crlf_def)
qed

definition header_text :: "int \<Rightarrow> string \<Rightarrow> nat \<Rightarrow> string" where
  "header_text code ty k = status_line code @ crlf @ (''Content-Type: '' @ ty) @ crlf @
     (''Content-Length: '' @ dec_nat k) @ crlf @ ''Connection: close''"

lemma header_end:
  assumes "plain_type ty"
  shows "find_sub (crlf @ crlf) (send_response code body ty) = Some (length (header_text code ty (length body)))"
proof -
  define l1 where "l1 = ''Content-Type: '' @ ty"
  define l2 where "l2 = ''Content-Length: '' @ dec_nat (length body)"
  define l3 where "l3 = ''Connection: close''"
  have free: "CHR 0x0D \<notin> set l1" "CHR 0x0D \<notin> set l2" "CHR 0x0D \<notin> set l3"
    using assms by (simp_all add: l1_def l2_def l3_def plain_type_def digit_free isdigit_def)
  have starts: "hd l1 = CHR ''C''" "l1 \<noteq> []" "hd l2 = CHR ''C''" "l2 \<noteq> []" "hd l3 = CHR ''C''" "l3 \<noteq> []"
    by (simp_all add: l1_def l2_def l3_def)
  have "find_sub (crlf @ crlf) (l3 @ (crlf @ crlf) @ body) = Some (length l3)"
    by (rule find_sub_after [OF crlf_cons(2) free(3)])
  from crlf_skip [OF status_line_free(1) starts(1,2) crlf_skip [OF free(1) starts(3,4) crlf_skip [OF free(2) starts(5,6) this]], of code]
  show ?thesis by (simp add: response_lines header_text_def l1_def l2_def l3_def crlf_def)
qed

lemma header_body: "send_response code body ty = header_text code ty (length body) @ crlf @ crlf @ body"
  by (simp add: response_lines header_text_def)

text \<open>The length field.\<close>

lemma length_field:
  assumes "plain_type ty" "int (length body) \<le> int64_max"
  shows "content_length (send_response code body ty) = int (length body)"
proof -
  let ?k = "dec_nat (length body)" and ?r = "send_response code body ty"
  let ?tail = "''Connection: close'' @ crlf @ crlf @ body"
  let ?key = "''Content-Length:''"
  have key: "?key = CHR ''C'' # ''ontent-Length:''" by simp
  define fld where "fld = ?key @ '' '' @ ?k"
  define tail where "tail = ?tail"
  define pre where "pre = status_line code @ crlf @ ''Content-Type: '' @ ty @ crlf"
  define mid where "mid = ''ontent-Type: '' @ ty @ crlf"
  have r: "?r = pre @ fld @ crlf @ tail" by (simp add: response_lines pre_def fld_def tail_def)
  have pre: "pre = (status_line code @ crlf) @ CHR ''C'' # mid" by (simp add: pre_def mid_def)
  have "CHR ''C'' \<notin> set mid" using assms(1) by (simp add: mid_def plain_type_def crlf_def)
  then have "find_sub ?key (mid @ ?key @ '' '' @ ?k @ crlf @ tail) = Some (length mid)"
    by (rule find_sub_after [OF key])
  moreover have "\<not> starts_with (CHR ''C'' # mid @ x) ?key" for x by (simp add: mid_def starts_with_def)
  ultimately have "find_sub ?key (CHR ''C'' # mid @ ?key @ '' '' @ ?k @ crlf @ tail) = Some (Suc (length mid))"
    by (simp only: find_sub.simps if_False option.map)
  moreover have "CHR ''C'' \<notin> set (status_line code @ crlf)" using status_line_free(2) by (simp add: crlf_def)
  ultimately have "find_sub ?key ((status_line code @ crlf) @ CHR ''C'' # mid @ ?key @ '' '' @ ?k @ crlf @ tail) =
      Some (length (status_line code @ crlf) + Suc (length mid))"
    by (rule find_sub_skip [rotated])
  then have pos: "find_sub ?key ?r = Some (length pre)" unfolding r pre fld_def by simp
  have "CHR 0x0D \<notin> set fld" by (simp add: fld_def digit_free isdigit_def)
  then have "find_sub crlf (fld @ crlf @ tail) = Some (length fld)" by (rule find_sub_after [OF crlf_cons(1)])
  then have e: "str_find ?r crlf (length pre) = Some (length pre + length fld)"
    by (simp add: str_find_def r)
  have "substr ?r (length pre + 15) (length pre + length fld - (length pre + 15)) = CHR '' '' # ?k"
    by (simp add: substr_def r fld_def)
  moreover have "scan_int (CHR '' '' # ?k) = scan_int ?k" by (simp add: scan_int_def isspace_def)
  then have "stol (CHR '' '' # ?k) = Inr (int (length body))" using assms(2) by (simp add: stol_def)
  ultimately show ?thesis using pos e by (simp add: content_length_def)
qed

text \<open>
  C29: An answer can be read back: whatever the body and however the socket splits the writes, the
  bytes that arrive hold the status line, a header that ends at its first empty line, a
  \<open>Content-Length\<close> that this server's own parser reads as the length of the body, and after the
  header exactly the body; if a write fails, what arrives is a prefix of that.
\<close>

theorem response_framed:
  assumes "plain_type ty" "int (length body) \<le> int64_max"
  shows "prefix (send_loop n 0 (send_response code body ty)) (send_response code body ty) \<and>
     ((\<forall>k. 0 < n k) \<longrightarrow> send_loop n 0 (send_response code body ty) = send_response code body ty) \<and>
     starts_with (send_response code body ty) (''HTTP/1.1 '' @ dec_int code @ '' '') \<and>
     content_length (send_response code body ty) = int (length body) \<and>
     (\<exists>h. find_sub (crlf @ crlf) (send_response code body ty) = Some h \<and>
          substr_from (send_response code body ty) (h + 4) = body)"
proof -
  let ?r = "send_response code body ty"
  have "starts_with ?r (''HTTP/1.1 '' @ dec_int code @ '' '')"
    using starts_with_append [of "''HTTP/1.1 '' @ dec_int code @ '' ''"] by (simp add: send_response_def)
  moreover have "substr_from ?r (length (header_text code ty (length body)) + 4) = body"
    by (simp add: header_body substr_from_def crlf_def)
  ultimately show ?thesis
    using send_loop_prefix send_loop_all header_end [OF assms(1)] length_field [OF assms] by blast
qed

theorem response_framed_witness:
  "\<exists>h. find_sub (crlf @ crlf) (send_loop (\<lambda>_. 7) 0 (send_response 200 ''{}'' json_type)) = Some h \<and>
       substr_from (send_loop (\<lambda>_. 7) 0 (send_response 200 ''{}'' json_type)) (h + 4) = ''{}''"
proof -
  have "plain_type json_type" by (simp add: plain_type_def json_type_def)
  from response_framed [OF this, of "''{}''" "\<lambda>_. 7" 200] show ?thesis by auto
qed

end
