(* ===== verification/Preview_Tool.thy ===== *)
theory Preview_Tool
  imports Pipeline
begin

text \<open>
  The stand-alone preview re-embedder \<open>src/tools/dng_previewembed.cpp\<close>: the search for the
  first JPEG segment of the DNG, the replacement or appending of the new preview, and the
  command line with its exit codes.
\<close>

section \<open>The segment search\<close>

function find_jpeg :: "byte list \<Rightarrow> nat \<Rightarrow> nat \<times> nat" where
  "find_jpeg d i =
     (if i + 1 < length d
      then if d ! i = 0xFF \<and> d ! (i + 1) = 0xD8
           then case find_eoi d (i + 2) of
                  Some j \<Rightarrow> (i, j + 2 - i)
                | None \<Rightarrow> (i, length d - i)
           else find_jpeg d (i + 1)
      else (0, 0))"
  by pat_completeness auto
termination
  by (relation "measure (\<lambda>(d, i). length d - i)") auto

declare find_jpeg.simps [simp del]

definition segment_at :: "byte list \<Rightarrow> nat \<Rightarrow> nat \<times> nat" where
  "segment_at d i = (case find_eoi d (i + 2) of Some j \<Rightarrow> (i, j + 2 - i) | None \<Rightarrow> (i, length d - i))"

lemma find_jpeg_first:
  assumes "i \<le> s" "soi_at d s" "\<forall>k. i \<le> k \<longrightarrow> k < s \<longrightarrow> \<not> soi_at d k"
  shows "find_jpeg d i = segment_at d s"
  using assms
proof (induction "s - i" arbitrary: i)
  case 0
  then have "i = s" by simp
  with 0 show ?case by (subst find_jpeg.simps) (auto simp: soi_at_def segment_at_def)
next
  case (Suc n)
  then have lt: "i < s" by simp
  then have "\<not> soi_at d i" using Suc.prems(3) by simp
  moreover have "i + 1 < length d" using lt Suc.prems(2) by (simp add: soi_at_def)
  ultimately have "find_jpeg d i = find_jpeg d (i + 1)" by (subst find_jpeg.simps) (auto simp: soi_at_def)
  moreover have "find_jpeg d (i + 1) = segment_at d s"
    using Suc.hyps(2) Suc.prems lt by (intro Suc.hyps(1)) auto
  ultimately show ?case by simp
qed

lemma find_jpeg_none:
  assumes "\<forall>k. i \<le> k \<longrightarrow> \<not> soi_at d k"
  shows "find_jpeg d i = (0, 0)"
  using assms
proof (induction "length d - i" arbitrary: i)
  case 0
  then show ?case by (subst find_jpeg.simps) simp
next
  case (Suc n)
  show ?case
  proof (cases "i + 1 < length d")
    case True
    have "\<not> soi_at d i" using Suc.prems by blast
    then have "find_jpeg d i = find_jpeg d (i + 1)" using True
      by (subst find_jpeg.simps) (auto simp: soi_at_def)
    moreover have "find_jpeg d (i + 1) = (0, 0)" using Suc.hyps(2) Suc.prems by (intro Suc.hyps(1)) auto
    ultimately show ?thesis by simp
  next
    case False
    then show ?thesis by (subst find_jpeg.simps) simp
  qed
qed

lemma segment_at_bounds: "soi_at d s \<Longrightarrow> segment_at d s = (a, n) \<Longrightarrow> a = s \<and> 2 \<le> n \<and> s + n \<le> length d"
  using find_eoi_Some [of d "s + 2"] find_eoi_bound [of d "s + 2"]
  by (auto simp: segment_at_def soi_at_def split: option.splits)

lemma first_soi: "(\<exists>k. soi_at d k) \<Longrightarrow> \<exists>s. soi_at d s \<and> (\<forall>k < s. \<not> soi_at d k)"
  using exists_least_iff [of "soi_at d"] by blast

section \<open>The embedding\<close>

definition embed_bytes :: "byte list \<Rightarrow> byte list \<Rightarrow> byte list" where
  "embed_bytes jdata d =
     (let (start, len) = find_jpeg d 0
      in if len > 0 then take start d @ jdata @ drop (start + len) d else d @ jdata)"

datatype tool_exit = Exit int | Uncaught conv_error

definition embed_main :: "string list \<Rightarrow> bool \<Rightarrow> int \<Rightarrow> fsys \<Rightarrow> tool_exit \<times> fsys" where
  "embed_main argv out_ok now fs =
     (if length argv < 6 then (Exit 2, fs)
      else
        let dng = argv ! 1; jpeg = argv ! 2
        in case stoi (argv ! 3) of
             Inl e \<Rightarrow> (Uncaught e, fs)
           | Inr w \<Rightarrow>
        (case stoi (argv ! 4) of
             Inl e \<Rightarrow> (Uncaught e, fs)
           | Inr h \<Rightarrow>
        (case stoi (argv ! 5) of
             Inl e \<Rightarrow> (Uncaught e, fs)
           | Inr q \<Rightarrow>
               if content fs dng = None \<and> dng \<notin> dirs fs then (Exit 1, fs)
               else
                 let jdata = (case content fs jpeg of None \<Rightarrow> [] | Some bs \<Rightarrow> bs)
                 in if length jdata < 64 \<or> jdata ! 0 \<noteq> 0xFF \<or> jdata ! 1 \<noteq> 0xD8 then (Exit 1, fs)
                    else
                      let d = (case content fs dng of None \<Rightarrow> [] | Some bs \<Rightarrow> bs)
                      in if d = [] then (Exit 1, fs)
                         else if \<not> out_ok then (Exit 1, fs)
                         else (Exit 0, write_file fs dng (embed_bytes jdata d) now))))"

text \<open>
  The tool changes only the DNG and only the first embedded JPEG of it: every byte before
  the first FF D8 is kept, the new preview follows, and then every byte after that segment
  (which ends at its first FF D9, or at the end of the file); without any FF D8 the preview is
  appended to the unchanged file.
\<close>

theorem embed_bytes_effect:
  "if \<exists>k. soi_at d k
   then \<exists>s n. soi_at d s \<and> (\<forall>k < s. \<not> soi_at d k) \<and> s + n \<le> length d \<and> 2 \<le> n \<and>
          (jpeg_segment d s n \<or> (s + n = length d \<and> (\<forall>l. s + 2 \<le> l \<longrightarrow> \<not> eoi_at d l))) \<and>
          embed_bytes jdata d = take s d @ jdata @ drop (s + n) d
   else embed_bytes jdata d = d @ jdata"
proof (cases "\<exists>k. soi_at d k")
  case True
  then obtain s where s: "soi_at d s" "\<forall>k < s. \<not> soi_at d k" using first_soi by blast
  obtain n where n: "segment_at d s = (s, n)" using segment_at_bounds [OF s(1)] by (metis prod.exhaust)
  have b: "2 \<le> n" "s + n \<le> length d" using segment_at_bounds [OF s(1) n] by simp_all
  have f: "find_jpeg d 0 = (s, n)" using find_jpeg_first [of 0 s d] s n by simp
  have "jpeg_segment d s n \<or> (s + n = length d \<and> (\<forall>l. s + 2 \<le> l \<longrightarrow> \<not> eoi_at d l))"
  proof (cases "find_eoi d (s + 2)")
    case None
    with n find_eoi_None [OF None] b show ?thesis by (auto simp: segment_at_def soi_at_def)
  next
    case (Some j)
    with n jpeg_segment_found [OF s(1) Some] show ?thesis by (auto simp: segment_at_def)
  qed
  moreover have "embed_bytes jdata d = take s d @ jdata @ drop (s + n) d"
    using f b(1) by (simp add: embed_bytes_def)
  ultimately show ?thesis using True s b by auto
next
  case False
  then show ?thesis using find_jpeg_none [of 0 d] by (simp add: embed_bytes_def)
qed

theorem embed_bytes_effect_witness:
  "embed_bytes [0xFF, 0xD8, 7, 7, 0xFF, 0xD9] [1, 2] = [1, 2, 0xFF, 0xD8, 7, 7, 0xFF, 0xD9]"
proof -
  have "\<not> (\<exists>k. soi_at [1, 2] k)" by (auto simp: soi_at_def less_Suc_eq)
  then show ?thesis
    using embed_bytes_effect [of "[1, 2]" "[0xFF, 0xD8, 7, 7, 0xFF, 0xD9]"] by simp
qed

section \<open>Embedding twice\<close>

text \<open>A preview that is one JPEG segment: its first end marker is its last two bytes.\<close>

definition whole_jpeg :: "byte list \<Rightarrow> bool" where
  "whole_jpeg j \<longleftrightarrow> jpeg_segment j 0 (length j)"

lemma eoi_at_inner:
  "l + 1 < length j \<Longrightarrow> eoi_at (pre @ j @ post) (length pre + l) \<longleftrightarrow> eoi_at j l"
  by (auto simp: eoi_at_def nth_append)

lemma segment_inner:
  assumes "whole_jpeg j"
  shows "jpeg_segment (pre @ j @ post) (length pre) (length j)"
proof -
  have j: "soi_at j 0" "4 \<le> length j" "eoi_at j (length j - 2)"
    "\<And>l. 2 \<le> l \<Longrightarrow> l < length j - 2 \<Longrightarrow> \<not> eoi_at j l"
    using assms by (auto simp: whole_jpeg_def jpeg_segment_def)
  have soi: "soi_at (pre @ j @ post) (length pre)" using j(1) by (auto simp: soi_at_def nth_append)
  have eoi: "eoi_at (pre @ j @ post) (length pre + (length j - 2))"
    using eoi_at_inner [of "length j - 2" j pre post] j by simp
  have inner: "\<not> eoi_at (pre @ j @ post) l" if lo: "length pre + 2 \<le> l" and hi: "l < length pre + length j - 2" for l
  proof -
    obtain m where m: "l = length pre + m" using le_Suc_ex [of "length pre" l] add_leD1 [OF lo] by blast
    with lo hi j(2) have "2 \<le> m" "m < length j - 2" by auto
    with j(4) have "\<not> eoi_at j m" by blast
    with eoi_at_inner [of m j pre post] \<open>m < length j - 2\<close> show ?thesis unfolding m by simp
  qed
  have len: "length pre + length j - 2 = length pre + (length j - 2)" using j(2) by simp
  show ?thesis unfolding jpeg_segment_def
  proof (intro conjI allI impI)
    show "eoi_at (pre @ j @ post) (length pre + length j - 2)" using eoi len by simp
  qed (use soi inner j(2) in simp_all)
qed

lemma no_soi_before:
  assumes "whole_jpeg j" "\<forall>k. k + 1 < length pre \<longrightarrow> \<not> soi_at pre k"
  shows "\<forall>k < length pre. \<not> soi_at (pre @ j @ post) k"
proof (intro allI impI)
  fix k assume k: "k < length pre"
  have j0: "j ! 0 = 0xFF" "0 < length j" using assms(1) by (auto simp: whole_jpeg_def jpeg_segment_def soi_at_def)
  show "\<not> soi_at (pre @ j @ post) k"
  proof (cases "k + 1 < length pre")
    case True
    with assms(2) k show ?thesis by (auto simp: soi_at_def nth_append)
  next
    case False
    then have "k + 1 = length pre" using k by simp
    then have "(pre @ j @ post) ! (k + 1) = 0xFF" using j0 by (simp add: nth_append)
    then show ?thesis by (simp add: soi_at_def)
  qed
qed

lemma embed_over:
  assumes "whole_jpeg j" "\<forall>k. k + 1 < length pre \<longrightarrow> \<not> soi_at pre k"
  shows "embed_bytes j (pre @ j @ post) = pre @ j @ post"
proof -
  let ?d = "pre @ j @ post"
  note seg = segment_inner [OF assms(1), of pre post]
  have soi: "soi_at ?d (length pre)" using seg by (simp add: jpeg_segment_def)
  have "find_jpeg ?d 0 = segment_at ?d (length pre)"
    using find_jpeg_first [OF _ soi] no_soi_before [OF assms] by simp
  moreover have "4 \<le> length j" using assms(1) by (simp add: whole_jpeg_def jpeg_segment_def)
  then have "segment_at ?d (length pre) = (length pre, length j)"
    using jpeg_segment_unique [OF seg] by (simp add: segment_at_def)
  ultimately show ?thesis using \<open>4 \<le> length j\<close> by (auto simp: embed_bytes_def)
qed

text \<open>
  Embedding is idempotent: embedding the same preview a second time changes nothing, for any
  DNG, when the preview is a single JPEG segment (without a thumbnail of its own inside).
\<close>

theorem embed_idempotent:
  assumes "whole_jpeg j"
  shows "embed_bytes j (embed_bytes j d) = embed_bytes j d"
proof (cases "\<exists>k. soi_at d k")
  case True
  then obtain s where s: "soi_at d s" "\<forall>k < s. \<not> soi_at d k" using first_soi by blast
  obtain n where n: "segment_at d s = (s, n)" using segment_at_bounds [OF s(1)] by (metis prod.exhaust)
  have "find_jpeg d 0 = (s, n)" "2 \<le> n" using find_jpeg_first [of 0 s d] s n segment_at_bounds [OF s(1) n] by simp_all
  then have e: "embed_bytes j d = take s d @ j @ drop (s + n) d" by (simp add: embed_bytes_def)
  have "\<not> soi_at (take s d) k" if "k + 1 < length (take s d)" for k
    using s(2) that by (auto simp: soi_at_def)
  then show ?thesis unfolding e by (intro embed_over [OF assms]) blast
next
  case False
  then have e: "embed_bytes j d = d @ j @ []" using find_jpeg_none [of 0 d] by (simp add: embed_bytes_def)
  show ?thesis unfolding e using False by (intro embed_over [OF assms]) blast
qed

theorem embed_idempotent_witness:
  "let j = [0xFF, 0xD8, 7, 0xFF, 0xD9]; d = [1, 0xFF, 0xD8, 5, 0xFF, 0xD9, 2]
   in embed_bytes j (embed_bytes j d) = embed_bytes j d"
proof -
  have two_only: "l = 2" if "2 \<le> l" "l < 3" for l :: nat using that by linarith
  have "whole_jpeg [0xFF, 0xD8, 7, 0xFF, 0xD9]"
    using two_only by (simp add: whole_jpeg_def jpeg_segment_def soi_at_def eoi_at_def)
  from embed_idempotent [OF this] show ?thesis by (simp add: Let_def)
qed

text \<open>
  What the replacement costs: everything after the replaced segment moves by the difference
  of the two lengths, while the offsets stored in the TIFF structure are not adjusted, so any
  absolute offset behind the preview is wrong unless the lengths agree.
\<close>

theorem embed_shifts_rest:
  assumes "find_jpeg d 0 = (s, n)" "0 < n" "s + n \<le> i" "i < length d" "s \<le> length d"
  shows "embed_bytes jdata d ! (i + length jdata - n) = d ! i \<and>
         take s (embed_bytes jdata d) = take s d"
proof -
  have e: "embed_bytes jdata d = take s d @ jdata @ drop (s + n) d"
    using assms(1,2) by (simp add: embed_bytes_def)
  have "i + length jdata - n = length (take s d @ jdata) + (i - (s + n))"
    using assms by simp
  then have "embed_bytes jdata d ! (i + length jdata - n) = drop (s + n) d ! (i - (s + n))"
    unfolding e append_assoc [symmetric] by (simp only: nth_append_length_plus)
  with assms show ?thesis by (simp add: e)
qed

theorem embed_shifts_rest_witness:
  "embed_bytes [0xFF, 0xD8, 7, 7, 7, 0xFF, 0xD9] [1, 0xFF, 0xD8, 5, 0xFF, 0xD9, 2] ! 8 = 2"
proof -
  have "find_eoi [1, 0xFF, 0xD8, 5, 0xFF, 0xD9, 2] (Suc (Suc (Suc 0))) = Some 4" by (simp add: find_eoi.simps)
  then have "find_jpeg [1, 0xFF, 0xD8, 5, 0xFF, 0xD9, 2] 0 = (1, 5)" by (simp add: find_jpeg.simps)
  from embed_shifts_rest [OF this, of 6 "[0xFF, 0xD8, 7, 7, 7, 0xFF, 0xD9]"] show ?thesis by simp
qed

end
