(* ===== verification/Sdk_Preview.thy ===== *)
theory Sdk_Preview
  imports Config_Model Files "HOL-Library.Word"
begin

text \<open>
  The command-line tool built on the Adobe DNG SDK (\<open>src/dng_previewembed.cpp\<close>): its option
  parser, the preview list it builds and its exit codes. The SDK is not in the repository: its
  calls are the fields of a record, each returning a value or throwing.
\<close>

section \<open>Options\<close>

text \<open>
  One \<open>%u\<close> of \<open>sscanf\<close>: white space, an optional sign, digits. A number that does not fit
  an unsigned 32-bit integer is undefined in C; \<open>big\<close> is what the library stores then.
\<close>

definition scan_u :: "(nat \<Rightarrow> 32 word) \<Rightarrow> string \<Rightarrow> (32 word \<times> string) option" where
  "scan_u big s =
     (let (neg, t) = strip_sign (dropWhile isspace s);
          ds = takeWhile isdigit t;
          n = dec_val 0 ds;
          v = (if n < 2 ^ 32 then of_nat n else big n)
      in if ds = [] then None else Some (if neg then - v else v, dropWhile isdigit t))"

text \<open>
  \<open>sscanf(str, "%ux%u", &w, &h)\<close>: a number that was read is stored even when the rest does not
  match. The second, identical call changes nothing more.
\<close>

definition parse_size :: "(nat \<Rightarrow> 32 word) \<Rightarrow> string \<Rightarrow> 32 word \<times> 32 word \<Rightarrow> bool \<times> 32 word \<times> 32 word" where
  "parse_size big str wh =
     (case scan_u big str of
        None \<Rightarrow> (False, wh)
      | Some (w, rest) \<Rightarrow>
          (case rest of
             [] \<Rightarrow> (False, w, snd wh)
           | c # t \<Rightarrow>
               if c \<noteq> CHR ''x'' then (False, w, snd wh)
               else case scan_u big t of
                      None \<Rightarrow> (False, w, snd wh)
                    | Some (h, _) \<Rightarrow> (True, w, h)))"

record tool_opts =
  op_preview :: "32 word \<times> 32 word"
  op_thumb :: "32 word \<times> 32 word"
  op_preserve :: bool
  op_adobe :: bool
  op_verbose :: bool

definition default_opts :: "string option \<Rightarrow> tool_opts" where
  "default_opts env_mode =
     \<lparr>op_preview = (0, 0), op_thumb = (256, 192),
      op_preserve = (env_mode = Some ''preserve''), op_adobe = (env_mode = Some ''adobe''), op_verbose = False\<rparr>"

fun parse_opts :: "(nat \<Rightarrow> 32 word) \<Rightarrow> string list \<Rightarrow> tool_opts \<Rightarrow> tool_opts" where
  "parse_opts big [] op = op"
| "parse_opts big (a # as) op =
     (if a = ''--preview-size'' \<and> as \<noteq> []
      then parse_opts big (tl as) (op\<lparr>op_preview := snd (parse_size big (hd as) (op_preview op))\<rparr>)
      else if a = ''--thumbnail-size'' \<and> as \<noteq> []
      then parse_opts big (tl as) (op\<lparr>op_thumb := snd (parse_size big (hd as) (op_thumb op))\<rparr>)
      else if a = ''--preserve-hierarchy'' then parse_opts big as (op\<lparr>op_preserve := True\<rparr>)
      else if a = ''--adobe-compatible'' then parse_opts big as (op\<lparr>op_adobe := True\<rparr>)
      else if a = ''--verbose'' then parse_opts big as (op\<lparr>op_verbose := True\<rparr>)
      else parse_opts big as op)"

section \<open>The tool\<close>

datatype sdk_error = Dng_exception int | Other_exception

record preview =
  pv_name :: string
  pv_height :: "32 word"
  pv_width :: "32 word"
  pv_bytes :: nat
  pv_data :: "byte list option"
  pv_mime :: string

text \<open>
  The SDK: reading a file, parsing it (\<open>Inr False\<close>: not a valid DNG), opening a file for
  writing, and writing the parsed file with a list of previews (\<open>keep\<close>: keep the structure).
\<close>

record sdk =
  sd_read :: "path \<Rightarrow> fsys \<Rightarrow> sdk_error + byte list"
  sd_parse :: "byte list \<Rightarrow> sdk_error + bool"
  sd_create :: "path \<Rightarrow> fsys \<Rightarrow> sdk_error + fsys"
  sd_write :: "byte list \<Rightarrow> preview list \<Rightarrow> bool \<Rightarrow> path \<Rightarrow> fsys \<Rightarrow> sdk_error option \<times> fsys"

definition exit_of :: "sdk_error \<Rightarrow> int" where
  "exit_of e = (case e of Dng_exception _ \<Rightarrow> 3 | Other_exception \<Rightarrow> 4)"

definition preview_size :: "tool_opts \<Rightarrow> 32 word \<times> 32 word" where
  "preview_size op = (if fst (op_preview op) = 0 \<or> snd (op_preview op) = 0 then (4000, 3000) else op_preview op)"

definition main_preview :: "tool_opts \<Rightarrow> byte list \<Rightarrow> preview" where
  "main_preview op jpeg =
     \<lparr>pv_name = ''JpgFromRaw'', pv_height = snd (preview_size op), pv_width = fst (preview_size op),
      pv_bytes = length jpeg, pv_data = Some jpeg, pv_mime = ''image/jpeg''\<rparr>"

definition medium_preview :: preview where
  "medium_preview =
     \<lparr>pv_name = ''PreviewImage'', pv_height = 768, pv_width = 1024, pv_bytes = 0, pv_data = None,
      pv_mime = ''image/jpeg''\<rparr>"

definition previews :: "tool_opts \<Rightarrow> byte list \<Rightarrow> preview list" where
  "previews op jpeg = main_preview op jpeg # (if op_adobe op then [medium_preview] else [])"

text \<open>\<open>args\<close> are the arguments after the program's name.\<close>

definition sdk_main ::
  "(nat \<Rightarrow> 32 word) \<Rightarrow> sdk \<Rightarrow> string option \<Rightarrow> string list \<Rightarrow> fsys \<Rightarrow> int \<times> fsys" where
  "sdk_main big sd env_mode args fs =
     (case args of
        dng # jpeg # rest \<Rightarrow>
          let op = parse_opts big rest (default_opts env_mode)
          in (case sd_read sd dng fs of
                Inl e \<Rightarrow> (exit_of e, fs)
              | Inr data \<Rightarrow>
             (case sd_parse sd data of
                Inl e \<Rightarrow> (exit_of e, fs)
              | Inr valid \<Rightarrow>
                  if \<not> valid then (2, fs)
                  else
             (case sd_read sd jpeg fs of
                Inl e \<Rightarrow> (exit_of e, fs)
              | Inr jdata \<Rightarrow>
             (case sd_create sd dng fs of
                Inl e \<Rightarrow> (exit_of e, fs)
              | Inr fs1 \<Rightarrow>
                  (case sd_write sd data (previews op jdata) (op_preserve op \<or> op_adobe op) dng fs1 of
                     (Some e, fs2) \<Rightarrow> (exit_of e, fs2)
                   | (None, fs2) \<Rightarrow> (0, fs2))))))
      | _ \<Rightarrow> (1, fs))"

section \<open>Sizes\<close>

lemma scan_u_dec_nat:
  assumes "n < 2 ^ 32" "\<And>c. rest \<noteq> [] \<Longrightarrow> c = hd rest \<Longrightarrow> \<not> isdigit c"
  shows "scan_u big (dec_nat n @ rest) = Some (of_nat n, rest)"
proof -
  have dig: "\<forall>c \<in> set (dec_nat n). isdigit c" using dec_nat_digits by blast
  obtain d ds where d: "dec_nat n = d # ds" by (cases "dec_nat n") simp_all
  then have hd: "isdigit d" using dig by simp
  then have "\<not> isspace d" "d \<noteq> CHR ''-''" "d \<noteq> CHR ''+''" by (auto simp: isdigit_def isspace_def Let_def)
  then have s: "strip_sign (dropWhile isspace (dec_nat n @ rest)) = (False, dec_nat n @ rest)"
    by (simp add: d strip_sign_def)
  have r: "takeWhile isdigit rest = []" "dropWhile isdigit rest = rest" using assms(2) by (cases rest; simp)+
  have "takeWhile isdigit (dec_nat n @ rest) = dec_nat n" "dropWhile isdigit (dec_nat n @ rest) = rest"
    using dig r by (simp_all add: takeWhile_append2 dropWhile_append2)
  with s assms(1) show ?thesis by (simp add: scan_u_def Let_def)
qed

text \<open>
  Sizes round-trip: a size written as \<open>WxH\<close> in decimal is read back exactly, for all 32-bit
  values, whatever was set before.
\<close>

theorem parse_size_roundtrip:
  assumes "w < 2 ^ 32" "h < 2 ^ 32"
  shows "parse_size big (dec_nat w @ ''x'' @ dec_nat h) wh = (True, of_nat w, of_nat h)"
proof -
  have "scan_u big (dec_nat w @ ''x'' @ dec_nat h) = Some (of_nat w, ''x'' @ dec_nat h)"
    using assms(1) by (rule scan_u_dec_nat) (simp add: isdigit_def)
  moreover have "scan_u big (dec_nat h @ []) = Some (of_nat h, [])"
    using assms(2) by (rule scan_u_dec_nat) simp
  ultimately show ?thesis by (simp add: parse_size_def)
qed

theorem parse_size_roundtrip_witness:
  "parse_size (\<lambda>_. 0) ''1024x768'' (0, 0) = (True, 1024, 768)"
proof -
  have "dec_nat 1024 = ''1024''" "dec_nat 768 = ''768''" by code_simp+
  then show ?thesis using parse_size_roundtrip [of 1024 768 "\<lambda>_. 0" "(0, 0)"] by simp
qed

section \<open>The thumbnail size\<close>

text \<open>Equal in everything the tool uses.\<close>

definition same_use :: "tool_opts \<Rightarrow> tool_opts \<Rightarrow> bool" where
  "same_use op op' \<longleftrightarrow> op_preview op' = op_preview op \<and> op_preserve op' = op_preserve op \<and> op_adobe op' = op_adobe op"

lemma parse_opts_same_use: "same_use op op' \<Longrightarrow> same_use (parse_opts big as op) (parse_opts big as op')"
proof (induction big as op arbitrary: op' rule: parse_opts.induct)
  case (1 big op)
  then show ?case by simp
next
  case (2 big a as op)
  from "2.prems" have upd:
    "same_use (op\<lparr>op_preview := p\<rparr>) (op'\<lparr>op_preview := p\<rparr>)" "same_use (op\<lparr>op_thumb := q\<rparr>) (op'\<lparr>op_thumb := q'\<rparr>)"
    "same_use (op\<lparr>op_preserve := True\<rparr>) (op'\<lparr>op_preserve := True\<rparr>)"
    "same_use (op\<lparr>op_adobe := True\<rparr>) (op'\<lparr>op_adobe := True\<rparr>)"
    "same_use (op\<lparr>op_verbose := True\<rparr>) (op'\<lparr>op_verbose := True\<rparr>)" "op_preview op' = op_preview op" for p q q'
    by (simp_all add: same_use_def)
  show ?case
  proof (cases "(a = ''--preview-size'' \<or> a = ''--thumbnail-size'') \<and> as \<noteq> []")
    case True
    note ne = conjunct2 [OF True]
    show ?thesis
    proof (cases "a = ''--preview-size''")
      case True
      have pp: "op_preview op' = op_preview op" using "2.prems" by (simp add: same_use_def)
      show ?thesis
        using "2.IH"(1) [OF conjI [OF True ne] upd(1)] True ne by (simp add: pp)
    next
      case False
      with \<open>(a = _ \<or> _) \<and> _\<close> have a: "a = ''--thumbnail-size''" by blast
      have "\<not> (a = ''--preview-size'' \<and> as \<noteq> [])" using False by simp
      from "2.IH"(2) [OF this conjI [OF a ne] upd(2)] show ?thesis using a ne by simp
    qed
  next
    case False
    then have n: "\<not> (a = ''--preview-size'' \<and> as \<noteq> [])" "\<not> (a = ''--thumbnail-size'' \<and> as \<noteq> [])" by auto
    consider (k) "a = ''--preserve-hierarchy''" | (d) "a = ''--adobe-compatible''"
      | (v) "a = ''--verbose''"
      | (o) "a \<noteq> ''--preserve-hierarchy''" "a \<noteq> ''--adobe-compatible''" "a \<noteq> ''--verbose''" by blast
    then show ?thesis
    proof cases
      case k
      from "2.IH"(3) [OF n this upd(3)] show ?thesis using k by simp
    next
      case d
      then have "a \<noteq> ''--preserve-hierarchy''" by simp
      from "2.IH"(4) [OF n this d upd(4)] show ?thesis using d by simp
    next
      case v
      then have "a \<noteq> ''--preserve-hierarchy''" "a \<noteq> ''--adobe-compatible''" by simp_all
      from "2.IH"(5) [OF n this v upd(5)] show ?thesis using v by simp
    next
      case o
      from "2.IH"(6) [OF n o "2.prems"] show ?thesis by (simp only: parse_opts.simps n o if_False)
    qed
  qed
qed

lemma same_use_previews: "same_use op op' \<Longrightarrow> previews op' = previews op"
  by (rule ext) (simp add: same_use_def previews_def main_preview_def preview_size_def)

lemma sdk_main_same_use:
  assumes "same_use (parse_opts big rest (default_opts m)) (parse_opts big rest' (default_opts m))"
  shows "sdk_main big sd m (dng # jpeg # rest') fs = sdk_main big sd m (dng # jpeg # rest) fs"
proof -
  define op where "op = parse_opts big rest (default_opts m)"
  define op' where "op' = parse_opts big rest' (default_opts m)"
  have s: "same_use op op'" using assms by (simp only: op_def op'_def)
  have e: "op_preserve op' = op_preserve op" "op_adobe op' = op_adobe op" using s by (simp_all add: same_use_def)
  show ?thesis
    unfolding sdk_main_def list.case Let_def op_def [symmetric] op'_def [symmetric] same_use_previews [OF s] e
    by (rule refl)
qed

text \<open>
  The documented thumbnail size has no effect: with any value, the option can be left out of
  the command line without changing the outcome or the files.
\<close>

theorem thumbnail_size_ignored:
  "sdk_main big sd env_mode (dng # jpeg # ''--thumbnail-size'' # v # rest) fs =
   sdk_main big sd env_mode (dng # jpeg # rest) fs"
proof (rule sdk_main_same_use)
  have "same_use (default_opts env_mode) ((default_opts env_mode)\<lparr>op_thumb := x\<rparr>)" for x
    by (simp add: same_use_def)
  from parse_opts_same_use [OF this]
  show "same_use (parse_opts big rest (default_opts env_mode))
      (parse_opts big (''--thumbnail-size'' # v # rest) (default_opts env_mode))" by simp
qed

section \<open>Outcomes\<close>


text \<open>An SDK that reads files whole, accepts every non-empty DNG and writes DNG and previews in order.\<close>

definition demo_sdk :: sdk where
  "demo_sdk =
     \<lparr>sd_read = (\<lambda>p fs. case content fs p of None \<Rightarrow> Inl (Dng_exception 100003) | Some d \<Rightarrow> Inr d),
      sd_parse = (\<lambda>d. Inr (d \<noteq> [])), sd_create = (\<lambda>p fs. Inr (write_file fs p [] 0)),
      sd_write = (\<lambda>d pvs keep p fs. (None, write_file fs p (d @ concat (map (the \<circ> pv_data) pvs)) 0))\<rparr>"

definition demo_files :: fsys where
  "demo_files = write_file (write_file \<lparr>files = Map.empty, dirs = {}\<rparr> ''a.dng'' [1] 0) ''p.jpg'' [2, 3] 0"


end
