(* ===== verification/Schema_Types.thy ===== *)
theory Schema_Types
  imports Store_Steps
begin

text \<open>
  The column types of \<open>migrations/0001_init.sql\<close> as a typing of the tables' rows, and its
  preservation by every operation of \<open>Store\<close> (\<open>src/src/db.cpp\<close>): whatever texts and numbers the
  clients pass in, and whichever statements the server fails, in strict SQL mode or not.
\<close>

section \<open>Column types\<close>

definition fits :: "nat \<Rightarrow> string \<Rightarrow> bool" where
  "fits n t \<longleftrightarrow> length t \<le> n"

definition in_range :: "int \<Rightarrow> int \<Rightarrow> bool" where
  "in_range m v \<longleftrightarrow> 0 \<le> v \<and> v \<le> m"

definition enum_value :: "string list \<Rightarrow> string \<Rightarrow> bool" where
  "enum_value vals v \<longleftrightarrow> v \<in> set vals \<or> v = []"

lemma varchar_fits: "varchar s n t = Some u \<Longrightarrow> fits n u"
  by (auto simp: varchar_def fits_def split: if_splits)

lemma unsigned_col_range: "unsigned_col s m v = Some w \<Longrightarrow> 0 \<le> m \<Longrightarrow> in_range m w"
  by (auto simp: unsigned_col_def in_range_def split: if_splits)

lemma enum_col_value: "enum_col s vals v = Some w \<Longrightarrow> enum_value vals w"
  by (auto simp: enum_col_def enum_value_def split: if_splits)

lemmas column_rules = varchar_fits unsigned_col_range enum_col_value

section \<open>Rows\<close>

definition seq_typed :: "seq_row \<Rightarrow> bool" where
  "seq_typed r \<longleftrightarrow> fits 32 (snd r)"

definition import_typed :: "import_record \<Rightarrow> bool" where
  "import_typed r \<longleftrightarrow> fits 64 (source_hash r) \<and> fits 64 (output_hash r) \<and> fits 64 (camera_model r) \<and>
     fits 16 (folder_schema r) \<and> in_range 255 (orientation r)"

definition reconversion_typed :: "server \<Rightarrow> int set \<Rightarrow> reconversion_row \<Rightarrow> bool" where
  "reconversion_typed s ids r \<longleftrightarrow> rc_import_id r \<in> ids \<and> fits 64 (rc_previous r) \<and>
     (\<forall>h. rc_new r = Some h \<longrightarrow> fits 64 h) \<and> json_ok s (rc_settings r) \<and> enum_value rc_statuses (rc_status r)"

definition lock_typed :: "string \<times> int \<Rightarrow> bool" where
  "lock_typed l \<longleftrightarrow> fits 64 (fst l)"

definition alert_typed :: "alert_row \<Rightarrow> bool" where
  "alert_typed a \<longleftrightarrow> enum_value [''info'', ''warning'', ''error''] (al_severity a) \<and>
     fits 32 (al_category a) \<and> fits 32 (al_ref a)"

definition edit_typed :: "int set \<Rightarrow> preview_edit_row \<Rightarrow> bool" where
  "edit_typed ids e \<longleftrightarrow> pe_import_id e \<in> ids \<and> fits 16 (pe_worker e) \<and> fits 64 (pe_previous e) \<and>
     fits 64 (pe_new e) \<and> in_range 4294967295 (pe_width e) \<and> in_range 4294967295 (pe_height e) \<and>
     in_range 255 (pe_quality e)"

definition import_ids :: "db \<Rightarrow> int set" where
  "import_ids d = rec_id ` set (import_rows d)"

text \<open>All tables but \<open>sequences\<close>, and all tables.\<close>

definition tables_typed :: "db \<Rightarrow> bool" where
  "tables_typed d \<longleftrightarrow> (\<forall>r \<in> set (import_rows d). import_typed r) \<and>
     (\<forall>r \<in> set (reconversions d). reconversion_typed (srv d) (import_ids d) r) \<and>
     (\<forall>i l. locks d i = Some l \<longrightarrow> lock_typed l) \<and> (\<forall>a \<in> set (alerts d). alert_typed a) \<and>
     (\<forall>e \<in> set (preview_edits d). edit_typed (import_ids d) e)"

definition schema_ok :: "db \<Rightarrow> bool" where
  "schema_ok d \<longleftrightarrow> tables_typed d \<and> (\<forall>r \<in> set (sequences d). seq_typed r)"

text \<open>
  Documented behaviour of the server: it does not store an import row whose values do not fit
  their columns.
\<close>

definition checks_imports :: "server \<Rightarrow> bool" where
  "checks_imports s \<longleftrightarrow> (\<forall>r. row_ok s r \<longrightarrow> import_typed r)"

section \<open>Names\<close>

lemma length_dec_nat: "n < 10 ^ k \<Longrightarrow> 0 < k \<Longrightarrow> length (dec_nat n) \<le> k"
proof (induction k arbitrary: n)
  case (Suc k)
  show ?case
  proof (cases "n < 10")
    case True
    then show ?thesis by (simp add: dec_nat.simps [of n])
  next
    case False
    with Suc.prems have "n div 10 < 10 ^ k" "0 < k" by (auto simp: less_mult_imp_div_less intro: gr0I)
    with Suc.IH [of "n div 10"] False show ?thesis by (simp add: dec_nat.simps [of n])
  qed
qed simp

text \<open>The ids are \<open>BIGINT UNSIGNED\<close>: at most twenty digits.\<close>

lemma seq_name_fits: "0 \<le> n \<Longrightarrow> n < 2 ^ 64 \<Longrightarrow> seq_typed (n, seq_name n)"
proof -
  assume n: "0 \<le> n" "n < 2 ^ 64"
  then have "nat n < 10 ^ 20" by (simp add: nat_less_iff)
  then have "length (dec_nat (nat n)) \<le> 20" by (rule length_dec_nat) simp
  with n show ?thesis by (simp add: seq_typed_def fits_def seq_name_def dec_int_def)
qed

section \<open>Every operation keeps the types\<close>

lemma tables_typed_frame:
  assumes "same_rest d d'" shows "tables_typed d' = tables_typed d"
  using assms by (simp add: same_rest_def tables_typed_def import_ids_def)

lemma sent_typed [simp]: "tables_typed (d\<lparr>stmt_no := n\<rparr>) = tables_typed d"
  by (simp add: tables_typed_def import_ids_def)

text \<open>Rows that are added or changed in the tables that refer to \<open>imports\<close>, or to nothing.\<close>

lemma tables_typed_rows:
  assumes "tables_typed d" "import_rows d' = import_rows d" "srv d' = srv d"
    and "\<And>r. r \<in> set (reconversions d') \<Longrightarrow> r \<in> set (reconversions d) \<or> reconversion_typed (srv d) (import_ids d) r"
    and "\<And>i l. locks d' i = Some l \<Longrightarrow> locks d i = Some l \<or> lock_typed l"
    and "\<And>a. a \<in> set (alerts d') \<Longrightarrow> a \<in> set (alerts d) \<or> alert_typed a"
    and "\<And>e. e \<in> set (preview_edits d') \<Longrightarrow> e \<in> set (preview_edits d) \<or> edit_typed (import_ids d) e"
  shows "tables_typed d'"
proof -
  have "import_ids d' = import_ids d" using assms(2) by (simp add: import_ids_def)
  then show ?thesis using assms unfolding tables_typed_def by metis
qed

lemma insert_typed:
  assumes "InsertImport r d = (i, d')" "tables_typed d" "checks_imports (srv d)"
  shows "tables_typed d'"
proof (cases "stmt_ok (srv d) (stmt_no d) \<and> row_ok (srv d) r \<and> sequence_id r \<in> fst ` set (sequences d)")
  case True
  then have "import_typed r" using assms(3) by (simp add: checks_imports_def)
  then have "import_typed (r\<lparr>rec_id := imp_next d, rec_date_source := Exif, error_message := [], sequence_name := [],
      created_at := now_txt (srv d) (stmt_no d), completed_at := now_txt (srv d) (stmt_no d)\<rparr>)"
    by (simp add: import_typed_def)
  moreover have "edit_typed (insert x A) e" if "edit_typed A e" for x A e using that by (simp add: edit_typed_def)
  moreover have "reconversion_typed s (insert x A) e" if "reconversion_typed s A e" for s x A e
    using that by (simp add: reconversion_typed_def)
  moreover have "d' = d\<lparr>stmt_no := Suc (stmt_no d), import_rows := import_rows d @
      [r\<lparr>rec_id := imp_next d, rec_date_source := Exif, error_message := [], sequence_name := [],
         created_at := now_txt (srv d) (stmt_no d), completed_at := now_txt (srv d) (stmt_no d)\<rparr>],
      imp_next := imp_next d + 1\<rparr>"
    using True assms(1) by (auto simp: InsertImport_def send_def)
  ultimately show ?thesis using assms(2) by (simp add: tables_typed_def import_ids_def)
next
  case False
  then have "d' = d\<lparr>stmt_no := Suc (stmt_no d)\<rparr>" using assms(1) by (auto simp: InsertImport_def send_def split: if_splits)
  with assms(2) show ?thesis by simp
qed

lemma update_import_typed:
  assumes "update_import i change d = (b, d')" "tables_typed d"
    and "\<And>f r. change = Some f \<Longrightarrow> import_typed r \<Longrightarrow> import_typed (f r) \<and> rec_id (f r) = rec_id r"
  shows "tables_typed d'"
proof -
  have rows: "\<forall>r \<in> set (import_rows d). import_typed r" using assms(2) by (simp add: tables_typed_def)
  consider "d' = d\<lparr>stmt_no := Suc (stmt_no d)\<rparr>"
    | f where "change = Some f" "d' = d\<lparr>stmt_no := Suc (stmt_no d),
        import_rows := map (\<lambda>r. if rec_id r = i then f r else r) (import_rows d)\<rparr>"
    using assms(1) by (auto simp: update_import_def send_def split: if_splits option.splits)
  then show ?thesis
  proof cases
    case 1
    with assms(2) show ?thesis by simp
  next
    case (2 f)
    have "map rec_id (import_rows d') = map rec_id (import_rows d)"
      using assms(3) [OF 2(1)] rows by (simp add: 2(2))
    then have "import_ids d' = import_ids d" unfolding import_ids_def by (metis set_map)
    moreover have "\<forall>r \<in> set (import_rows d'). import_typed r" using assms(3) [OF 2(1)] rows by (auto simp: 2(2))
    moreover have "reconversions d' = reconversions d" "srv d' = srv d" "locks d' = locks d" "alerts d' = alerts d"
      "preview_edits d' = preview_edits d" by (simp_all add: 2(2))
    ultimately show ?thesis using assms(2) unfolding tables_typed_def by simp
  qed
qed

lemma update_typed:
  "UpdateOutputHash i h d = (b, d') \<Longrightarrow> tables_typed d \<Longrightarrow> tables_typed d'"
  "UpdateOrientation i ori d = (b, d') \<Longrightarrow> tables_typed d \<Longrightarrow> tables_typed d'"
  unfolding UpdateOutputHash_def UpdateOrientation_def
  by (erule update_import_typed, assumption, force simp: import_typed_def dest: column_rules)+

lemma record_typed:
  assumes "RecordPreviewEdit i w p n wd ht q d = (b, d')" "tables_typed d"
  shows "tables_typed d'"
  by (rule tables_typed_rows [OF assms(2)])
    (use assms(1) in \<open>auto simp: RecordPreviewEdit_def send_def edit_typed_def import_ids_def Let_def
      split: option.splits if_splits dest!: column_rules\<close>)

lemma insert_reconversion_typed:
  assumes "InsertReconversion i job d = (k, d')" "tables_typed d"
  shows "tables_typed d'"
proof -
  have p: "enum_value rc_statuses ''pending''" by (simp add: enum_value_def rc_statuses_def)
  show ?thesis
    by (rule tables_typed_rows [OF assms(2)])
      (use assms(1) p in \<open>auto simp: InsertReconversion_def send_def reconversion_typed_def import_ids_def Let_def
        split: option.splits if_splits dest!: column_rules\<close>)
qed

lemma update_reconversion_typed:
  assumes "UpdateReconversion k h st d = (b, d')" "tables_typed d"
  shows "tables_typed d'"
proof -
  have old: "\<And>r. r \<in> set (reconversions d) \<Longrightarrow> reconversion_typed (srv d) (import_ids d) r"
    using assms(2) by (simp add: tables_typed_def)
  have new: "r \<in> set (reconversions d) \<or> reconversion_typed (srv d) (import_ids d) r" if "r \<in> set (reconversions d')" for r
    using that assms(1) old
    by (auto simp: UpdateReconversion_def send_def reconversion_typed_def Let_def
        split: option.splits if_splits dest!: column_rules)
  show ?thesis
    by (rule tables_typed_rows [OF assms(2) _ _ new])
      (use assms(1) in \<open>auto simp: UpdateReconversion_def send_def Let_def split: option.splits if_splits\<close>)
qed

lemma lock_ops_typed:
  "AcquireLock i w ttl t1 t2 tok d = (b, d') \<Longrightarrow> tables_typed d \<Longrightarrow> tables_typed d'"
  "ReleaseLock i d = (b, d') \<Longrightarrow> tables_typed d \<Longrightarrow> tables_typed d'"
proof -
  assume t: "tables_typed d"
  show "tables_typed d'" if "ReleaseLock i d = (b, d')"
    by (rule tables_typed_rows [OF t]) (use that in \<open>auto simp: ReleaseLock_def send_def split: if_splits\<close>)
  show "tables_typed d'" if "AcquireLock i w ttl t1 t2 tok d = (b, d')"
    by (rule tables_typed_rows [OF t])
      (use that in \<open>auto simp: AcquireLock_def select_lock_def upsert_lock_def send_def lock_typed_def Let_def
        split: option.splits if_splits dest!: column_rules\<close>)
qed

lemma alert_op_typed:
  assumes "InsertAlert sv c m f d = (b, d')" "tables_typed d"
  shows "tables_typed d'"
  by (rule tables_typed_rows [OF assms(2)])
    (use assms(1) in \<open>auto simp: InsertAlert_def send_def alert_typed_def Let_def
      split: option.splits if_splits dest!: column_rules\<close>)

lemma other_ops_typed:
  "GetStats d = (st, d') \<Longrightarrow> tables_typed d \<Longrightarrow> tables_typed d'" "tables_typed d \<Longrightarrow> tables_typed (Close d)"
  by (auto simp: GetStats_def count_query_def send_def Close_def tables_typed_def import_ids_def)

lemma store_step_typed:
  assumes "store_step d op d'" "db_wf d" "tables_typed d" "checks_imports (srv d)"
  shows "tables_typed d'"
  using assms(1)
proof cases
  case (s_alloc tok r)
  with AllocateSequence_rest [of d tok] have "same_rest d d'" by simp
  with assms(3) show ?thesis using tables_typed_frame by simp
next
  case (s_insert rec i)
  from s_insert(2) assms(3,4) show ?thesis by (rule insert_typed)
next
  case (s_hash i h b)
  from s_hash(2) assms(3) show ?thesis by (rule update_typed)
next
  case (s_orient i ori b)
  from s_orient(2) assms(3) show ?thesis by (rule update_typed)
next
  case (s_preview i w p n wd ht q b)
  from s_preview(2) assms(3) show ?thesis by (rule record_typed)
next
  case (s_reconv i job r)
  from s_reconv(2) assms(3) show ?thesis by (rule insert_reconversion_typed)
next
  case (s_reconv_upd r h st b)
  from s_reconv_upd(2) assms(3) show ?thesis by (rule update_reconversion_typed)
next
  case (s_acquire i w ttl t1 t2 tok b)
  from s_acquire(2) assms(3) show ?thesis by (rule lock_ops_typed)
next
  case (s_release i b)
  from s_release(2) assms(3) show ?thesis by (rule lock_ops_typed)
next
  case (s_alert sv c m f b)
  from s_alert(2) assms(3) show ?thesis by (rule alert_op_typed)
next
  case (s_stats st)
  from s_stats(2) assms(3) show ?thesis by (rule other_ops_typed)
next
  case s_close
  with assms(3) show ?thesis by (simp add: other_ops_typed)
qed

lemma AllocateSequence_typed:
  assumes "AllocateSequence tok d = ((n, name), d')" "db_wf d" "\<forall>r \<in> set (sequences d). seq_typed r"
    and "seq_next d' \<le> 2 ^ 64"
  shows "\<forall>r \<in> set (sequences d'). seq_typed r"
proof -
  have one: "1 \<le> seq_next d" using assms(2) by (simp add: db_wf_def seqs_wf_def)
  obtain Q where q: "sequences (clean_rows (srv d) d) = filter Q (sequences d)"
    using clean_rows_seqs [of "srv d" d] by blast
  from assms(1) one show ?thesis
  proof (cases rule: AllocateSequence_cases)
    case failure
    with q assms(3) show ?thesis by auto
  next
    case success
    then have "seq_typed (n, name)" using seq_name_fits [of n] one assms(4) by simp
    with success q assms(3) show ?thesis by (auto simp: seq_typed_def)
  qed
qed

lemma store_step_names:
  assumes "store_step d op d'" "db_wf d" "\<forall>r \<in> set (sequences d). seq_typed r" "seq_next d' \<le> 2 ^ 64"
  shows "\<forall>r \<in> set (sequences d'). seq_typed r"
proof -
  from side_op_same_tables [OF assms(1)]
  consider tok where "op = Op_Allocate tok" | r where "op = Op_Insert r" | i h where "op = Op_Set_Output_Hash i h"
    | i ori where "op = Op_Set_Orientation i ori" | "same_tables d d'" by blast
  then show ?thesis
  proof cases
    case (1 tok)
    then obtain n name where "AllocateSequence tok d = ((n, name), d')"
      using assms(1) by (auto simp: store_step_simps)
    from AllocateSequence_typed [OF this assms(2,3,4)] show ?thesis .
  next
    case (2 r)
    then obtain i where "InsertImport r d = (i, d')" using assms(1) by (auto simp: store_step_simps)
    then have "sequences d' = sequences d" by (auto simp: InsertImport_def send_def split: if_splits)
    with assms(3) show ?thesis by simp
  next
    case (3 i h)
    from assms(1) [unfolded 3] obtain b where "UpdateOutputHash i h d = (b, d')" by cases auto
    from update_rows_identity(1) [OF this] assms(3) show ?thesis by simp
  next
    case (4 i ori)
    from assms(1) [unfolded 4] obtain b where "UpdateOrientation i ori d = (b, d')" by cases auto
    from update_rows_identity(2) [OF this] assms(3) show ?thesis by simp
  next
    case 5
    with assms(3) show ?thesis by (simp add: same_tables_def)
  qed
qed


definition typed_server :: server where
  "typed_server = good_server\<lparr>strict := False, row_ok := import_typed\<rparr>"

lemma typed_server_checks: "checks_imports typed_server"
  by (simp add: checks_imports_def typed_server_def)

text \<open>Three operations with values that do not fit: a long alert category, an unknown severity, a long token.\<close>

definition misfit_db :: "nat \<Rightarrow> db" where
  "misfit_db k = (let d1 = snd (InsertAlert ''fatal'' ''worker'' ''m'' [] (empty_db typed_server))
     in if k = 1 then d1 else snd (AllocateSequence (replicate 64 (CHR ''a'')) d1))"


end
