(* ===== verification/Alloc_Statements.thy ===== *)
theory Alloc_Statements
  imports Service
begin

text \<open>
  \<open>Store::AllocateSequence\<close> (\<open>src/src/db.cpp\<close>) statement by statement, on any number of
  connections at once: each worker thread has its own connection, so the statements of several
  allocations interleave with each other and with the inserts and updates of the other clients.
  What a connection inserted in its open transaction is its own until it commits or rolls back.
  A call that runs alone is one way to interleave; the numbers stay unique in all of them.
\<close>

section \<open>The statements of all connections\<close>

text \<open>
  \<open>al_open\<close>: the row a connection has inserted in its open transaction, and whether it has been
  renamed. \<open>al_granted\<close>: the numbers handed out and not yet used by an insert.
\<close>

record alloc_sys =
  al_db :: db
  al_open :: "nat \<rightharpoonup> int \<times> bool"
  al_granted :: "(int \<times> string) set"

definition stale_filter :: "server \<Rightarrow> (string \<Rightarrow> bool) \<Rightarrow> bool" where
  "stale_filter sv P \<longleftrightarrow> P = (\<lambda>n. txt_eq sv n []) \<or> P = like_tmp sv"

definition own_rows_safe :: "alloc_sys \<Rightarrow> (string \<Rightarrow> bool) \<Rightarrow> bool" where
  "own_rows_safe s P \<longleftrightarrow> (\<forall>c i b n. al_open s c = Some (i, b) \<longrightarrow> (i, n) \<in> set (sequences (al_db s)) \<longrightarrow> \<not> P n)"

definition remove_row :: "int \<Rightarrow> db \<Rightarrow> db" where
  "remove_row i d = (snd (send d))\<lparr>sequences := [(j, n) \<leftarrow> sequences d. j \<noteq> i]\<rparr>"

text \<open>
  A \<open>DELETE\<close> that matches a row of an open transaction waits for its lock, so it is executed when
  no such row matches, or it times out, which is a statement that is only sent; so are
  \<open>START TRANSACTION\<close>, the reads and every refused statement. A \<open>COMMIT\<close> can be executed without
  the client learning of it (\<open>q_commit_lost\<close>). \<open>ROLLBACK\<close>, or the loss of the connection, removes
  the connection's own row.
\<close>

inductive stmt_step :: "alloc_sys \<Rightarrow> alloc_sys \<Rightarrow> bool" where
  q_clean: "stale_filter (srv (al_db s)) P \<Longrightarrow> own_rows_safe s P \<Longrightarrow>
     delete_sequences P (al_db s) = (ok, d) \<Longrightarrow> stmt_step s (s\<lparr>al_db := d\<rparr>)"
| q_sent: "only_sent (al_db s) d \<Longrightarrow> stmt_step s (s\<lparr>al_db := d\<rparr>)"
| q_insert: "al_open s c = None \<Longrightarrow> insert_sequence (''TMP_'' @ tok) (al_db s) = (True, d) \<Longrightarrow>
     stmt_step s (s\<lparr>al_db := d, al_open := (al_open s)(c \<mapsto> (seq_next (al_db s), False))\<rparr>)"
| q_insert_refused: "insert_sequence (''TMP_'' @ tok) (al_db s) = (False, d) \<Longrightarrow> stmt_step s (s\<lparr>al_db := d\<rparr>)"
| q_rename: "al_open s c = Some (i, False) \<Longrightarrow> rename_sequence (''IMG_'' @ dec_int i) i (al_db s) = (True, d) \<Longrightarrow>
     stmt_step s (s\<lparr>al_db := d, al_open := (al_open s)(c \<mapsto> (i, True))\<rparr>)"
| q_commit: "al_open s c = Some (i, True) \<Longrightarrow> send (al_db s) = (True, d) \<Longrightarrow>
     stmt_step s (s\<lparr>al_db := d, al_open := (al_open s)(c := None),
       al_granted := insert (i, ''IMG_'' @ dec_int i) (al_granted s)\<rparr>)"
| q_commit_lost: "al_open s c = Some (i, True) \<Longrightarrow> only_sent (al_db s) d \<Longrightarrow>
     stmt_step s (s\<lparr>al_db := d, al_open := (al_open s)(c := None)\<rparr>)"
| q_rollback: "al_open s c = Some (i, b) \<Longrightarrow>
     stmt_step s (s\<lparr>al_db := remove_row i (al_db s), al_open := (al_open s)(c := None)\<rparr>)"
| q_import: "sq \<in> al_granted s \<Longrightarrow>
     InsertImport (import_of cfg p h sq (out_path_of cfg fld (snd sq)) oh ex fld) (al_db s) = (i, d) \<Longrightarrow>
     stmt_step s (s\<lparr>al_db := d, al_granted := al_granted s - {sq}\<rparr>)"
| q_other: "store_step (al_db s) op d \<Longrightarrow> \<forall>tok. op \<noteq> Op_Allocate tok \<Longrightarrow> \<forall>r. op \<noteq> Op_Insert r \<Longrightarrow>
     stmt_step s (s\<lparr>al_db := d\<rparr>)"

inductive stmt_reach :: "alloc_sys \<Rightarrow> alloc_sys \<Rightarrow> bool" where
  q_start: "stmt_reach s s"
| q_next: "stmt_reach s0 s \<Longrightarrow> stmt_step s s' \<Longrightarrow> stmt_reach s0 s'"

text \<open>No transaction open: what a freshly started service is in.\<close>

definition at_rest :: "db \<Rightarrow> (int \<times> string) set \<Rightarrow> alloc_sys" where
  "at_rest d G = \<lparr>al_db = d, al_open = Map.empty, al_granted = G\<rparr>"

lemma stmt_reach_trans: "stmt_reach b c \<Longrightarrow> stmt_reach a b \<Longrightarrow> stmt_reach a c"
  by (induction rule: stmt_reach.induct) (auto intro: q_next)

section \<open>The invariant\<close>

definition seq_refs :: "db \<Rightarrow> int set" where
  "seq_refs d = sequence_id ` set (import_rows d)"

definition open_ok :: "int \<Rightarrow> db \<Rightarrow> (int \<times> string) set \<Rightarrow> int \<Rightarrow> bool" where
  "open_ok m d G i \<longleftrightarrow> m < i \<and> i < seq_next d \<and> i \<notin> fst ` G \<and> i \<notin> seq_refs d"

definition opens_ok :: "int \<Rightarrow> db \<Rightarrow> (int \<times> string) set \<Rightarrow> (nat \<rightharpoonup> int \<times> bool) \<Rightarrow> bool" where
  "opens_ok m d G opn \<longleftrightarrow> (\<forall>c x. opn c = Some x \<longrightarrow> open_ok m d G (fst x)) \<and>
     (\<forall>c c' x y. opn c = Some x \<longrightarrow> opn c' = Some y \<longrightarrow> fst x = fst y \<longrightarrow> c = c')"

definition sys_ok :: "int \<Rightarrow> int \<Rightarrow> alloc_sys \<Rightarrow> bool" where
  "sys_ok m i0 s \<longleftrightarrow> server_ok (srv (al_db s)) \<and> traffic_ok m i0 (al_db s, al_granted s) \<and>
     opens_ok m (al_db s) (al_granted s) (al_open s)"

lemma opens_okD:
  "opens_ok m d G opn \<Longrightarrow> opn c = Some x \<Longrightarrow> open_ok m d G (fst x)"
  "opens_ok m d G opn \<Longrightarrow> opn c = Some x \<Longrightarrow> opn c' = Some y \<Longrightarrow> fst x = fst y \<Longrightarrow> c = c'"
  unfolding opens_ok_def by blast+

text \<open>Open rows that are still open, on tables that have not gone back.\<close>

lemma opens_ok_sub:
  assumes "opens_ok m d G opn" "\<And>c x. opn' c = Some x \<Longrightarrow> \<exists>y. opn c = Some y \<and> fst y = fst x"
    and "\<And>i. open_ok m d G i \<Longrightarrow> open_ok m d' G' i"
  shows "opens_ok m d' G' opn'"
  unfolding opens_ok_def
proof (intro conjI allI impI)
  fix c x assume "opn' c = Some x"
  with assms(2) obtain y where "opn c = Some y" "fst y = fst x" by blast
  with opens_okD(1) [OF assms(1)] assms(3) show "open_ok m d' G' (fst x)" by metis
next
  fix c c' x y assume "opn' c = Some x" "opn' c' = Some y" "fst x = fst y"
  with assms(2) [of c x] assms(2) [of c' y] opens_okD(2) [OF assms(1)] show "c = c'" by metis
qed

lemma open_ok_mono:
  "open_ok m d G i \<Longrightarrow> seq_refs d' = seq_refs d \<Longrightarrow> seq_next d \<le> seq_next d' \<Longrightarrow> open_ok m d' G i"
  by (simp add: open_ok_def)

lemma done_nums_refs: "done_nums d \<subseteq> seq_refs d"
  by (auto simp: done_nums_def done_rows_def seq_refs_def)

lemma traffic_ok_up:
  assumes "traffic_ok m i0 (d, G)" "db_wf d'" "done_rows d' = done_rows d" "seq_next d \<le> seq_next d'"
    "imp_next d' = imp_next d"
  shows "traffic_ok m i0 (d', G)"
proof -
  have "done_nums d' = done_nums d" using assms(3) by (simp add: done_nums_def)
  moreover note done_ok_mono [OF _ assms(4)] grant_ok_mono [OF _ assms(4)]
  ultimately show ?thesis using assms by (simp add: traffic_ok_def)
qed

text \<open>A step that keeps the rows of \<open>imports\<close>, the grants and the open rows, or closes one of them.\<close>

lemma sys_ok_frame:
  assumes "sys_ok m i0 s" "db_wf d" "import_rows d = import_rows (al_db s)" "imp_next d = imp_next (al_db s)"
    and "seq_next (al_db s) \<le> seq_next d" "srv d = srv (al_db s)"
    and "\<And>c x. opn c = Some x \<Longrightarrow> \<exists>y. al_open s c = Some y \<and> fst y = fst x"
  shows "sys_ok m i0 (s\<lparr>al_db := d, al_open := opn\<rparr>)"
proof -
  have eq: "done_rows d = done_rows (al_db s)" "seq_refs d = seq_refs (al_db s)"
    using assms(3) by (simp_all add: done_rows_def seq_refs_def)
  have s: "traffic_ok m i0 (al_db s, al_granted s)" "opens_ok m (al_db s) (al_granted s) (al_open s)"
    using assms(1) by (simp_all add: sys_ok_def)
  have "opens_ok m d (al_granted s) opn"
    by (rule opens_ok_sub [OF s(2) assms(7) open_ok_mono [OF _ eq(2) assms(5)]])
  with traffic_ok_up [OF s(1) assms(2) eq(1) assms(5,4)] assms(1,6) show ?thesis by (simp add: sys_ok_def)
qed

lemma sys_ok_db:
  assumes "sys_ok m i0 s" "db_wf d" "import_rows d = import_rows (al_db s)" "imp_next d = imp_next (al_db s)"
    and "seq_next (al_db s) \<le> seq_next d" "srv d = srv (al_db s)"
  shows "sys_ok m i0 (s\<lparr>al_db := d\<rparr>)"
proof -
  have "sys_ok m i0 (s\<lparr>al_db := d, al_open := al_open s\<rparr>)"
    by (rule sys_ok_frame [OF assms]) simp
  then show ?thesis by simp
qed

lemma sys_ok_wf: "sys_ok m i0 s \<Longrightarrow> db_wf (al_db s)"
  by (simp add: sys_ok_def traffic_ok_def)

lemma delete_wf:
  assumes "db_wf d" "delete_sequences P d = (ok, d')"
  shows "db_wf d' \<and> import_rows d' = import_rows d \<and> imp_next d' = imp_next d \<and> seq_next d' = seq_next d \<and> srv d' = srv d"
proof -
  have d': "d' = snd (delete_sequences P d)" using assms(2) by simp
  have same: "same_rest d d'" unfolding d' by (rule same_rest_steps)
  have nxt: "seq_next d' = seq_next d" by (auto simp: d' delete_sequences_def send_def)
  obtain Q where q: "sequences d' = filter Q (sequences d)"
    "\<forall>(i, n) \<in> set (sequences d). (\<exists>r \<in> set (import_rows d). sequence_id r = i) \<longrightarrow> Q (i, n)"
    using delete_sequences_rows [of P d] unfolding d' by blast
  have "imports_wf (import_rows d) (imp_next d) (fst ` set (filter Q (sequences d)))"
    using assms(1) q(2) by (fastforce simp: db_wf_def imports_wf_def)
  moreover have "seqs_wf (srv d) (filter Q (sequences d)) (seq_next d)"
    using assms(1) by (intro seqs_wf_filter) (simp add: db_wf_def)
  ultimately show ?thesis using same nxt q(1) by (simp add: db_wf_def same_rest_def)
qed

text \<open>The placeholder's name is one of those the clean-up statements look for.\<close>

lemma placeholder_stale:
  assumes "server_ok s" "varchar s 32 (''TMP_'' @ tok) = Some nm"
  shows "stale_name s nm"
proof -
  have "nm = take 32 (''TMP_'' @ tok)" using assms(2) by (auto simp: varchar_def split: if_splits)
  then have "take 3 nm = ''TMP''" "4 \<le> length nm" by simp_all
  then show ?thesis using assms(1) by (simp add: stale_name_def like_tmp_def server_ok_def)
qed

lemma insert_wf:
  assumes "db_wf d" "server_ok (srv d)" "insert_sequence (''TMP_'' @ tok) d = (ok, d')"
  shows "db_wf d' \<and> import_rows d' = import_rows d \<and> imp_next d' = imp_next d \<and> srv d' = srv d \<and>
    (ok \<longrightarrow> seq_next d' = seq_next d + 1) \<and> seq_next d \<le> seq_next d'"
proof -
  have sw: "seqs_wf (srv d) (sequences d) (seq_next d)" using assms(1) by (simp add: db_wf_def)
  have same: "same_rest d d'" using same_rest_steps(2) [of d "''TMP_'' @ tok"] assms(3) by simp
  have "ok \<and> seq_next d' = seq_next d + 1 \<and> (\<exists>nm. varchar (srv d) 32 (''TMP_'' @ tok) = Some nm \<and>
        sequences d' = sequences d @ [(seq_next d, nm)]) \<or>
      \<not> ok \<and> sequences d' = sequences d \<and> (seq_next d' = seq_next d \<or> seq_next d' = seq_next d + 1)"
  proof -
    have "ok = fst (insert_sequence (''TMP_'' @ tok) d)" "d' = snd (insert_sequence (''TMP_'' @ tok) d)"
      using assms(3) by simp_all
    then show ?thesis by (simp add: insert_sequence_def send_def split: option.split)
  qed
  then consider nm where "ok" "varchar (srv d) 32 (''TMP_'' @ tok) = Some nm"
        "sequences d' = sequences d @ [(seq_next d, nm)]" "seq_next d' = seq_next d + 1"
    | "\<not> ok" "sequences d' = sequences d" "seq_next d' = seq_next d \<or> seq_next d' = seq_next d + 1"
    by blast
  then show ?thesis
  proof cases
    case (1 nm)
    have "seqs_wf (srv d) (sequences d @ [(seq_next d, nm)]) (seq_next d + 1)"
      using sw placeholder_stale [OF assms(2) 1(2)] by (fastforce simp: seqs_wf_def)
    moreover have "imports_wf (import_rows d) (imp_next d) (fst ` set (sequences d'))"
      using assms(1) 1(3) by (auto simp: db_wf_def imports_wf_def)
    ultimately show ?thesis using 1 same by (simp add: db_wf_def same_rest_def)
  next
    case 2
    then have "seqs_wf (srv d) (sequences d) (seq_next d')" using sw seqs_wf_next [OF sw] by auto
    then show ?thesis using 2 same assms(1) by (auto simp: db_wf_def same_rest_def)
  qed
qed

lemma rename_rows:
  assumes "rename_sequence nm i d = (ok, d')"
  shows "seq_next d' = seq_next d \<and> (sequences d' = sequences d \<or>
    sequences d' = map (\<lambda>(j, n). if j = i then (j, nm) else (j, n)) (sequences d))"
proof -
  have "d' = snd (rename_sequence nm i d)" using assms by simp
  then show ?thesis by (simp add: rename_sequence_def send_def)
qed

lemma rename_wf:
  assumes "db_wf d" "rename_sequence (''IMG_'' @ dec_int i) i d = (ok, d')"
  shows "db_wf d' \<and> import_rows d' = import_rows d \<and> imp_next d' = imp_next d \<and> seq_next d' = seq_next d \<and> srv d' = srv d"
proof -
  let ?f = "\<lambda>(j, n). if j = i then (j, ''IMG_'' @ dec_int i) else (j, n)"
  have same: "same_rest d d'" using same_rest_steps(3) [of d "''IMG_'' @ dec_int i" i] assms(2) by simp
  note rows = rename_rows [OF assms(2)]
  have "fst (?f x) = fst x" for x by (cases x) simp
  then have ids: "map fst (map ?f (sequences d)) = map fst (sequences d)" by (simp add: comp_def)
  have sw: "seqs_wf (srv d) (sequences d) (seq_next d)" using assms(1) by (simp add: db_wf_def)
  have "\<forall>(j, n) \<in> set (map ?f (sequences d)). 1 \<le> j \<and> j < seq_next d \<and> (n = seq_name j \<or> stale_name (srv d) n)"
    using sw by (auto simp: seqs_wf_def seq_name_def split: if_splits)
  moreover have "distinct (map fst (map ?f (sequences d)))" using sw unfolding ids seqs_wf_def by simp
  moreover have "1 \<le> seq_next d" using sw by (simp add: seqs_wf_def)
  ultimately have "seqs_wf (srv d) (map ?f (sequences d)) (seq_next d)" unfolding seqs_wf_def by blast
  moreover have "fst ` set (map ?f (sequences d)) = fst ` set (sequences d)"
    using arg_cong [OF ids, of set] by (simp only: set_map)
  ultimately have "seqs_wf (srv d) xs (seq_next d) \<and> fst ` set xs = fst ` set (sequences d)"
    if "xs = sequences d \<or> xs = map ?f (sequences d)" for xs using that sw by blast
  from this [of "sequences d'"] have "seqs_wf (srv d) (sequences d') (seq_next d)"
    "fst ` set (sequences d') = fst ` set (sequences d)" using rows by blast+
  then show ?thesis using same rows assms(1) by (simp add: db_wf_def same_rest_def)
qed

lemma remove_wf:
  assumes "db_wf d" "i \<notin> seq_refs d"
  shows "db_wf (remove_row i d)"
proof -
  have "imports_wf (import_rows d) (imp_next d) (fst ` set [(j, n) \<leftarrow> sequences d. j \<noteq> i])"
    using assms by (fastforce simp: db_wf_def imports_wf_def seq_refs_def)
  moreover have "seqs_wf (srv d) [(j, n) \<leftarrow> sequences d. j \<noteq> i] (seq_next d)"
    using assms(1) by (intro seqs_wf_filter) (simp add: db_wf_def)
  ultimately show ?thesis by (simp add: db_wf_def remove_row_def send_def)
qed

lemma only_sent_wf: "only_sent d d' \<Longrightarrow> db_wf d \<Longrightarrow> db_wf d'"
  by (auto simp: only_sent_def db_wf_def)

lemma sys_ok_insert:
  assumes "sys_ok m i0 s" "al_open s c = None" "insert_sequence (''TMP_'' @ tok) (al_db s) = (True, d)"
  shows "sys_ok m i0 (s\<lparr>al_db := d, al_open := (al_open s)(c \<mapsto> (seq_next (al_db s), False))\<rparr>)"
proof -
  let ?i = "seq_next (al_db s)"
  have srv: "server_ok (srv (al_db s))" using assms(1) by (simp add: sys_ok_def)
  note ins = insert_wf [OF sys_ok_wf [OF assms(1)] srv assms(3)]
  have ok: "sys_ok m i0 (s\<lparr>al_db := d\<rparr>)" using sys_ok_db [OF assms(1)] ins by simp
  have "?i \<notin> fst ` al_granted s" using assms(1) by (force simp: sys_ok_def traffic_ok_def grant_ok_def)
  moreover have "?i \<notin> seq_refs (al_db s)"
    using sys_ok_wf [OF assms(1)] by (fastforce simp: db_wf_def imports_wf_def seqs_wf_def seq_refs_def)
  moreover have "m < ?i" using assms(1) by (simp add: sys_ok_def traffic_ok_def)
  ultimately have new: "open_ok m d (al_granted s) ?i" using ins by (simp add: open_ok_def seq_refs_def)
  have old: "opens_ok m d (al_granted s) (al_open s)" using ok by (simp add: sys_ok_def)
  have "fst x \<noteq> ?i" if "al_open s c' = Some x" for c' x
    using that opens_okD(1) [of m "al_db s" "al_granted s" "al_open s" c' x] assms(1)
    by (auto simp: sys_ok_def open_ok_def)
  with old new have "opens_ok m d (al_granted s) ((al_open s)(c \<mapsto> (?i, False)))"
    unfolding opens_ok_def fun_upd_apply by (metis fst_conv option.inject)
  with ok show ?thesis by (simp add: sys_ok_def)
qed

lemma sys_ok_commit:
  assumes "sys_ok m i0 s" "al_open s c = Some (i, b)" "only_sent (al_db s) d"
  shows "sys_ok m i0 (s\<lparr>al_db := d, al_open := (al_open s)(c := None),
    al_granted := insert (i, ''IMG_'' @ dec_int i) (al_granted s)\<rparr>)"
proof -
  have d: "import_rows d = import_rows (al_db s)" "imp_next d = imp_next (al_db s)" "seq_next d = seq_next (al_db s)"
    "srv d = srv (al_db s)" using assms(3) by (auto simp: only_sent_def)
  have o: "opens_ok m (al_db s) (al_granted s) (al_open s)" using assms(1) by (simp add: sys_ok_def)
  have ok: "sys_ok m i0 (s\<lparr>al_db := d, al_open := (al_open s)(c := None)\<rparr>)"
    by (rule sys_ok_frame [OF assms(1) only_sent_wf [OF assms(3) sys_ok_wf [OF assms(1)]]])
      (use d in \<open>auto split: if_splits\<close>)
  then have rest: "opens_ok m d (al_granted s) ((al_open s)(c := None))" "traffic_ok m i0 (d, al_granted s)"
    by (simp_all add: sys_ok_def)
  have i: "open_ok m (al_db s) (al_granted s) i" using opens_okD(1) [OF o assms(2)] by simp
  have "seq_refs d = seq_refs (al_db s)" using d by (simp add: seq_refs_def)
  then have new: "grant_ok m (seq_next d) (done_nums d) (i, ''IMG_'' @ dec_int i)"
    using i d(3) done_nums_refs [of d] by (auto simp: grant_ok_def open_ok_def seq_name_def)
  have other: "fst x \<noteq> i" if "((al_open s)(c := None)) c' = Some x" for c' x
    using that opens_okD(2) [OF o _ assms(2), of c' x] by (auto split: if_splits)
  let ?G = "insert (i, ''IMG_'' @ dec_int i) (al_granted s)"
  have "opens_ok m d ?G ((al_open s)(c := None))"
    using rest(1) other unfolding opens_ok_def open_ok_def by (simp del: fun_upd_apply)
  moreover have "traffic_ok m i0 (d, ?G)" using rest(2) new by (simp add: traffic_ok_def)
  ultimately show ?thesis using ok by (simp add: sys_ok_def)
qed

lemma sys_ok_import:
  assumes "sys_ok m i0 s" "sq \<in> al_granted s"
    "InsertImport (import_of cfg p h sq (out_path_of cfg fld (snd sq)) oh ex fld) (al_db s) = (i, d)"
  shows "sys_ok m i0 (s\<lparr>al_db := d, al_granted := al_granted s - {sq}\<rparr>)"
proof -
  have t: "traffic_ok m i0 (d, al_granted s - {sq})"
    using traffic_ok_insert [OF _ assms(2,3)] assms(1) by (simp add: sys_ok_def)
  have "seq_refs d \<subseteq> insert (fst sq) (seq_refs (al_db s))" "srv d = srv (al_db s)" "seq_next d = seq_next (al_db s)"
    using assms(3) by (auto simp: InsertImport_def send_def seq_refs_def import_of_def split: if_splits)
  moreover have "fst sq \<in> fst ` al_granted s" using assms(2) by simp
  ultimately have keep: "open_ok m d (al_granted s - {sq}) j" if "open_ok m (al_db s) (al_granted s) j" for j
    using that by (auto simp: open_ok_def)
  have "opens_ok m (al_db s) (al_granted s) (al_open s)" using assms(1) by (simp add: sys_ok_def)
  then have "opens_ok m d (al_granted s - {sq}) (al_open s)" by (rule opens_ok_sub [OF _ _ keep]) auto
  with t assms(1) \<open>srv d = _\<close> show ?thesis by (simp add: sys_ok_def)
qed

lemma sys_ok_other:
  assumes "sys_ok m i0 s" "store_step (al_db s) op d" "\<forall>tok. op \<noteq> Op_Allocate tok" "\<forall>r. op \<noteq> Op_Insert r"
  shows "sys_ok m i0 (s\<lparr>al_db := d\<rparr>)"
proof -
  have t: "traffic_ok m i0 (d, al_granted s)"
    using import_step_ok [OF t_other [OF assms(2,3,4)]] assms(1) by (simp add: sys_ok_def)
  have refs: "seq_refs x = seq_refs y" if "map identity (import_rows x) = map identity (import_rows y)" for x y
  proof -
    have "map sequence_id (import_rows z) = map (fst \<circ> snd) (map identity (import_rows z))" for z
      by (simp add: identity_def comp_def)
    then have "map sequence_id (import_rows x) = map sequence_id (import_rows y)" using that by metis
    then show ?thesis unfolding seq_refs_def by (metis set_map)
  qed
  from side_op_same_tables [OF assms(2)] assms(3,4)
  consider k h where "op = Op_Set_Output_Hash k h" | k ori where "op = Op_Set_Orientation k ori"
    | "same_tables (al_db s) d" by blast
  then have "seq_refs d = seq_refs (al_db s) \<and> seq_next d = seq_next (al_db s)"
  proof cases
    case (1 k h)
    with assms(2) obtain b where "UpdateOutputHash k h (al_db s) = (b, d)" by (auto elim: hash_stepE)
    from update_rows_identity(1) [OF this] refs show ?thesis by blast
  next
    case (2 k ori)
    with assms(2) obtain b where "UpdateOrientation k ori (al_db s) = (b, d)" by (auto elim: orient_stepE)
    from update_rows_identity(2) [OF this] refs show ?thesis by blast
  next
    case 3
    then show ?thesis by (simp add: same_tables_def seq_refs_def)
  qed
  then have "open_ok m d G j = open_ok m (al_db s) G j" for G j by (simp add: open_ok_def)
  with t assms(1) store_step_srv [OF assms(2)] show ?thesis by (simp add: sys_ok_def opens_ok_def)
qed

lemma stmt_step_ok:
  assumes "stmt_step s s'" "sys_ok m i0 s"
  shows "sys_ok m i0 s'"
  using assms(1)
proof cases
  case (q_clean P ok d)
  with sys_ok_db [OF assms(2)] delete_wf [OF sys_ok_wf [OF assms(2)] q_clean(4)] show ?thesis by simp
next
  case (q_sent d)
  with sys_ok_db [OF assms(2) only_sent_wf [OF q_sent(2) sys_ok_wf [OF assms(2)]]]
  show ?thesis by (auto simp: only_sent_def)
next
  case (q_insert c tok d)
  with sys_ok_insert [OF assms(2)] show ?thesis by simp
next
  case (q_insert_refused tok d)
  have "server_ok (srv (al_db s))" using assms(2) by (simp add: sys_ok_def)
  from insert_wf [OF sys_ok_wf [OF assms(2)] this q_insert_refused(2)] sys_ok_db [OF assms(2)] q_insert_refused(1)
  show ?thesis by simp
next
  case (q_rename c i d)
  show ?thesis unfolding q_rename(1)
    by (rule sys_ok_frame [OF assms(2)])
      (use rename_wf [OF sys_ok_wf [OF assms(2)] q_rename(3)] q_rename(2) in \<open>auto split: if_splits\<close>)
next
  case (q_commit c i d)
  have "only_sent (al_db s) d" using q_commit(3) by (auto simp: only_sent_def send_def)
  from sys_ok_commit [OF assms(2) q_commit(2) this] q_commit(1) show ?thesis by simp
next
  case (q_commit_lost c i d)
  show ?thesis unfolding q_commit_lost(1)
    by (rule sys_ok_frame [OF assms(2) only_sent_wf [OF q_commit_lost(3) sys_ok_wf [OF assms(2)]]])
      (use q_commit_lost(3) in \<open>auto simp: only_sent_def split: if_splits\<close>)
next
  case (q_rollback c i b)
  then have "i \<notin> seq_refs (al_db s)" using assms(2) opens_okD(1) by (fastforce simp: sys_ok_def open_ok_def)
  from remove_wf [OF sys_ok_wf [OF assms(2)] this] show ?thesis unfolding q_rollback(1)
    by (intro sys_ok_frame [OF assms(2)]) (auto simp: remove_row_def send_def split: if_splits)
next
  case (q_import sq cfg p h fld oh ex i d)
  with sys_ok_import [OF assms(2)] show ?thesis by simp
next
  case (q_other op d)
  with sys_ok_other [OF assms(2)] show ?thesis by simp
qed

lemma stmt_reach_ok: "stmt_reach s0 s \<Longrightarrow> sys_ok m i0 s0 \<Longrightarrow> sys_ok m i0 s"
  by (induction rule: stmt_reach.induct) (auto intro: stmt_step_ok)

text \<open>
  C1: Conversions never share an output file even when the statements of several allocations
  interleave: whatever the connections do between the statements of each other's transactions, and
  whichever of them are refused, rolled back or lost, two different completed imports never have
  the same output path.
\<close>

theorem outputs_never_collide_interleaved:
  assumes "server_ok (srv d0)" "traffic_ok 0 0 (d0, {})" "stmt_reach (at_rest d0 {}) s"
    and "r \<in> set (import_rows (al_db s))" "q \<in> set (import_rows (al_db s))"
    and "status r = Completed" "status q = Completed" "r \<noteq> q"
  shows "output_path r \<noteq> output_path q"
proof -
  have "sys_ok 0 0 (at_rest d0 {})" using assms(1,2) by (simp add: sys_ok_def opens_ok_def at_rest_def)
  from stmt_reach_ok [OF assms(3) this] have "traffic_ok 0 0 (al_db s, al_granted s)" by (simp add: sys_ok_def)
  from completed_paths_differ [OF this assms(4-8)] show ?thesis .
qed

section \<open>A call that runs alone\<close>

lemma stmt_reach_one: "stmt_step s s' \<Longrightarrow> stmt_reach s s'"
  by (rule q_next [OF q_start])

lemma rest_clean:
  assumes "stale_filter (srv d) P"
  shows "stmt_reach (at_rest d G) (at_rest (snd (delete_sequences P d)) G)"
  using stmt_reach_one [OF q_clean [of "at_rest d G" P, OF _ _ prod.collapse [symmetric]]] assms
  by (simp add: at_rest_def own_rows_safe_def)

lemma rest_sent: "only_sent d d' \<Longrightarrow> stmt_reach (at_rest d G) (at_rest d' G)"
  using stmt_reach_one [OF q_sent [of "at_rest d G" d']] by (simp add: at_rest_def)

lemma rest_clean_rows:
  "stmt_reach (at_rest d G) (at_rest (clean_rows (srv d) d) G)"
proof -
  let ?P = "\<lambda>n. txt_eq (srv d) n []"
  have "srv (snd (delete_sequences ?P d)) = srv d" using same_rest_steps(1) by (simp add: same_rest_def)
  then have "stale_filter (srv (snd (delete_sequences ?P d))) (like_tmp (srv d))" by (simp add: stale_filter_def)
  from stmt_reach_trans [OF rest_clean [OF this] rest_clean [of d ?P]]
  show ?thesis by (simp add: clean_rows_def stale_filter_def)
qed

text \<open>With one row open, on connection 0.\<close>

definition one_open :: "db \<Rightarrow> int \<Rightarrow> bool \<Rightarrow> (int \<times> string) set \<Rightarrow> alloc_sys" where
  "one_open d i b G = \<lparr>al_db = d, al_open = [0 \<mapsto> (i, b)], al_granted = G\<rparr>"

lemma one_open_sent: "only_sent d d' \<Longrightarrow> stmt_reach (one_open d i b G) (one_open d' i b G)"
  using stmt_reach_one [OF q_sent [of "one_open d i b G" d']] by (simp add: one_open_def)

lemma one_open_rollback: "stmt_reach (one_open d i b G) (at_rest (remove_row i d) G)"
  using stmt_reach_one [OF q_rollback [of "one_open d i b G" 0 i b]] by (simp add: one_open_def at_rest_def)

lemma one_open_insert:
  "insert_sequence (''TMP_'' @ tok) d = (True, d') \<Longrightarrow> stmt_reach (at_rest d G) (one_open d' (seq_next d) False G)"
  using stmt_reach_one [OF q_insert [of "at_rest d G" 0 tok d']] by (simp add: one_open_def at_rest_def)

lemma one_open_rename:
  "rename_sequence (''IMG_'' @ dec_int i) i d = (True, d') \<Longrightarrow>
     stmt_reach (one_open d i False G) (one_open d' i True G)"
  using stmt_reach_one [OF q_rename [of "one_open d i False G" 0 i d']] by (simp add: one_open_def)

lemma one_open_commit:
  "send d = (True, d') \<Longrightarrow>
     stmt_reach (one_open d i True G) (at_rest d' (insert (i, ''IMG_'' @ dec_int i) G))"
  using stmt_reach_one [OF q_commit [of "one_open d i True G" 0 i d']] by (simp add: one_open_def at_rest_def)

lemma send_sent: "send d = (b, d') \<Longrightarrow> only_sent d d'"
  by (auto simp: send_def only_sent_def)

lemma rename_refused: "rename_sequence nm i d = (False, d') \<Longrightarrow> only_sent d d'"
  by (auto simp: rename_sequence_def send_def only_sent_def split: if_splits)

lemma rest_insert_refused:
  assumes "insert_sequence (''TMP_'' @ tok) d = (False, d')"
  shows "stmt_reach (at_rest d G) (at_rest (rollback (sequences d) d') G)"
proof -
  have "d' = snd (insert_sequence (''TMP_'' @ tok) d)" using assms by simp
  then have "sequences d' = sequences d"
    using assms by (auto simp: insert_sequence_def send_def split: if_splits option.splits)
  then have "only_sent d' (rollback (sequences d) d')"
    by (cases d') (auto simp: rollback_def send_def only_sent_def)
  from stmt_reach_trans [OF rest_sent [OF this]] stmt_reach_one [OF q_insert_refused [of tok "at_rest d G" d']] assms
  show ?thesis by (simp add: at_rest_def)
qed

text \<open>Restoring the rows of the start is removing the row the connection has added.\<close>

lemma rollback_removes:
  assumes "db_wf d" "sequences d' = map f (sequences d @ [(seq_next d, nm)])"
    and "\<And>x. fst (f x) = fst x" "\<And>x. fst x \<noteq> seq_next d \<Longrightarrow> f x = x"
  shows "rollback (sequences d) d' = remove_row (seq_next d) d'"
proof -
  have old: "fst x \<noteq> seq_next d" if "x \<in> set (sequences d)" for x
    using that assms(1) by (cases x) (auto simp: db_wf_def seqs_wf_def)
  then have "map f (sequences d) = sequences d" using assms(4) by (simp add: map_idI)
  moreover have "filter (\<lambda>x. fst x \<noteq> seq_next d) (sequences d) = sequences d" using old by simp
  ultimately have "[(j, n) \<leftarrow> sequences d'. j \<noteq> seq_next d] = sequences d"
    using assms(2,3) by (simp add: split_beta')
  then show ?thesis by (simp add: rollback_def remove_row_def)
qed

definition alloc_transaction :: "string \<Rightarrow> db \<Rightarrow> (int \<times> string) \<times> db" where
  "alloc_transaction tok d =
    (let saved = sequences d; (ins, d4) = insert_sequence (''TMP_'' @ tok) d
     in if \<not> ins then ((0, []), rollback saved d4)
        else let sid = seq_next d
             in if sid = 0 then ((0, []), rollback saved d4)
                else let name = ''IMG_'' @ dec_int sid; (upd, d5) = rename_sequence name sid d4
                     in if \<not> upd then ((0, []), rollback saved d5)
                        else let (committed, d6) = send d5
                             in if \<not> committed then ((0, []), rollback saved d6) else ((sid, name), d6))"

lemma alloc_is_transaction:
  "AllocateSequence tok d =
     (let (started, d3) = send (clean_rows (srv d) d)
      in if \<not> started then ((0, []), d3) else alloc_transaction tok d3)"
  by (simp only: AllocateSequence_after_clean alloc_transaction_def Let_def)

lemma rest_transaction:
  assumes wf: "db_wf d" and call: "alloc_transaction tok d = ((n, name), d')"
  shows "stmt_reach (at_rest d G) (at_rest d' (if n = 0 then G else insert (n, name) G))"
proof -
  let ?i = "seq_next d" and ?nm = "''IMG_'' @ dec_int (seq_next d)"
  have i: "?i \<noteq> 0" using wf by (simp add: db_wf_def seqs_wf_def)
  obtain ins d4 where d4: "insert_sequence (''TMP_'' @ tok) d = (ins, d4)" by fastforce
  show ?thesis
  proof (cases ins)
    case False
    then have "insert_sequence (''TMP_'' @ tok) d = (False, d4)" using d4 by simp
    moreover have "n = 0 \<and> d' = rollback (sequences d) d4" using call d4 False by (simp add: alloc_transaction_def)
    ultimately show ?thesis using rest_insert_refused by simp
  next
    case True
    note r4 = one_open_insert [OF d4 [unfolded True [THEN eqTrueI]], of G]
    obtain t where t: "sequences d4 = sequences d @ [(?i, t)]"
      using d4 True by (auto simp: insert_sequence_def send_def split: if_splits option.splits)
    obtain upd d5 where d5: "rename_sequence ?nm ?i d4 = (upd, d5)" by fastforce
    show ?thesis
    proof (cases upd)
      case False
      then have "rename_sequence ?nm ?i d4 = (False, d5)" using d5 by simp
      then have sent: "only_sent d4 d5" by (rule rename_refused)
      have "d' = rollback (sequences d) d5 \<and> n = 0" using call d4 d5 True False i by (simp add: alloc_transaction_def Let_def)
      moreover have "rollback (sequences d) d5 = remove_row ?i d5"
        by (rule rollback_removes [OF wf, of d5 id t]) (use t sent in \<open>auto simp: only_sent_def\<close>)
      ultimately show ?thesis
        using stmt_reach_trans [OF one_open_rollback stmt_reach_trans [OF one_open_sent [OF sent] r4]] by simp
    next
      case True
      note r5 = stmt_reach_trans [OF one_open_rename [OF d5 [unfolded True [THEN eqTrueI]], of G] r4]
      let ?f = "\<lambda>(j, m). if j = ?i then (j, ?nm) else (j, m)"
      have s5: "sequences d5 = map ?f (sequences d @ [(?i, t)])"
        using d5 True t by (auto simp: rename_sequence_def send_def split: if_splits)
      obtain com d6 where d6: "send d5 = (com, d6)" by fastforce
      have "sequences d6 = sequences d5" using d6 by (auto simp: send_def)
      then have rb: "rollback (sequences d) d6 = remove_row ?i d6"
        using rollback_removes [OF wf, of d6 ?f t] s5 by (simp add: case_prod_beta)
      show ?thesis
      proof (cases com)
        case False
        then have "d' = rollback (sequences d) d6 \<and> n = 0"
          using call d4 d5 d6 \<open>ins\<close> True i by (simp add: alloc_transaction_def Let_def)
        with rb stmt_reach_trans [OF one_open_rollback stmt_reach_trans [OF one_open_sent [OF send_sent [OF d6]] r5]]
        show ?thesis by simp
      next
        case com: True
        then have "d' = d6 \<and> n = ?i \<and> name = ?nm" using call d4 d5 d6 \<open>ins\<close> True i by (auto simp: alloc_transaction_def Let_def)
        with i stmt_reach_trans [OF one_open_commit [OF d6 [unfolded com [THEN eqTrueI]], of ?i G] r5]
        show ?thesis by simp
      qed
    qed
  qed
qed

lemma clean_rows_wf: "db_wf d \<Longrightarrow> db_wf (clean_rows sv d)"
  using delete_wf [OF _ prod.collapse [symmetric]] by (metis clean_rows_def)

lemma rest_allocate:
  assumes wf: "db_wf d" and call: "AllocateSequence tok d = ((n, name), d')"
  shows "stmt_reach (at_rest d G) (at_rest d' (if n = 0 then G else insert (n, name) G))"
proof -
  let ?c = "clean_rows (srv d) d"
  obtain st d3 where d3: "send ?c = (st, d3)" by fastforce
  note sent = send_sent [OF d3]
  note r3 = stmt_reach_trans [OF rest_sent [OF sent, of G] rest_clean_rows]
  show ?thesis
  proof (cases st)
    case False
    then have "n = 0 \<and> d' = d3" using call d3 by (simp add: alloc_is_transaction)
    with r3 show ?thesis by simp
  next
    case True
    have "db_wf d3" using only_sent_wf [OF sent clean_rows_wf [OF wf]] .
    moreover have "alloc_transaction tok d3 = ((n, name), d')" using call d3 True by (simp add: alloc_is_transaction)
    ultimately have "stmt_reach (at_rest d3 G) (at_rest d' (if n = 0 then G else insert (n, name) G))"
      by (rule rest_transaction)
    with r3 stmt_reach_trans show ?thesis by blast
  qed
qed

lemma rest_step:
  assumes "import_step (d, G) (d', G')" "db_wf d"
  shows "stmt_reach (at_rest d G) (at_rest d' G')"
  using assms(1)
proof cases
  case (t_alloc tok n name)
  with rest_allocate [OF assms(2)] show ?thesis by blast
next
  case (t_insert sq cfg p h fld oh ex i)
  with stmt_reach_one [OF q_import [of sq "at_rest d G" cfg p h fld oh ex i d']]
  show ?thesis by (simp add: at_rest_def)
next
  case (t_other op)
  with stmt_reach_one [OF q_other [of "at_rest d G" op d']] show ?thesis by (simp add: at_rest_def)
next
  case t_read
  with rest_sent show ?thesis by blast
qed

text \<open>
  C2: The transactions implement the calls: every run in which \<open>AllocateSequence\<close> is one atomic
  call, in which it hands out a number or nothing, is a run of the statements, with the same rows
  and the same numbers handed out, and with no transaction left open, whichever branch each call
  takes.
\<close>

theorem calls_are_statements:
  assumes "import_reach (d, G) (d', G')" "db_wf d"
  shows "stmt_reach (at_rest d G) (at_rest d' G')"
proof -
  have "stmt_reach (at_rest (fst x) (snd x)) (at_rest (fst y) (snd y))" if "import_reach x y" "db_wf (fst x)" for x y
    using that
  proof (induction rule: import_reach.induct)
    case (ir_start x)
    show ?case by (rule q_start)
  next
    case (ir_step x y z)
    then have "db_wf (fst y)" using import_reach_frame by blast
    with ir_step(2) have "stmt_reach (at_rest (fst y) (snd y)) (at_rest (fst z) (snd z))"
      by (intro rest_step) simp_all
    from stmt_reach_trans [OF this ir_step.IH [OF ir_step.prems]] show ?case .
  qed
  from this [OF assms(1)] assms(2) show ?thesis by simp
qed

theorem calls_are_statements_witness:
  "stmt_reach (at_rest (empty_db good_server) {}) (at_rest (traffic_db 3) {}) \<and> import_rows (traffic_db 3) \<noteq> []"
proof -
  have "import_rows (traffic_db 3) \<noteq> []" using demo_traffic_rows by auto
  with calls_are_statements [OF demo_traffic empty_db_wf] show ?thesis by simp
qed

text \<open>
  Two connections whose transactions overlap: both insert their placeholder before either renames
  it, and the first to start is the last to commit.
\<close>

definition overlap_db :: "nat \<Rightarrow> db" where
  "overlap_db k = (let d0 = empty_db good_server;
       d1 = snd (insert_sequence ''TMP_x'' d0); d2 = snd (insert_sequence ''TMP_y'' d1);
       d3 = snd (rename_sequence ''IMG_2'' 2 d2); d4 = snd (send d3);
       d5 = snd (rename_sequence ''IMG_1'' 1 d4); d6 = snd (send d5);
       d7 = snd (InsertImport (demo_row (2, ''IMG_2'')) d6)
     in [d0, d1, d2, d3, d4, d5, d6, d7, snd (InsertImport (demo_row (1, ''IMG_1'')) d7)] ! k)"

definition overlap :: "nat \<Rightarrow> (nat \<rightharpoonup> int \<times> bool) \<Rightarrow> (int \<times> string) list \<Rightarrow> alloc_sys" where
  "overlap k opn G = \<lparr>al_db = overlap_db k, al_open = opn, al_granted = set G\<rparr>"

lemma overlap_transactions:
  "stmt_step (overlap 0 Map.empty []) (overlap 1 [0 \<mapsto> (1, False)] [])"
  "stmt_step (overlap 1 [0 \<mapsto> (1, False)] []) (overlap 2 [0 \<mapsto> (1, False), 1 \<mapsto> (2, False)] [])"
  "stmt_step (overlap 2 [0 \<mapsto> (1, False), 1 \<mapsto> (2, False)] []) (overlap 3 [0 \<mapsto> (1, False), 1 \<mapsto> (2, True)] [])"
  "stmt_step (overlap 3 [0 \<mapsto> (1, False), 1 \<mapsto> (2, True)] []) (overlap 4 [0 \<mapsto> (1, False)] [(2, ''IMG_2'')])"
  "stmt_step (overlap 4 [0 \<mapsto> (1, False)] [(2, ''IMG_2'')]) (overlap 5 [0 \<mapsto> (1, True)] [(2, ''IMG_2'')])"
  "stmt_step (overlap 5 [0 \<mapsto> (1, True)] [(2, ''IMG_2'')]) (overlap 6 Map.empty [(1, ''IMG_1''), (2, ''IMG_2'')])"
proof -
  have nxt: "seq_next (overlap_db 0) = 1" "seq_next (overlap_db 1) = 2" by code_simp+
  have nm: "''IMG_'' @ dec_int 1 = ''IMG_1''" "''IMG_'' @ dec_int 2 = ''IMG_2''" by code_simp+
  have st: "insert_sequence ''TMP_x'' (overlap_db 0) = (True, overlap_db 1)"
    "insert_sequence ''TMP_y'' (overlap_db 1) = (True, overlap_db 2)"
    "rename_sequence ''IMG_2'' 2 (overlap_db 2) = (True, overlap_db 3)" "send (overlap_db 3) = (True, overlap_db 4)"
    "rename_sequence ''IMG_1'' 1 (overlap_db 4) = (True, overlap_db 5)" "send (overlap_db 5) = (True, overlap_db 6)"
    by (rule prod_eqI, simp, code_simp, simp add: overlap_db_def Let_def eval_nat_numeral)+
  show "stmt_step (overlap 0 Map.empty []) (overlap 1 [0 \<mapsto> (1, False)] [])"
    using q_insert [of "overlap 0 Map.empty []" 0 "''x''" "overlap_db 1"] st(1) nxt
    by (simp add: overlap_def)
  show "stmt_step (overlap 1 [0 \<mapsto> (1, False)] []) (overlap 2 [0 \<mapsto> (1, False), 1 \<mapsto> (2, False)] [])"
    using q_insert [of "overlap 1 [0 \<mapsto> (1, False)] []" 1 "''y''" "overlap_db 2"] st(2) nxt
    by (simp add: overlap_def)
  show "stmt_step (overlap 2 [0 \<mapsto> (1, False), 1 \<mapsto> (2, False)] []) (overlap 3 [0 \<mapsto> (1, False), 1 \<mapsto> (2, True)] [])"
    using q_rename [of "overlap 2 [0 \<mapsto> (1, False), 1 \<mapsto> (2, False)] []" 1 2 "overlap_db 3"] st(3) nm(2)
    by (simp add: overlap_def)
  show "stmt_step (overlap 3 [0 \<mapsto> (1, False), 1 \<mapsto> (2, True)] []) (overlap 4 [0 \<mapsto> (1, False)] [(2, ''IMG_2'')])"
    using q_commit [of "overlap 3 [0 \<mapsto> (1, False), 1 \<mapsto> (2, True)] []" 1 2 "overlap_db 4"] st(4) nm(2)
    by (simp add: overlap_def)
  show "stmt_step (overlap 4 [0 \<mapsto> (1, False)] [(2, ''IMG_2'')]) (overlap 5 [0 \<mapsto> (1, True)] [(2, ''IMG_2'')])"
    using q_rename [of "overlap 4 [0 \<mapsto> (1, False)] [(2, ''IMG_2'')]" 0 1 "overlap_db 5"] st(5) nm(1)
    by (simp add: overlap_def)
  show "stmt_step (overlap 5 [0 \<mapsto> (1, True)] [(2, ''IMG_2'')]) (overlap 6 Map.empty [(1, ''IMG_1''), (2, ''IMG_2'')])"
    using q_commit [of "overlap 5 [0 \<mapsto> (1, True)] [(2, ''IMG_2'')]" 0 1 "overlap_db 6"] st(6) nm(1)
    by (simp add: overlap_def)
qed

lemma overlap_inserts:
  "stmt_step (overlap 6 Map.empty [(1, ''IMG_1''), (2, ''IMG_2'')]) (overlap 7 Map.empty [(1, ''IMG_1'')])"
  "stmt_step (overlap 7 Map.empty [(1, ''IMG_1'')]) (overlap 8 Map.empty [])"
proof -
  have dbs: "overlap_db 7 = snd (InsertImport (demo_row (2, ''IMG_2'')) (overlap_db 6))"
    "overlap_db 8 = snd (InsertImport (demo_row (1, ''IMG_1'')) (overlap_db 7))"
    by (simp_all add: overlap_db_def Let_def eval_nat_numeral)
  let ?s = "overlap 6 Map.empty [(1, ''IMG_1''), (2, ''IMG_2'')]" and ?t = "overlap 7 Map.empty [(1, ''IMG_1'')]"
  obtain i j where ij: "InsertImport (demo_row (2, ''IMG_2'')) (al_db ?s) = (i, overlap_db 7)"
    "InsertImport (demo_row (1, ''IMG_1'')) (al_db ?t) = (j, overlap_db 8)"
    using dbs unfolding overlap_def by (metis prod.collapse alloc_sys.select_convs(1))
  have "(2, ''IMG_2'') \<in> al_granted ?s" "(1, ''IMG_1'') \<in> al_granted ?t" by (simp_all add: overlap_def)
  from q_import [OF this(1) ij(1) [unfolded demo_row_def]] q_import [OF this(2) ij(2) [unfolded demo_row_def]]
  show "stmt_step ?s (overlap 7 Map.empty [(1, ''IMG_1'')])" "stmt_step ?t (overlap 8 Map.empty [])"
    by (simp_all add: overlap_def insert_Diff_if)
qed

lemma overlap_run: "stmt_reach (at_rest (empty_db good_server) {}) (overlap 8 Map.empty [])"
proof -
  have "overlap 0 Map.empty [] = at_rest (empty_db good_server) {}"
    by (simp add: overlap_def at_rest_def overlap_db_def Let_def)
  then have "stmt_reach (at_rest (empty_db good_server) {}) (overlap 0 Map.empty [])" by (simp add: q_start)
  from q_next [OF q_next [OF q_next [OF q_next [OF q_next [OF q_next [OF q_next [OF q_next [OF this
    overlap_transactions(1)] overlap_transactions(2)] overlap_transactions(3)] overlap_transactions(4)]
    overlap_transactions(5)] overlap_transactions(6)] overlap_inserts(1)] overlap_inserts(2)]
  show ?thesis .
qed

lemma overlap_rows:
  "map (\<lambda>r. (rec_id r, sequence_id r, status r)) (import_rows (overlap_db 8)) = [(1, 2, Completed), (2, 1, Completed)]"
  unfolding overlap_db_def demo_row_def by code_simp

theorem outputs_never_collide_interleaved_witness:
  "\<exists>r q. import_rows (overlap_db 8) = [r, q] \<and> sequence_id r = 2 \<and> sequence_id q = 1 \<and>
     output_path r \<noteq> output_path q"
proof -
  obtain r q where rq: "import_rows (overlap_db 8) = [r, q]" "status r = Completed" "status q = Completed"
    "rec_id r = 1" "rec_id q = 2" "sequence_id r = 2" "sequence_id q = 1"
    using overlap_rows by (auto simp: map_eq_Cons_conv)
  moreover have "server_ok (srv (empty_db good_server))" by (simp add: empty_db_def)
  moreover have "r \<noteq> q" using rq(4,5) by auto
  ultimately show ?thesis
    using outputs_never_collide_interleaved [OF _ empty_traffic_ok overlap_run, of r q] by (simp add: overlap_def)
qed

end
