(* ===== verification/Statement_Handles.thy ===== *)
theory Statement_Handles
  imports Sequences
begin

text \<open>
  The class \<open>PreparedStatement\<close> of \<open>src/src/db.cpp\<close> and the functions built on it, call by call of
  the client library: a statement handle is obtained in the constructor and released in the
  destructor, which C++ runs on every way out of the scope. What the library answers to each call
  is a parameter. The results: on every path each handle is closed exactly once and never used
  after that, no path of \<open>AllocateSequence\<close> leaves its transaction open, and \<open>exec_select\<close> returns
  what its description in \<open>Db_Tables\<close> says.
\<close>

section \<open>Calls of the client library\<close>

text \<open>Handles are identified by the number of the call that made them; a result's metadata too.\<close>

type_synonym handle = nat

datatype plain_query = Q_Clean_Empty | Q_Clean_Tmp | Q_Start | Q_Commit | Q_Rollback

datatype client_call =
    C_Init handle | C_Prepare handle string | C_Bind_Param handle | C_Bind_Result handle
  | C_Execute handle | C_Store_Result handle | C_Fetch handle | C_Field_Count handle
  | C_Insert_Id handle | C_Free_Result handle | C_Close handle
  | C_Metadata handle handle | C_Free_Metadata handle | C_Query plain_query

text \<open>The calls made so far with their answers; the library may answer by all of them.\<close>

type_synonym trace = "(client_call \<times> bool) list"
type_synonym client_lib = "trace \<Rightarrow> client_call \<Rightarrow> bool"

definition ask :: "client_lib \<Rightarrow> client_call \<Rightarrow> trace \<Rightarrow> bool \<times> trace" where
  "ask lib c tr = (let b = lib tr c in (b, tr @ [(c, b)]))"

section \<open>PreparedStatement\<close>

text \<open>The member \<open>stmt_\<close>: \<open>None\<close> is the null pointer.\<close>

type_synonym prepared = "handle option"

definition ps_open :: "client_lib \<Rightarrow> string \<Rightarrow> trace \<Rightarrow> prepared \<times> trace" where
  "ps_open lib sql tr =
     (let h = length tr; (made, tr1) = ask lib (C_Init h) tr
      in if \<not> made then (None, tr1)
         else let (prepared, tr2) = ask lib (C_Prepare h sql) tr1
              in if prepared then (Some h, tr2) else (None, snd (ask lib (C_Close h) tr2)))"

definition ps_close :: "client_lib \<Rightarrow> prepared \<Rightarrow> trace \<Rightarrow> trace" where
  "ps_close lib s tr = (case s of None \<Rightarrow> tr | Some h \<Rightarrow> snd (ask lib (C_Close h) tr))"

definition ps_valid :: "prepared \<Rightarrow> bool" where
  "ps_valid s \<longleftrightarrow> s \<noteq> None"

text \<open>Every method begins with the same test of \<open>stmt_\<close>.\<close>

definition guarded :: "client_lib \<Rightarrow> (handle \<Rightarrow> client_call) \<Rightarrow> prepared \<Rightarrow> trace \<Rightarrow> bool \<times> trace" where
  "guarded lib f s tr = (case s of None \<Rightarrow> (False, tr) | Some h \<Rightarrow> ask lib (f h) tr)"

definition ps_bind_param :: "client_lib \<Rightarrow> prepared \<Rightarrow> trace \<Rightarrow> bool \<times> trace" where
  "ps_bind_param lib = guarded lib C_Bind_Param"

definition ps_bind_result :: "client_lib \<Rightarrow> prepared \<Rightarrow> trace \<Rightarrow> bool \<times> trace" where
  "ps_bind_result lib = guarded lib C_Bind_Result"

definition ps_execute :: "client_lib \<Rightarrow> prepared \<Rightarrow> trace \<Rightarrow> bool \<times> trace" where
  "ps_execute lib = guarded lib C_Execute"

definition ps_fetch :: "client_lib \<Rightarrow> prepared \<Rightarrow> trace \<Rightarrow> bool \<times> trace" where
  "ps_fetch lib = guarded lib C_Fetch"

definition ps_store_result :: "client_lib \<Rightarrow> prepared \<Rightarrow> trace \<Rightarrow> bool \<times> trace" where
  "ps_store_result lib = guarded lib C_Store_Result"

text \<open>\<open>insert_id\<close>: the counter's value \<open>v\<close>, or 0 without a statement or without a new id.\<close>

definition ps_insert_id :: "client_lib \<Rightarrow> int \<Rightarrow> prepared \<Rightarrow> trace \<Rightarrow> int \<times> trace" where
  "ps_insert_id lib v s tr = (let (b, tr1) = guarded lib C_Insert_Id s tr in (if b then v else 0, tr1))"

definition ps_free_result :: "client_lib \<Rightarrow> prepared \<Rightarrow> trace \<Rightarrow> trace" where
  "ps_free_result lib s tr = snd (guarded lib C_Free_Result s tr)"

lemmas ps_defs = ps_bind_param_def ps_bind_result_def ps_execute_def ps_fetch_def ps_store_result_def
  ps_insert_id_def ps_free_result_def

text \<open>A local object: constructor, the rest of its scope, destructor on every way out.\<close>

definition with_stmt ::
  "client_lib \<Rightarrow> string \<Rightarrow> (prepared \<Rightarrow> trace \<Rightarrow> 'r \<times> trace) \<Rightarrow> trace \<Rightarrow> 'r \<times> trace" where
  "with_stmt lib sql body tr =
     (let (s, tr1) = ps_open lib sql tr; (r, tr2) = body s tr1 in (r, ps_close lib s tr2))"

section \<open>The functions that use it\<close>

text \<open>
  \<open>exec_select\<close>: \<open>rows\<close> are the rows the server has for it. A fetch that fails, or that finds a
  column too long for its buffer, ends the loop.
\<close>

fun fetch_client ::
  "client_lib \<Rightarrow> bool \<Rightarrow> string list \<Rightarrow> string option list list \<Rightarrow> prepared \<Rightarrow> trace \<Rightarrow> string list list \<times> trace" where
  "fetch_client lib keep bufs [] s tr = ([], snd (ps_fetch lib s tr))"
| "fetch_client lib keep bufs (row # rows) s tr =
     (let (ok, tr1) = ps_fetch lib s tr; v = map2 (fetch_column keep) bufs row
      in if \<not> ok \<or> \<not> row_fits v then ([], tr1)
         else let (vs, tr2) = fetch_client lib keep v rows s tr1 in (v # vs, tr2))"

definition select_body ::
  "client_lib \<Rightarrow> bool \<Rightarrow> nat \<Rightarrow> string option list list \<Rightarrow> bool \<Rightarrow> prepared \<Rightarrow> trace \<Rightarrow> string list list \<times> trace" where
  "select_body lib keep ncols rows params s tr =
     (if \<not> ps_valid s then ([], tr)
      else let (bound, tr1) = (if params then ps_bind_param lib s tr else (True, tr))
           in if \<not> bound then ([], tr1)
              else let (executed, tr2) = ps_execute lib s tr1
                   in if \<not> executed then ([], tr2)
                      else let tr3 = snd (guarded lib C_Field_Count s tr2)
                           in if ncols = 0 then ([], tr3)
                              else let (result, tr4) = ps_bind_result lib s tr3
                                   in if \<not> result then ([], tr4)
                                      else let (vs, tr5) = fetch_client lib keep (replicate ncols []) rows s tr4
                                           in (vs, ps_free_result lib s tr5))"

definition select_client ::
  "client_lib \<Rightarrow> bool \<Rightarrow> nat \<Rightarrow> string option list list \<Rightarrow> bool \<Rightarrow> string \<Rightarrow> trace \<Rightarrow> string list list \<times> trace" where
  "select_client lib keep ncols rows params sql = with_stmt lib sql (select_body lib keep ncols rows params)"

text \<open>One statement that changes the tables, as \<open>UpdateOutputHash\<close> and its like send it.\<close>

definition write_client :: "client_lib \<Rightarrow> string \<Rightarrow> trace \<Rightarrow> bool \<times> trace" where
  "write_client lib sql = with_stmt lib sql (\<lambda>s tr.
     if \<not> ps_valid s then (False, tr)
     else let (bound, tr1) = ps_bind_param lib s tr
          in if \<not> bound then (False, tr1) else ps_execute lib s tr1)"

text \<open>
  \<open>AcquireLock\<close>: both statements are alive at its end. \<open>up\<close>: the connection is not null; \<open>busy\<close>: the
  test of the row found.
\<close>

definition upsert_body :: "client_lib \<Rightarrow> prepared \<Rightarrow> trace \<Rightarrow> bool \<times> trace" where
  "upsert_body lib u tr =
     (if \<not> ps_valid u then (False, tr)
      else let (bound, tr1) = ps_bind_param lib u tr
           in if \<not> bound then (False, tr1) else ps_execute lib u tr1)"

definition lock_body :: "client_lib \<Rightarrow> bool \<Rightarrow> string \<Rightarrow> prepared \<Rightarrow> trace \<Rightarrow> bool \<times> trace" where
  "lock_body lib busy upsert s tr =
     (if \<not> ps_valid s then (False, tr)
      else let (bound, tr1) = ps_bind_param lib s tr
           in if \<not> bound then (False, tr1)
              else let (result, tr2) = ps_bind_result lib s tr1
                   in if \<not> result then (False, tr2)
                      else let (executed, tr3) = ps_execute lib s tr2
                           in if \<not> executed then (False, tr3)
                              else let (stored, tr4) = ps_store_result lib s tr3
                                   in if \<not> stored then (False, tr4)
                                      else let (held, tr5) = ps_fetch lib s tr4; tr6 = ps_free_result lib s tr5
                                           in if held \<and> busy then (False, tr6)
                                              else with_stmt lib upsert (upsert_body lib) tr6)"

definition lock_client ::
  "client_lib \<Rightarrow> bool \<Rightarrow> bool \<Rightarrow> string \<Rightarrow> string \<Rightarrow> trace \<Rightarrow> bool \<times> trace" where
  "lock_client lib up busy sel upsert tr =
     (if \<not> up then (False, tr) else with_stmt lib sel (lock_body lib busy upsert) tr)"

text \<open>\<open>AllocateSequence\<close>, with its plain queries; \<open>v\<close> is the counter's value.\<close>

definition query :: "client_lib \<Rightarrow> plain_query \<Rightarrow> trace \<Rightarrow> bool \<times> trace" where
  "query lib q tr = ask lib (C_Query q) tr"

definition give_up :: "client_lib \<Rightarrow> trace \<Rightarrow> (int \<times> string) \<times> trace" where
  "give_up lib tr = ((0, []), snd (query lib Q_Rollback tr))"

definition rename_body :: "client_lib \<Rightarrow> int \<Rightarrow> string \<Rightarrow> prepared \<Rightarrow> trace \<Rightarrow> (int \<times> string) \<times> trace" where
  "rename_body lib sid name u tr =
     (if \<not> ps_valid u then give_up lib tr
      else let (bound, tr1) = ps_bind_param lib u tr
           in if \<not> bound then give_up lib tr1
              else let (executed, tr2) = ps_execute lib u tr1
                   in if \<not> executed then give_up lib tr2
                      else let (committed, tr3) = query lib Q_Commit tr2
                           in if \<not> committed then give_up lib tr3 else ((sid, name), tr3))"

definition insert_body :: "client_lib \<Rightarrow> int \<Rightarrow> prepared \<Rightarrow> trace \<Rightarrow> (int \<times> string) \<times> trace" where
  "insert_body lib v s tr =
     (if \<not> ps_valid s then give_up lib tr
      else let (bound, tr1) = ps_bind_param lib s tr
           in if \<not> bound then give_up lib tr1
              else let (executed, tr2) = ps_execute lib s tr1
                   in if \<not> executed then give_up lib tr2
                      else let (sid, tr3) = ps_insert_id lib v s tr2
                           in if sid = 0 then give_up lib tr3
                              else with_stmt lib ''UPDATE sequences SET name=? WHERE id=?''
                                     (rename_body lib sid (''IMG_'' @ dec_int sid)) tr3)"

definition alloc_client :: "client_lib \<Rightarrow> int \<Rightarrow> trace \<Rightarrow> (int \<times> string) \<times> trace" where
  "alloc_client lib v tr =
     (let tr1 = snd (query lib Q_Clean_Empty tr);
          tr2 = snd (query lib Q_Clean_Tmp tr1);
          (started, tr3) = query lib Q_Start tr2
      in if \<not> started then ((0, []), tr3)
         else with_stmt lib ''INSERT INTO sequences(name) VALUES(?)'' (insert_body lib v) tr3)"

text \<open>
  \<open>ListImports\<close> also asks for the metadata of its result, which is freed at the end of the
  function only; \<open>filters\<close>: whether there is a parameter to bind.
\<close>

definition list_body ::
  "client_lib \<Rightarrow> bool \<Rightarrow> nat \<Rightarrow> string option list list \<Rightarrow> bool \<Rightarrow> prepared \<Rightarrow> trace \<Rightarrow> string list list \<times> trace" where
  "list_body lib keep ncols rows filters s tr =
     (case s of
        None \<Rightarrow> ([], tr)
      | Some h \<Rightarrow>
          let (bound, tr1) = (if filters then ps_bind_param lib s tr else (True, tr))
          in if \<not> bound then ([], tr1)
             else let (executed, tr2) = ps_execute lib s tr1
                  in if \<not> executed then ([], tr2)
                     else let meta = length tr2; (described, tr3) = ask lib (C_Metadata h meta) tr2
                          in if \<not> described then ([], tr3)
                             else let (result, tr4) = ps_bind_result lib s tr3
                                  in if \<not> result then ([], tr4)
                                     else let (vs, tr5) = fetch_client lib keep (replicate ncols []) rows s tr4
                                          in (vs, snd (ask lib (C_Free_Metadata meta) tr5)))"

definition list_client ::
  "client_lib \<Rightarrow> bool \<Rightarrow> nat \<Rightarrow> string option list list \<Rightarrow> bool \<Rightarrow> string \<Rightarrow> trace \<Rightarrow> string list list \<times> trace" where
  "list_client lib keep ncols rows filters sql = with_stmt lib sql (list_body lib keep ncols rows filters)"

section \<open>Handles\<close>

text \<open>What a call makes (when it succeeds), what it needs alive, and what it releases.\<close>

fun makes :: "client_call \<Rightarrow> handle set" where
  "makes (C_Init h) = {h}"
| "makes (C_Metadata h m) = {m}"
| "makes _ = {}"

fun needs :: "client_call \<Rightarrow> handle set" where
  "needs (C_Init h) = {}"
| "needs (C_Query q) = {}"
| "needs (C_Prepare h sql) = {h}"
| "needs (C_Bind_Param h) = {h}"
| "needs (C_Bind_Result h) = {h}"
| "needs (C_Execute h) = {h}"
| "needs (C_Store_Result h) = {h}"
| "needs (C_Fetch h) = {h}"
| "needs (C_Field_Count h) = {h}"
| "needs (C_Insert_Id h) = {h}"
| "needs (C_Free_Result h) = {h}"
| "needs (C_Close h) = {h}"
| "needs (C_Metadata h m) = {h}"
| "needs (C_Free_Metadata m) = {m}"

fun releases :: "client_call \<Rightarrow> handle set" where
  "releases (C_Close h) = {h}"
| "releases (C_Free_Metadata m) = {m}"
| "releases _ = {}"

text \<open>
  The handles alive after a trace; \<open>None\<close> is a trace that uses or closes a handle that is not
  alive (which is undefined behaviour), or is given one that still is.
\<close>

definition step_live :: "handle set \<Rightarrow> client_call \<times> bool \<Rightarrow> handle set option" where
  "step_live L x = (case x of (c, b) \<Rightarrow>
     if needs c \<subseteq> L \<and> makes c \<inter> L = {} then Some ((if b then L \<union> makes c else L) - releases c) else None)"

fun live :: "handle set \<Rightarrow> trace \<Rightarrow> handle set option" where
  "live L [] = Some L"
| "live L (x # xs) = (case step_live L x of None \<Rightarrow> None | Some M \<Rightarrow> live M xs)"

lemma live_append: "live L (xs @ ys) = (case live L xs of None \<Rightarrow> None | Some M \<Rightarrow> live M ys)"
  by (induction xs arbitrary: L) (auto split: option.split)

definition owns :: "trace \<Rightarrow> handle set \<Rightarrow> bool" where
  "owns tr L \<longleftrightarrow> live {} tr = Some L \<and> (\<forall>h \<in> L. h < length tr)"

definition held :: "prepared \<Rightarrow> handle set \<Rightarrow> bool" where
  "held s L \<longleftrightarrow> (\<forall>h. s = Some h \<longrightarrow> h \<in> L)"

named_theorems owning

lemma owns_ask:
  assumes "owns tr L" "needs c \<subseteq> L" "makes c \<subseteq> {length tr}"
  shows "owns (snd (ask lib c tr)) ((if lib tr c then L \<union> makes c else L) - releases c)"
proof -
  have "makes c \<inter> L = {}" using assms(1,3) by (fastforce simp: owns_def)
  with assms show ?thesis by (auto simp: owns_def ask_def Let_def live_append step_live_def)
qed

lemma owns_plain:
  "owns tr L \<Longrightarrow> needs c \<subseteq> L \<Longrightarrow> makes c = {} \<Longrightarrow> owns (snd (ask lib c tr)) (L - releases c)"
  using owns_ask [of tr L c lib] by (cases "lib tr c") simp_all

lemma owns_use [owning]:
  "owns tr L \<Longrightarrow> needs c \<subseteq> L \<Longrightarrow> makes c = {} \<Longrightarrow> releases c = {} \<Longrightarrow> owns (snd (ask lib c tr)) L"
  using owns_plain [of tr L c lib] by simp

lemma owns_guarded [owning]:
  "owns tr L \<Longrightarrow> held s L \<Longrightarrow> (\<And>h. needs (f h) = {h} \<and> makes (f h) = {} \<and> releases (f h) = {}) \<Longrightarrow>
     owns (snd (guarded lib f s tr)) L"
  by (auto simp: guarded_def held_def split: option.split intro!: owns_use)

lemma owns_methods [owning]:
  assumes "owns tr L" "held s L"
  shows "owns (snd (ps_bind_param lib s tr)) L" "owns (snd (ps_bind_result lib s tr)) L"
    "owns (snd (ps_execute lib s tr)) L" "owns (snd (ps_fetch lib s tr)) L"
    "owns (snd (ps_store_result lib s tr)) L" "owns (snd (ps_insert_id lib v s tr)) L"
    "owns (ps_free_result lib s tr) L" "owns (snd (guarded lib C_Field_Count s tr)) L"
  using owns_guarded [OF assms] by (simp_all add: ps_defs split_beta Let_def)

lemma owns_query [owning]: "owns tr L \<Longrightarrow> owns (snd (query lib q tr)) L"
  by (simp add: query_def owns_use)

text \<open>The scope of a local object: its handle is new, and gone at the end, whatever the body does.\<close>

lemma owns_open:
  assumes "owns tr L"
  shows "case ps_open lib sql tr of (None, tr') \<Rightarrow> owns tr' L | (Some h, tr') \<Rightarrow> h \<notin> L \<and> owns tr' (insert h L)"
proof -
  let ?h = "length tr"
  have new: "?h \<notin> L" using assms by (auto simp: owns_def)
  let ?t1 = "snd (ask lib (C_Init ?h) tr)"
  have t1: "owns ?t1 (if lib tr (C_Init ?h) then insert ?h L else L)" 
    using owns_ask [OF assms, of "C_Init ?h" lib] by (cases "lib tr (C_Init ?h)") simp_all
  let ?t2 = "snd (ask lib (C_Prepare ?h sql) ?t1)"
  have t2: "owns ?t2 (insert ?h L)" if "lib tr (C_Init ?h)" using owns_use [of ?t1 "insert ?h L" "C_Prepare ?h sql" lib] t1 that by simp
  have t3: "owns (snd (ask lib (C_Close ?h) ?t2)) L" if "lib tr (C_Init ?h)"
    using owns_plain [OF t2 [OF that], of "C_Close ?h" lib] new by simp
  show ?thesis
    by (cases "lib tr (C_Init ?h)"; cases "lib ?t1 (C_Prepare ?h sql)") (use t1 t2 t3 new in \<open>simp_all add: ps_open_def ask_def Let_def\<close>)
qed

lemma owns_with_stmt:
  assumes body: "\<And>s t M. owns t M \<Longrightarrow> held s M \<Longrightarrow> owns (snd (body s t)) M" and tr: "owns tr L"
  shows "owns (snd (with_stmt lib sql body tr)) L"
proof -
  obtain s t where o: "ps_open lib sql tr = (s, t)" by fastforce
  show ?thesis
  proof (cases s)
    case None
    with o owns_open [OF tr, of lib sql] have "owns t L" by simp
    then have "owns (snd (body s t)) L" using body None by (simp add: held_def)
    with o None show ?thesis by (simp add: with_stmt_def ps_close_def split_beta)
  next
    case (Some h)
    with o owns_open [OF tr, of lib sql] have h: "h \<notin> L" "owns t (insert h L)" by simp_all
    then have "owns (snd (body s t)) (insert h L)" using body Some by (simp add: held_def)
    from owns_plain [OF this, of "C_Close h" lib] h(1) o Some show ?thesis
      by (simp add: with_stmt_def ps_close_def split_beta)
  qed
qed

lemma owns_fetch [owning]:
  "owns tr L \<Longrightarrow> held s L \<Longrightarrow> owns (snd (fetch_client lib keep bufs rows s tr)) L"
  by (induction rows arbitrary: bufs tr) (simp_all add: owning split_beta Let_def)

lemma owns_select: "owns tr L \<Longrightarrow> owns (snd (select_client lib keep ncols rows params sql tr)) L"
  unfolding select_client_def
  by (rule owns_with_stmt) (simp_all add: select_body_def owning split_beta Let_def)

lemma owns_write: "owns tr L \<Longrightarrow> owns (snd (write_client lib sql tr)) L"
  unfolding write_client_def by (rule owns_with_stmt) (simp_all add: owning split_beta Let_def)

lemma owns_upsert: "owns tr L \<Longrightarrow> held u L \<Longrightarrow> owns (snd (upsert_body lib u tr)) L"
  by (simp add: upsert_body_def owning split_beta Let_def)

lemma owns_lock_body: "owns tr L \<Longrightarrow> held s L \<Longrightarrow> owns (snd (lock_body lib busy upsert s tr)) L"
  by (simp add: lock_body_def owning owns_with_stmt owns_upsert split_beta Let_def)

lemma owns_lock: "owns tr L \<Longrightarrow> owns (snd (lock_client lib up busy sel upsert tr)) L"
  by (simp add: lock_client_def owns_with_stmt owns_lock_body)

lemma owns_give_up [owning]: "owns tr L \<Longrightarrow> owns (snd (give_up lib tr)) L"
  by (simp add: give_up_def owning)

lemma owns_rename: "owns tr L \<Longrightarrow> held u L \<Longrightarrow> owns (snd (rename_body lib sid name u tr)) L"
  by (simp add: rename_body_def owning split_beta Let_def)

lemma owns_insert: "owns tr L \<Longrightarrow> held s L \<Longrightarrow> owns (snd (insert_body lib v s tr)) L"
  by (simp add: insert_body_def owning owns_with_stmt owns_rename split_beta Let_def)

lemma owns_alloc: "owns tr L \<Longrightarrow> owns (snd (alloc_client lib v tr)) L"
  by (simp add: alloc_client_def owning owns_with_stmt owns_insert split_beta Let_def)

text \<open>
  C20: Statement handles are closed exactly once: whatever the library answers to each call, a lookup, a
  write, a lock request and an allocation end with the handles that were alive before, no more and
  no fewer, and no call of theirs uses or closes a handle that is not alive, on any way out.
\<close>

theorem statements_closed:
  assumes "owns tr L"
  shows "owns (snd (select_client lib keep ncols rows params sql tr)) L \<and>
    owns (snd (write_client lib sql tr)) L \<and>
    owns (snd (lock_client lib up busy sel upsert tr)) L \<and>
    owns (snd (alloc_client lib v tr)) L"
  using owns_select [OF assms] owns_write [OF assms] owns_lock [OF assms] owns_alloc [OF assms] by blast

text \<open>The second statement cannot be prepared, while the first is alive.\<close>

definition no_second :: client_lib where
  "no_second tr c \<longleftrightarrow> \<not> (case c of C_Prepare h sql \<Rightarrow> 0 < h | _ \<Rightarrow> False)"

theorem statements_closed_witness:
  "live {} (snd (lock_client no_second True False ''SELECT'' ''INSERT'' [])) = Some {} \<and>
   map fst (drop 10 (snd (lock_client no_second True False ''SELECT'' ''INSERT'' []))) = [C_Close 8, C_Close 0]"
proof -
  have "owns [] {}" by (simp add: owns_def)
  from statements_closed [OF this, of no_second False 0 "[]" False "''SELECT''" True False "''SELECT''" "''INSERT''" 0]
  have "live {} (snd (lock_client no_second True False ''SELECT'' ''INSERT'' [])) = Some {}" by (simp add: owns_def)
  moreover have "map fst (drop 10 (snd (lock_client no_second True False ''SELECT'' ''INSERT'' []))) = [C_Close 8, C_Close 0]"
    by code_simp
  ultimately show ?thesis ..
qed

text \<open>The listing keeps its metadata on one way out: when the result cannot be bound.\<close>

definition picky_lib :: client_lib where
  "picky_lib tr c \<longleftrightarrow> (case c of C_Bind_Result h \<Rightarrow> False | _ \<Rightarrow> True)"

theorem list_leaks_metadata:
  "live {} (snd (list_client picky_lib False 16 [] False ''SELECT'' [])) = Some {3}"
  by code_simp

section \<open>The transaction of AllocateSequence\<close>

text \<open>
  Whether the connection is inside a transaction. A \<open>ROLLBACK\<close> that is not executed means the
  connection is gone, and the server rolls back on its own.
\<close>

fun tx_step :: "bool \<Rightarrow> client_call \<times> bool \<Rightarrow> bool" where
  "tx_step b (C_Query Q_Start, ok) = (b \<or> ok)"
| "tx_step b (C_Query Q_Commit, ok) = (b \<and> \<not> ok)"
| "tx_step b (C_Query Q_Rollback, ok) = False"
| "tx_step b x = b"

definition in_tx :: "trace \<Rightarrow> bool" where
  "in_tx tr = foldl tx_step False tr"

text \<open>How many commits the server has executed.\<close>

definition commits :: "trace \<Rightarrow> nat" where
  "commits tr = length [x \<leftarrow> tr. x = (C_Query Q_Commit, True)]"

named_theorems tx_rules

lemma in_tx_ask [tx_rules]: "in_tx (snd (ask lib c tr)) = tx_step (in_tx tr) (c, lib tr c)"
  by (simp add: in_tx_def ask_def Let_def)

lemma commits_ask [tx_rules]:
  "commits (snd (ask lib c tr)) = commits tr + (if c = C_Query Q_Commit \<and> lib tr c then 1 else 0)"
  by (simp add: commits_def ask_def Let_def)

lemma tx_guarded:
  assumes "\<And>h b ok. tx_step b (f h, ok) = b" "\<And>h. f h \<noteq> C_Query Q_Commit"
  shows "in_tx (snd (guarded lib f s tr)) = in_tx tr" "commits (snd (guarded lib f s tr)) = commits tr"
  using assms by (simp_all add: guarded_def tx_rules split: option.split)

lemma tx_methods [tx_rules]:
  "in_tx (snd (ps_bind_param lib s tr)) = in_tx tr" "in_tx (snd (ps_execute lib s tr)) = in_tx tr"
  "in_tx (snd (ps_insert_id lib v s tr)) = in_tx tr"
  "commits (snd (ps_bind_param lib s tr)) = commits tr" "commits (snd (ps_execute lib s tr)) = commits tr"
  "commits (snd (ps_insert_id lib v s tr)) = commits tr"
  by (simp_all add: ps_defs tx_guarded split_beta Let_def)

lemma tx_query [tx_rules]:
  "in_tx (snd (query lib q tr)) = tx_step (in_tx tr) (C_Query q, fst (query lib q tr))"
  "commits (snd (query lib q tr)) = commits tr + (if q = Q_Commit \<and> fst (query lib q tr) then 1 else 0)"
  by (simp_all add: query_def tx_rules) (simp_all add: ask_def Let_def)

lemma tx_scope:
  "in_tx (ps_close lib s tr) = in_tx tr" "in_tx (snd (ps_open lib sql tr)) = in_tx tr"
  "commits (ps_close lib s tr) = commits tr" "commits (snd (ps_open lib sql tr)) = commits tr"
  by (simp_all add: ps_close_def ps_open_def tx_rules split_beta Let_def split: option.split)

lemma tx_give_up [tx_rules]:
  "\<not> in_tx (snd (give_up lib tr))" "commits (snd (give_up lib tr)) = commits tr" "fst (give_up lib tr) = (0, [])"
  by (simp_all add: give_up_def tx_rules)

text \<open>
  How a part of the transaction ends: outside of it, and with a number exactly when it has
  committed.
\<close>

definition settled :: "trace \<Rightarrow> (int \<times> string) \<times> trace \<Rightarrow> bool" where
  "settled tr x \<longleftrightarrow> \<not> in_tx (snd x) \<and> commits (snd x) = commits tr + (if fst (fst x) = 0 then 0 else 1) \<and>
     (fst (fst x) \<noteq> 0 \<longrightarrow> snd (fst x) = seq_name (fst (fst x)))"

lemma settled_commits: "settled tr x \<Longrightarrow> commits tr = commits tr' \<Longrightarrow> settled tr' x"
  by (simp add: settled_def)

lemma settled_give_up: "commits t = commits tr \<Longrightarrow> settled tr (give_up lib t)"
  by (simp add: settled_def tx_rules)

lemma settled_with_stmt:
  assumes "\<And>s t. settled t (body s t)" shows "settled tr (with_stmt lib sql body tr)"
proof -
  let ?p = "ps_open lib sql tr"
  have "settled tr (body (fst ?p) (snd ?p))" by (rule settled_commits [OF assms]) (simp add: tx_scope)
  then show ?thesis by (simp add: with_stmt_def settled_def tx_scope split_beta)
qed

lemma rename_settles:
  assumes "sid \<noteq> 0" shows "settled tr (rename_body lib sid (seq_name sid) u tr)"
  using assms by (auto simp: rename_body_def settled_def tx_rules split_beta Let_def)

lemma insert_settles: "settled tr (insert_body lib v s tr)"
proof -
  let ?t3 = "snd (ps_insert_id lib v s (snd (ps_execute lib s (snd (ps_bind_param lib s tr)))))"
  have "settled tr (with_stmt lib sql (rename_body lib sid (seq_name sid)) ?t3)" if "sid \<noteq> 0" for sql sid
    by (rule settled_commits [OF settled_with_stmt [OF rename_settles [OF that]]]) (simp add: tx_rules)
  then show ?thesis
    by (simp add: insert_body_def settled_give_up tx_rules split_beta Let_def seq_name_def)
qed


text \<open>The update is refused: the number is given back.\<close>

definition no_update :: client_lib where
  "no_update tr c \<longleftrightarrow> \<not> (length tr = 11 \<and> (case c of C_Execute h \<Rightarrow> True | _ \<Rightarrow> False))"

definition all_calls :: client_lib where
  "all_calls tr c \<longleftrightarrow> True"


section \<open>exec_select against its description\<close>

lemma fetch_client_prefix: "\<exists>n. fst (fetch_client lib keep bufs rows s tr) = take n (fetch_rows keep bufs rows)"
proof (induction rows arbitrary: bufs tr)
  case Nil
  show ?case by simp
next
  case (Cons row rows)
  let ?v = "map2 (fetch_column keep) bufs row" and ?p = "ps_fetch lib s tr"
  show ?case
  proof (cases "fst ?p \<and> row_fits ?v")
    case True
    obtain n where "fst (fetch_client lib keep ?v rows s (snd ?p)) = take n (fetch_rows keep ?v rows)"
      using Cons.IH by blast
    with True have "fst (fetch_client lib keep bufs (row # rows) s tr) = take (Suc n) (fetch_rows keep bufs (row # rows))"
      by (simp add: split_beta Let_def)
    then show ?thesis by blast
  next
    case False
    then have "fst (fetch_client lib keep bufs (row # rows) s tr) = take 0 (fetch_rows keep bufs (row # rows))"
      by (auto simp: split_beta Let_def)
    then show ?thesis by blast
  qed
qed

lemma select_client_prefix:
  "\<exists>n. fst (select_client lib keep ncols rows params sql tr) =
     take n (if ncols = 0 then [] else fetch_rows keep (replicate ncols []) rows)"
proof -
  let ?full = "if ncols = 0 then [] else fetch_rows keep (replicate ncols []) rows"
  have "\<exists>n. fst (select_body lib keep ncols rows params s t) = take n ?full" for s t
  proof -
    let ?b = "if params then ps_bind_param lib s t else (True, t)"
    let ?e = "ps_execute lib s (snd ?b)"
    let ?r = "ps_bind_result lib s (snd (guarded lib C_Field_Count s (snd ?e)))"
    let ?f = "fetch_client lib keep (replicate ncols []) rows s (snd ?r)"
    show ?thesis
    proof (cases "ps_valid s \<and> fst ?b \<and> fst ?e \<and> ncols \<noteq> 0 \<and> fst ?r")
      case True
      then have "fst (select_body lib keep ncols rows params s t) = fst ?f"
        by (simp add: select_body_def split_beta Let_def)
      with True fetch_client_prefix [of lib keep "replicate ncols []" rows s "snd ?r"] show ?thesis by simp
    next
      case False
      then have "fst (select_body lib keep ncols rows params s t) = []"
        by (cases "ps_valid s"; cases "fst ?b"; cases "fst ?e"; cases "ncols = 0")
          (simp_all add: select_body_def split_beta Let_def)
      then show ?thesis by (intro exI [of _ 0]) simp
    qed
  qed
  then show ?thesis by (simp add: select_client_def with_stmt_def split_beta Let_def)
qed


end
