(* ===== verification/Windows_Build.thy ===== *)
theory Windows_Build
  imports Exif_Daemon Http_Response Lifecycle
begin

text \<open>
  The \<open>_WIN32\<close> branches of \<open>src/src\<close>: \<open>_putenv_s\<close> in \<open>load_dotenv\<close> and the \<open>CopyFileA\<close> fallback of
  \<open>move_file\<close> (\<open>util.cpp\<close>), \<open>run_timed\<close> and \<open>shell_quote\<close> (\<open>converter.cpp\<close>), the stub of the ExifTool
  daemon (\<open>exiftool_daemon.cpp\<close>), and in \<open>api.cpp\<close> the single \<open>send\<close> of \<open>send_response\<close>, the \<open>recv\<close>
  without a time-out and Winsock's start and end. Where both builds
  promise the same, the branch is proved to keep the promise (\<open>file_mover\<close>, the quoting); where
  they differ, the difference is stated.
\<close>

section \<open>load_dotenv\<close>

text \<open>\<open>_putenv_s\<close> with an empty value removes the variable; an empty name is refused.\<close>

definition putenv_s :: "environ \<Rightarrow> string \<Rightarrow> string \<Rightarrow> environ" where
  "putenv_s env k v = (if k = [] then env else if v = [] then env(k := None) else env(k \<mapsto> v))"

definition dotenv_line_win :: "string \<Rightarrow> environ \<Rightarrow> environ" where
  "dotenv_line_win raw env =
     (case dotenv_entry raw of
        None \<Rightarrow> env
      | Some (k, v) \<Rightarrow> if env k = None then putenv_s env k v else env)"

definition load_dotenv_win :: "string option \<Rightarrow> environ \<Rightarrow> environ" where
  "load_dotenv_win txt env =
     (case txt of None \<Rightarrow> env | Some text \<Rightarrow> fold dotenv_line_win (getlines text) env)"

definition gives_empty :: "string \<Rightarrow> bool" where
  "gives_empty l \<longleftrightarrow> (case dotenv_entry l of None \<Rightarrow> False | Some (k, v) \<Rightarrow> v = [])"

lemma dotenv_line_agree: "\<not> gives_empty l \<Longrightarrow> dotenv_line_win l env = dotenv_line l env"
  by (auto simp: gives_empty_def dotenv_line_win_def dotenv_line_def putenv_s_def setenv_keep_def split: option.splits)

lemma fold_dotenv_agree:
  "\<forall>l \<in> set ls. \<not> gives_empty l \<Longrightarrow> fold dotenv_line_win ls env = fold dotenv_line ls env"
  by (induction ls arbitrary: env) (simp_all add: dotenv_line_agree)



text \<open>With an empty value they need not: a switch set to nothing is off on Linux, and the default on Windows.\<close>

theorem empty_switch_differs:
  "\<not> fast_fingerprint (LoadConfig (load_dotenv (Some ''FAST_FINGERPRINT='') Map.empty)) \<and>
   fast_fingerprint (LoadConfig (load_dotenv_win (Some ''FAST_FINGERPRINT='') Map.empty))"
  by code_simp

section \<open>move_file\<close>

text \<open>
  \<open>wn_left\<close>: what a failed \<open>CopyFileA\<close> leaves at the target, if it has changed it. A copy keeps the
  time of the source.
\<close>

record win_answers =
  wn_rename :: bool
  wn_copy :: bool
  wn_left :: "file_node option option"
  wn_remove :: bool

definition move_file_win :: "win_answers \<Rightarrow> path \<Rightarrow> path \<Rightarrow> fsys \<Rightarrow> bool \<times> fsys" where
  "move_file_win os src dst fs =
     (case files fs src of
        None \<Rightarrow> (False, fs)
      | Some f \<Rightarrow>
          if wn_rename os then (True, fs\<lparr>files := (files fs)(src := None, dst \<mapsto> f)\<rparr>)
          else if \<not> wn_copy os
          then (False, case wn_left os of None \<Rightarrow> fs | Some x \<Rightarrow> fs\<lparr>files := (files fs)(dst := x)\<rparr>)
          else let fs1 = fs\<lparr>files := (files fs)(dst \<mapsto> f)\<rparr>
               in if wn_remove os then (True, remove_file fs1 src) else (False, fs1))"

lemma move_file_win_cases:
  assumes "move_file_win os src dst fs = (ok, fs')" "src \<noteq> dst"
  shows "ok \<longrightarrow> content fs src \<noteq> None \<and> content fs' dst = content fs src \<and> content fs' src = None"
    "\<not> ok \<longrightarrow> content fs' src = content fs src"
  using assms by (auto simp: move_file_win_def content_def remove_file_def Let_def split: option.splits if_splits)

lemma move_file_win_frame:
  assumes "move_file_win os src dst fs = (ok, fs')"
  shows "p \<noteq> src \<longrightarrow> p \<noteq> dst \<longrightarrow> content fs' p = content fs p" "dirs fs' = dirs fs"
  using assms by (auto simp: move_file_win_def content_def remove_file_def Let_def split: option.splits if_splits)

interpretation win_mv: file_mover move_file_win
  by unfold_locales (use move_file_win_cases move_file_win_frame in metis)+

text \<open>
  Moving a file on Windows never loses its bytes: after a failed rename, copy or removal they
  are still at the source, after a move that succeeded they are at the target, and no third file
  has changed.
\<close>

theorem move_file_win_no_loss:
  assumes "src \<noteq> dst" "content fs src = Some bs" "move_file_win os src dst fs = (ok, fs')"
  shows "content fs' (if ok then dst else src) = Some bs \<and>
         (\<forall>p. p \<noteq> src \<longrightarrow> p \<noteq> dst \<longrightarrow> content fs' p = content fs p)"
  using win_mv.not_lost [OF assms] win_mv.others_kept [OF assms(3)] by auto

theorem move_file_win_no_loss_witness:
  "let os = \<lparr>wn_rename = False, wn_copy = False, wn_left = Some None, wn_remove = True\<rparr>;
       fs = \<lparr>files = [''a'' \<mapsto> \<lparr>f_data = [1, 2, 3], f_mtime = 0\<rparr>], dirs = {}\<rparr>
   in content (snd (move_file_win os ''a'' ''b'' fs)) ''a'' = Some [1, 2, 3]"
proof -
  define os where "os = \<lparr>wn_rename = False, wn_copy = False, wn_left = Some None, wn_remove = True\<rparr>"
  define fs where "fs = \<lparr>files = [''a'' \<mapsto> \<lparr>f_data = [1, 2, 3 :: byte], f_mtime = 0\<rparr>], dirs = {}\<rparr>"
  obtain ok fs' where m: "move_file_win os ''a'' ''b'' fs = (ok, fs')" by fastforce
  have "\<not> ok" using m by (simp add: move_file_win_def os_def fs_def)
  moreover have "content fs ''a'' = Some [1, 2, 3]" by (simp add: content_def fs_def)
  ultimately have "content (snd (move_file_win os ''a'' ''b'' fs)) ''a'' = Some [1, 2, 3]"
    using move_file_win_no_loss [of "''a''" "''b''" fs "[1, 2, 3]" os ok fs'] m by simp
  then show ?thesis by (simp add: os_def fs_def)
qed

section \<open>Running a command\<close>

text \<open>
  The process: not created, not ended in time (and then terminated), or ended, with the code of 32
  bits that is read (0 where it cannot be read).
\<close>

datatype win_child = Not_Created | Timed_Out | Finished "32 word"

definition run_timed_win :: "win_child \<Rightarrow> int" where
  "run_timed_win c = (case c of Not_Created \<Rightarrow> -1 | Timed_Out \<Rightarrow> -1 | Finished code \<Rightarrow> sint code)"

text \<open>What the engine and the embedder test: 0 is returned for a process that ended with 0 only.\<close>

lemma run_timed_win_zero: "run_timed_win c = 0 \<longleftrightarrow> c = Finished 0"
proof (cases c)
  case (Finished code)
  then show ?thesis by (simp add: run_timed_win_def signed_eq_0_iff)
qed (simp_all add: run_timed_win_def)

definition shell_quote_win :: "string \<Rightarrow> string" where
  "shell_quote_win s = CHR 0x22 # s @ [CHR 0x22]"

text \<open>
  How the C runtime reads a quoted argument: up to the next quote; of the backslashes
  before a quote every second one counts, and an odd number of them makes it a character.
\<close>

function win_arg :: "string \<Rightarrow> string \<Rightarrow> string \<times> string" where
  "win_arg w s =
     (let n = length (takeWhile (\<lambda>c. c = CHR 0x5C) s); t = drop n s
      in case t of
           [] \<Rightarrow> (w @ s, [])
         | c # cs \<Rightarrow>
             if c \<noteq> CHR 0x22 then win_arg (w @ replicate n (CHR 0x5C) @ [c]) cs
             else if even n then (w @ replicate (n div 2) (CHR 0x5C), cs)
             else win_arg (w @ replicate (n div 2) (CHR 0x5C) @ [c]) cs)"
  by pat_completeness auto
termination
proof (relation "measure (\<lambda>(w, s). length s)", goal_cases)
  case (2 w s n t c cs)
  then have "length (c # cs) \<le> length s" by (metis length_drop diff_le_self)
  then show ?case by simp
next
  case (3 w s n t c cs)
  then have "length (c # cs) \<le> length s" by (metis length_drop diff_le_self)
  then show ?case by simp
qed simp

declare win_arg.simps [simp del]

lemma takeWhile_upto: "\<not> P c \<Longrightarrow> takeWhile P (takeWhile P s @ c # ys) = takeWhile P s"
  by (induction s) auto

lemma win_arg_plain:
  "CHR 0x22 \<notin> set s \<Longrightarrow> s = [] \<or> last s \<noteq> CHR 0x5C \<Longrightarrow> win_arg w (s @ CHR 0x22 # rest) = (w @ s, rest)"
proof (induction "length s" arbitrary: w s rule: less_induct)
  case less
  let ?b = "takeWhile (\<lambda>c. c = CHR 0x5C) s" and ?t = "dropWhile (\<lambda>c. c = CHR 0x5C) s"
  have bs: "?b = replicate (length ?b) (CHR 0x5C)"
    by (rule replicate_eqI) (auto dest: set_takeWhileD)
  show ?case
  proof (cases "s = []")
    case True
    then show ?thesis by (simp add: win_arg.simps [of w])
  next
    case False
    have "?t \<noteq> []"
    proof
      assume "?t = []"
      then have "\<forall>c \<in> set s. c = CHR 0x5C" by simp
      with False less.prems(2) show False using last_in_set by blast
    qed
    then obtain c cs where t: "?t = c # cs" by (cases ?t) auto
    then have c: "c \<noteq> CHR 0x5C" using hd_dropWhile [of "\<lambda>c. c = CHR 0x5C" s] by simp
    have s: "s = ?b @ c # cs" using takeWhile_dropWhile_id [of "\<lambda>c. c = CHR 0x5C" s] t by simp
    have c2: "c \<noteq> CHR 0x22" "CHR 0x22 \<notin> set cs" using less.prems(1) s by (metis in_set_conv_decomp, metis Un_iff list.set_intros(2) set_append)
    have l: "cs = [] \<or> last cs \<noteq> CHR 0x5C" using less.prems(2) False s by (metis last_ConsR last_appendR list.distinct(1))
    have e: "s @ CHR 0x22 # rest = ?b @ c # cs @ CHR 0x22 # rest" using s by (metis append_Cons append_assoc)
    have tw: "takeWhile (\<lambda>c. c = CHR 0x5C) (s @ CHR 0x22 # rest) = ?b"
      unfolding e by (rule takeWhile_upto) (use c in simp)
    have dr: "drop (length ?b) (s @ CHR 0x22 # rest) = c # cs @ CHR 0x22 # rest"
      unfolding e by simp
    have "win_arg w (s @ CHR 0x22 # rest) = win_arg (w @ ?b @ [c]) (cs @ CHR 0x22 # rest)"
      using c2(1) bs by (subst win_arg.simps) (simp add: tw dr Let_def del: drop_append)
    also have "\<dots> = ((w @ ?b @ [c]) @ cs, rest)"
    proof (rule less.hyps [OF _ c2(2) l])
      show "length cs < length s" using arg_cong [OF s, of length] by simp
    qed
    also have "(w @ ?b @ [c]) @ cs = w @ s" using s by simp
    finally show ?thesis .
  qed
qed

text \<open>
  A quoted path is read back as the one argument it is, unless it ends in a backslash (a quote
  cannot be part of a Windows path).
\<close>

theorem shell_quote_win_one_argument:
  assumes "CHR 0x22 \<notin> set p" "p = [] \<or> last p \<noteq> CHR 0x5C"
  shows "win_arg [] (tl (shell_quote_win p) @ rest) = (p, rest)"
  using win_arg_plain [OF assms, of "[]" rest] by (simp add: shell_quote_win_def)

theorem shell_quote_win_one_argument_witness:
  "win_arg [] (tl (shell_quote_win (''D:'' @ [CHR 0x5C] @ ''my raw.nef'')) @ '' -f'') =
     (''D:'' @ [CHR 0x5C] @ ''my raw.nef'', '' -f'')"
  by (rule shell_quote_win_one_argument) code_simp+

theorem trailing_backslash_runs_on:
  "win_arg [] (tl (shell_quote_win (''D:'' @ [CHR 0x5C])) @ '' -f'') = (''D:'' @ CHR 0x22 # '' -f'', [])"
  by code_simp

section \<open>The ExifTool daemon and the socket\<close>

text \<open>The stub: never running, every command answered by the empty text.\<close>

definition daemon_win :: daemon where
  "daemon_win = no_daemon"

definition send_command_win :: "string \<Rightarrow> daemon \<Rightarrow> string \<times> daemon" where
  "send_command_win cmd d = ([], d)"

definition daemon_stop_win :: "daemon \<Rightarrow> daemon" where
  "daemon_stop_win d = d"

definition extract_date_win :: "(int \<Rightarrow> tm) \<Rightarrow> fsys \<Rightarrow> path \<Rightarrow> daemon \<Rightarrow> exif_result \<times> daemon" where
  "extract_date_win localtime fs p d = (exif_from_mtime localtime fs p, d)"

text \<open>
  The worker sees on Windows what it sees on Linux when the daemon could not be started: the
  same date, and a daemon that is still not running.
\<close>

theorem stub_is_daemon_not_running:
  "extract_date_win localtime fs p daemon_win = extract_date localtime write_ok reply fs p no_daemon"
  by (simp add: extract_date_win_def extract_date_def daemon_win_def no_daemon_def)

text \<open>One \<open>send\<close>, whose result (the number of bytes taken, or -1) is not looked at.\<close>

definition send_win :: "int \<Rightarrow> string \<Rightarrow> string" where
  "send_win n out = take (nat n) out"

text \<open>A short first write cuts the answer off, where the loop of the Linux build sends the rest.\<close>

theorem short_write_cuts_answer:
  assumes "0 < n 0" "n 0 < int (length out)" "\<And>j. 0 < n j"
  shows "send_loop n 0 out = out \<and> length (send_win (n 0) out) < length out"
proof -
  have "nat (n 0) < length out" using assms(1,2) by linarith
  with send_loop_all [of n 0 out] assms(3) show ?thesis by (simp add: send_win_def)
qed

theorem short_write_cuts_answer_witness:
  "send_loop (\<lambda>_. 4) 0 ''HTTP/1.1 200 OK'' = ''HTTP/1.1 200 OK'' \<and> send_win 4 ''HTTP/1.1 200 OK'' = ''HTTP''"
  using short_write_cuts_answer [of "\<lambda>_. 4" "''HTTP/1.1 200 OK''"] by (simp add: send_win_def)

section \<open>Receiving and Winsock\<close>

text \<open>
  The receive loop without a time-out: when the chunks that came are used up, with the request not
  complete and the connection not closed (an empty chunk), \<open>recv\<close> waits for ever.
\<close>

datatype win_read = Complete reading | Overflowed | Blocked

fun read_win :: "string list \<Rightarrow> reading \<Rightarrow> win_read" where
  "read_win [] r = (if rd_total r \<ge> 65536 then Complete r else Blocked)"
| "read_win (buf # bufs) r =
     (if rd_total r \<ge> 65536 \<or> buf = [] then Complete r
      else
        let req = rd_req r @ c_str buf;
            r1 = r\<lparr>rd_req := req, rd_total := rd_total r + length buf\<rparr>
        in case find_sub (crlf @ crlf) req of
             None \<Rightarrow> read_win bufs r1
           | Some hpos \<Rightarrow>
               let r2 = (if rd_done r then r1 else r1\<lparr>rd_done := True, rd_cl := content_length req\<rparr>);
                   need = int (hpos + 4) + rd_cl r2
               in if need > int64_max then Overflowed
                  else if int (length req) \<ge> need then Complete r2
                  else read_win bufs r2)"

definition no_reading :: reading where
  "no_reading = \<lparr>rd_req = [], rd_total = 0, rd_done = False, rd_cl = 0\<rparr>"

text \<open>Where it does not wait for ever, it reads what the Linux build reads.\<close>

lemma read_win_agrees:
  "read_win bufs r \<noteq> Blocked \<Longrightarrow> read_loop bufs r = (case read_win bufs r of Complete x \<Rightarrow> Some x | _ \<Rightarrow> None)"
  by (induction bufs r rule: read_win.induct) (auto simp: Let_def split: option.splits if_splits)

text \<open>The accept loop, which serves one connection after the other.\<close>

fun serve_win :: "accepted option list \<Rightarrow> api_state \<Rightarrow> api_result list \<times> api_state" where
  "serve_win [] s = ([], s)"
| "serve_win (None # cs) s = serve_win cs s"
| "serve_win (Some c # cs) s =
     (if read_win (ac_bufs c) no_reading = Blocked then ([], s)
      else let (r, s1) = serve_one c s
           in if is_reply r then (let (rs, s2) = serve_win cs s1 in (r # rs, s2)) else ([r], s1))"

text \<open>Without a blocking client both builds give the same answers.\<close>

theorem serve_win_agrees:
  assumes "\<forall>c. Some c \<in> set cs \<longrightarrow> read_win (ac_bufs c) no_reading \<noteq> Blocked"
  shows "serve_win cs s = serve cs s"
  using assms
proof (induction cs arbitrary: s)
  case (Cons x cs)
  then have "serve_win cs t = serve cs t" for t by simp
  with Cons.prems show ?case by (cases x) (simp_all add: split_beta)
qed simp

text \<open>
  One client that connects and says nothing stops the API of the Windows build: nobody after it is
  answered. The Linux build times out, answers 400 and goes on.
\<close>

theorem silent_client_stops_api:
  assumes "ac_bufs c = []"
  shows "serve_win (Some c # cs) s = ([], s) \<and>
         fst (serve (Some c # cs) s) = json_reply 400 (err ''empty'') # fst (serve cs (enter c s))"
  using assms
  by (simp add: no_reading_def serve_one_def read_request_def handle_def json_reply_def is_reply_def split_beta)

theorem silent_client_stops_api_witness:
  "fst (serve_win [Some (stats_conn\<lparr>ac_bufs := []\<rparr>), Some stats_conn] (api_demo [] two_imports)) = []"
  using silent_client_stops_api [of "stats_conn\<lparr>ac_bufs := []\<rparr>" "[Some stats_conn]"] by simp

text \<open>Winsock's own count of starts: every \<open>WSACleanup\<close> takes back one \<open>WSAStartup\<close>.\<close>

record win_net =
  wl_listener :: listener
  wl_started :: nat

definition api_Run_win :: "bool \<Rightarrow> bool \<Rightarrow> bool \<Rightarrow> bool \<Rightarrow> win_net \<Rightarrow> win_net" where
  "api_Run_win wsa sock bound listening n =
     (if \<not> wsa then n
      else n\<lparr>wl_started := wl_started n + 1, wl_listener := api_Run sock bound listening (wl_listener n)\<rparr>)"

definition api_Stop_win :: "bool \<Rightarrow> win_net \<Rightarrow> win_net option" where
  "api_Stop_win wakes n =
     (if ls_stop (wl_listener n) then Some n
      else map_option (\<lambda>l. n\<lparr>wl_listener := l, wl_started := wl_started n - 1\<rparr>) (api_Stop wakes (wl_listener n)))"

text \<open>
  Whatever fails in \<open>Run\<close>, the \<open>Stop\<close> after it, and the one in the destructor after that, leave
  Winsock started as often as before.
\<close>

theorem winsock_balanced:
  assumes "api_Stop_win True (api_Run_win wsa sock bound listening \<lparr>wl_listener = new_listener, wl_started = 0\<rparr>) = Some n"
  shows "wl_started n = 0 \<and> api_Stop_win True n = Some n"
  using assms by (auto simp: api_Stop_win_def api_Run_win_def api_Stop_def api_Run_def new_listener_def split: if_splits)

end
