(* ===== verification/Whole_Service.thy ===== *)
theory Whole_Service
  imports Import_Flow Lifecycle
begin

text \<open>
  The running service as a whole: the poll loop, the worker threads, the accept loop, the rotation
  worker and the reconversion thread of \<open>src/src/main.cpp\<close> take turns on one state. Turns of the
  threads come in any order and any number; a file being imported takes two turns, up to its
  sequence number and from there on, so that other threads come in between. What each part can do
  to the database is stated once (\<open>role\<close>), and what holds of the whole rests on that.
\<close>

section \<open>Importing a file in two turns\<close>

text \<open>A file a worker thread has a sequence number for: what the thread holds in its variables.\<close>

record started =
  st_answers :: answers
  st_path :: path
  st_hash :: string
  st_seq :: "int \<times> string"
  st_exif :: exif_result

text \<open>\<open>ProcessFile\<close> up to the sequence number.\<close>

definition begin_file :: "config \<Rightarrow> ('c, 'm) digest_scheme \<Rightarrow> answers \<Rightarrow> path \<Rightarrow> world \<Rightarrow> started option \<times> world" where
  "begin_file cfg D a p s =
     (let (h, s1) = hash_stage cfg D a p (on_met (inc_files_detected 1) s)
      in if h = [] then (None, move_to_dead_letter cfg a p s1)
         else
           let (dup, s2) = on_db (GetImportByHash h) s1
           in if dup \<noteq> None then (None, duplicate_stage cfg a p s2)
              else
                let ex = exif_stage a p (w_fs s2);
                    s3 = on_met (observe_exif_duration (a_rnd a) (a_dur a 2)) s2;
                    (sq, s4) = on_db (AllocateSequence (a_tok a)) s3;
                    s5 = on_met (observe_db_duration (a_rnd a) (a_dur a 3)) s4
                in if fst sq = 0 then (None, move_to_dead_letter cfg a p s5)
                   else (Some \<lparr>st_answers = a, st_path = p, st_hash = h, st_seq = sq, st_exif = ex\<rparr>, s5))"

text \<open>The rest: conversion, row, archive, or the failure path.\<close>

definition end_file :: "config \<Rightarrow> ('c, 'm) digest_scheme \<Rightarrow> started \<Rightarrow> world \<Rightarrow> world" where
  "end_file cfg D x s =
     (let a = st_answers x; p = st_path x;
          fld = build_folder_schema (cfg_folder_schema cfg) (ex_date (st_exif x))
      in on_pool (release_inflight p)
           (result_stage cfg D a p (st_hash x) (st_seq x) (st_exif x) fld
              (engine_stage cfg a p fld (snd (st_seq x)) s)))"

text \<open>Both turns without a gap are \<open>ProcessFile\<close>.\<close>

lemma ProcessFile_two_turns:
  "ProcessFile cfg D a p s =
     (case begin_file cfg D a p s of (None, s') \<Rightarrow> s' | (Some x, s') \<Rightarrow> end_file cfg D x s')"
  by (simp add: ProcessFile_def convert_stage_def begin_file_def end_file_def Let_def split_beta)

section \<open>The service\<close>

record running =
  rn_world :: world
  rn_threads :: nat
  rn_busy :: "started list"
  rn_scan :: int
  rn_pend :: pendings
  rn_out :: rot_world
  rn_up :: bool

text \<open>
  A turn of the poll loop, of a worker thread (taking a file, finishing a started one), of the
  accept loop, of the rotation worker, of the reconversion thread, and what other programs do to
  the files (cameras, the command \<open>rotation_cmd\<close> runs, users).
\<close>

datatype act =
    Poll int int "dir_entry list option"
  | Take answers
  | Finish nat
  | Accept accepted
  | Rotate int
  | Drain "engine_run option"
  | Outside "fsys \<Rightarrow> fsys"

definition on_world :: "(world \<Rightarrow> world) \<Rightarrow> running \<Rightarrow> running" where
  "on_world f s = s\<lparr>rn_world := f (rn_world s)\<rparr>"

definition take_turn :: "config \<Rightarrow> ('c, 'm) digest_scheme \<Rightarrow> answers \<Rightarrow> running \<Rightarrow> running" where
  "take_turn cfg D a s =
     (if rn_threads s \<le> length (rn_busy s) then s
      else case pop_file (w_pool (rn_world s)) of
             None \<Rightarrow> s
           | Some (p, w) \<Rightarrow>
               (case begin_file cfg D a p ((rn_world s)\<lparr>w_pool := w\<rparr>) of
                  (None, x) \<Rightarrow> s\<lparr>rn_world := on_pool (\<lambda>w. w\<lparr>active_workers := active_workers w - 1\<rparr>) x\<rparr>
                | (Some f, x) \<Rightarrow> s\<lparr>rn_world := x, rn_busy := rn_busy s @ [f]\<rparr>))"

definition finish_turn :: "config \<Rightarrow> ('c, 'm) digest_scheme \<Rightarrow> nat \<Rightarrow> running \<Rightarrow> running" where
  "finish_turn cfg D k s =
     (if length (rn_busy s) \<le> k then s
      else s\<lparr>rn_world := on_pool (\<lambda>w. w\<lparr>active_workers := active_workers w - 1\<rparr>)
               (end_file cfg D (rn_busy s ! k) (rn_world s)),
             rn_busy := take k (rn_busy s) @ drop (Suc k) (rn_busy s)\<rparr>)"

definition api_view :: "config \<Rightarrow> running \<Rightarrow> api_state" where
  "api_view cfg s = \<lparr>as_cfg = cfg, as_db = w_db (rn_world s), as_rot = Some (rn_pend s), as_alive = False,
     as_sha = (\<lambda>_. []), as_now = 0, as_metrics = []\<rparr>"

text \<open>The hash the handler computes is that of the file at that moment; a crash ends the service.\<close>

definition accept_turn :: "config \<Rightarrow> ('c, 'm) digest_scheme \<Rightarrow> accepted \<Rightarrow> running \<Rightarrow> running" where
  "accept_turn cfg D c s =
     (let (r, v) = serve_one (c\<lparr>ac_sha := sha256_file D (w_fs (rn_world s))\<rparr>) (api_view cfg s)
      in s\<lparr>rn_world := (rn_world s)\<lparr>w_db := as_db v\<rparr>,
           rn_pend := (case as_rot v of None \<Rightarrow> [] | Some pend \<Rightarrow> pend),
           rn_up := is_reply r\<rparr>)"

definition rotate_turn :: "config \<Rightarrow> int \<Rightarrow> running \<Rightarrow> running" where
  "rotate_turn cfg now s =
     (let (rest, w) = dispatch_due (rot_config cfg) now (rn_pend s) ((rn_out s)\<lparr>rw_db := w_db (rn_world s)\<rparr>)
      in s\<lparr>rn_world := (rn_world s)\<lparr>w_db := rw_db w\<rparr>, rn_pend := rest, rn_out := w\<rparr>)"

definition drain_turn :: "('c, 'm) digest_scheme \<Rightarrow> engine_run option \<Rightarrow> running \<Rightarrow> running" where
  "drain_turn D engine s =
     (case pop_reconvert (w_pool (rn_world s)) of
        None \<Rightarrow> s
      | Some (job, w) \<Rightarrow> s\<lparr>rn_world := reconvert_job D engine job ((rn_world s)\<lparr>w_pool := w\<rparr>)\<rparr>)"

definition poll_pool :: "config \<Rightarrow> int \<Rightarrow> int \<Rightarrow> dir_entry list option \<Rightarrow> running \<Rightarrow> running" where
  "poll_pool cfg now now2 listing s =
     (let (t, w) = poll_turn cfg now now2 listing (rn_scan s, w_pool (rn_world s))
      in s\<lparr>rn_scan := t, rn_world := (rn_world s)\<lparr>w_pool := w\<rparr>\<rparr>)"

fun turn :: "config \<Rightarrow> ('c, 'm) digest_scheme \<Rightarrow> act \<Rightarrow> running \<Rightarrow> running" where
  "turn cfg D (Poll now now2 listing) s = poll_pool cfg now now2 listing s"
| "turn cfg D (Take a) s = take_turn cfg D a s"
| "turn cfg D (Finish k) s = finish_turn cfg D k s"
| "turn cfg D (Accept c) s = accept_turn cfg D c s"
| "turn cfg D (Rotate now) s = rotate_turn cfg now s"
| "turn cfg D (Drain engine) s = drain_turn D engine s"
| "turn cfg D (Outside f) s = on_world (\<lambda>x. x\<lparr>w_fs := f (w_fs x)\<rparr>) s"

fun service_run :: "config \<Rightarrow> ('c, 'm) digest_scheme \<Rightarrow> act list \<Rightarrow> running \<Rightarrow> running" where
  "service_run cfg D [] s = s"
| "service_run cfg D (x # xs) s = (if rn_up s then service_run cfg D xs (turn cfg D x s) else s)"

text \<open>With nobody else at work, taking a file and finishing it is a worker's turn.\<close>

lemma take_finish_turn:
  assumes "rn_busy s = []" "0 < rn_threads s" "pop_file (w_pool (rn_world s)) = Some (p, w)"
  shows "rn_world (finish_turn cfg D 0 (take_turn cfg D a s)) = worker_turn cfg D a (rn_world s)"
  using assms ProcessFile_two_turns [of cfg D a p "(rn_world s)\<lparr>w_pool := w\<rparr>"]
  by (auto simp: take_turn_def finish_turn_def worker_turn_def split: option.split prod.split)

text \<open>The state in which \<open>main\<close> enters its waiting loop, \<open>now\<close> being when the poll thread starts.\<close>

definition launch :: "nat \<Rightarrow> int \<Rightarrow> fsys \<Rightarrow> db \<Rightarrow> rot_world \<Rightarrow> running" where
  "launch n now fs d out = \<lparr>rn_world = \<lparr>w_pool = empty_pool, w_fs = fs, w_db = d, w_met = initial_metrics\<rparr>,
     rn_threads = n, rn_busy = [], rn_scan = now - 3600 * 1000000000, rn_pend = [], rn_out = out, rn_up = True\<rparr>"

section \<open>What each part does to the database\<close>

text \<open>A database changed by the operations in \<open>A\<close> and by reads.\<close>

inductive op_run :: "(store_op \<Rightarrow> bool) \<Rightarrow> db \<Rightarrow> db \<Rightarrow> bool" for A where
  or_refl [simp, intro]: "op_run A d d"
| or_op: "op_run A d d1 \<Longrightarrow> store_step d1 op d2 \<Longrightarrow> A op \<Longrightarrow> op_run A d d2"
| or_read: "op_run A d d1 \<Longrightarrow> only_sent d1 d2 \<Longrightarrow> op_run A d d2"

lemma op_run_trans: "op_run A d1 d2 \<Longrightarrow> op_run A d d1 \<Longrightarrow> op_run A d d2"
  by (induction rule: op_run.induct) (auto intro: op_run.intros)

lemma op_run_mono: "op_run A d d' \<Longrightarrow> (\<And>op. A op \<Longrightarrow> B op) \<Longrightarrow> op_run B d d'"
  by (induction rule: op_run.induct) (auto intro: op_run.intros)

lemmas op_run_one = or_op [OF or_refl]
lemmas op_run_read = or_read [OF or_refl]

text \<open>The operations of each kind of turn.\<close>

fun role :: "act \<Rightarrow> store_op \<Rightarrow> bool" where
  "role (Take a) op = (case op of Op_Allocate tok \<Rightarrow> tok = a_tok a | Op_Alert _ _ _ _ \<Rightarrow> True | _ \<Rightarrow> False)"
| "role (Finish k) op = (case op of Op_Insert _ \<Rightarrow> True | Op_Alert _ _ _ _ \<Rightarrow> True | _ \<Rightarrow> False)"
| "role (Accept c) op = (case op of Op_Set_Output_Hash _ _ \<Rightarrow> True | Op_Preview_Edit _ _ _ _ _ _ _ \<Rightarrow> True
      | Op_Insert_Reconversion _ _ \<Rightarrow> True | _ \<Rightarrow> False)"
| "role (Rotate now) op = (case op of Op_Acquire _ w _ _ _ _ \<Rightarrow> w = ''rotation-mgr'' | Op_Release _ \<Rightarrow> True
      | Op_Set_Orientation _ _ \<Rightarrow> True | _ \<Rightarrow> False)"
| "role (Drain engine) op = (case op of Op_Set_Output_Hash _ _ \<Rightarrow> True | Op_Update_Reconversion _ _ _ \<Rightarrow> True | _ \<Rightarrow> False)"
| "role (Poll now now2 listing) op = False"
| "role (Outside f) op = False"

lemma dead_letter_ops: "A = (\<lambda>op. case op of Op_Alert _ _ _ _ \<Rightarrow> True | _ \<Rightarrow> False) \<Longrightarrow>
    op_run A (w_db s) (w_db (move_to_dead_letter cfg a p s))"
proof -
  assume A: "A = (\<lambda>op. case op of Op_Alert _ _ _ _ \<Rightarrow> True | _ \<Rightarrow> False)"
  have "op_run A d (snd (InsertAlert sv c m f d))" for d sv c m f
    by (rule op_run_one [OF s_alert [OF prod.collapse [symmetric]]]) (simp add: A)
  then show ?thesis by (auto simp: move_to_dead_letter_def Let_def split_beta)
qed

lemma begin_file_ops: "op_run (role (Take a)) (w_db s) (w_db (snd (begin_file cfg D a p s)))"
proof -
  let ?A = "role (Take a)"
  define h where "h = fst (hash_stage cfg D a p (on_met (inc_files_detected 1) s))"
  define s1 where "s1 = snd (hash_stage cfg D a p (on_met (inc_files_detected 1) s))"
  have s1: "w_db s1 = w_db s" by (simp add: s1_def)
  define s2 where "s2 = snd (on_db (GetImportByHash h) s1)"
  have s2: "op_run ?A (w_db s) (w_db s2)"
    using op_run_read [OF reads_only_sent(2)] by (simp add: s2_def s1)
  have dead: "op_run ?A (w_db x) (w_db (move_to_dead_letter cfg a p x))" for x
    by (rule op_run_mono [OF dead_letter_ops [OF refl]]) (simp split: store_op.splits)
  have dup: "w_db (duplicate_stage cfg a p s2) = w_db s2" by (simp add: duplicate_stage_def Let_def)
  obtain sq d where al: "AllocateSequence (a_tok a) (w_db s2) = (sq, d)" by fastforce
  have "op_run ?A (w_db s2) d" by (rule op_run_one [OF s_alloc [OF al]]) simp
  then have d: "op_run ?A (w_db s) d" using s2 op_run_trans by blast
  define s5 where "s5 = on_met (observe_db_duration (a_rnd a) (a_dur a 3))
      (snd (on_db (AllocateSequence (a_tok a)) (on_met (observe_exif_duration (a_rnd a) (a_dur a 2)) s2)))"
  have s5: "w_db s5 = d" by (simp add: s5_def al)
  have "w_db (snd (begin_file cfg D a p s)) =
      (if h = [] then w_db (move_to_dead_letter cfg a p s1)
       else if fst (on_db (GetImportByHash h) s1) \<noteq> None then w_db s2
       else if fst sq = 0 then w_db (move_to_dead_letter cfg a p s5) else d)"
    by (simp add: begin_file_def split_beta Let_def h_def [symmetric] s1_def [symmetric] s2_def [symmetric]
        s5_def [symmetric] s5 dup al)
  then show ?thesis
    using dead [of s1] s1 s2 d op_run_trans [OF dead [of s5]] s5 by auto
qed

lemma end_file_ops: "op_run (role (Finish k)) (w_db s) (w_db (end_file cfg D x s))"
proof -
  let ?A = "role (Finish k)"
  define fld where "fld = build_folder_schema (cfg_folder_schema cfg) (ex_date (st_exif x))"
  obtain ok s1 where e: "engine_stage cfg (st_answers x) (st_path x) fld (snd (st_seq x)) s = (ok, s1)" by fastforce
  have s1: "w_db s1 = w_db s" using engine_stage_db [of cfg "st_answers x" "st_path x" fld "snd (st_seq x)" s] e by simp
  have dead: "op_run ?A (w_db y) (w_db (move_to_dead_letter cfg a p y))" for y a p
    by (rule op_run_mono [OF dead_letter_ops [OF refl]]) (simp split: store_op.splits)
  have ins: "op_run ?A d (snd (InsertImport r d))" for r d
    by (rule op_run_one [OF s_insert [OF prod.collapse [symmetric]]]) simp
  show ?thesis
  proof (cases ok)
    case True
    with e ins s1 show ?thesis
      by (simp add: end_file_def Let_def fld_def [symmetric] result_stage_def)
  next
    case False
    with e dead [of "on_met (inc_conversions_completed ''failed'' 1) s1"] s1 show ?thesis
      by (simp add: end_file_def Let_def fld_def [symmetric] result_stage_def)
  qed
qed

subsection \<open>The API\<close>

text \<open>A handler's effect on the database.\<close>

definition api_ops :: "api_state \<Rightarrow> api_state \<Rightarrow> bool" where
  "api_ops s s' \<longleftrightarrow> op_run (role (Accept undefined)) (as_db s) (as_db s')"

lemma api_ops_reads: "reads s s' \<Longrightarrow> api_ops s s'"
  by (simp add: reads_def api_ops_def op_run_read)

lemma api_ops_refl [simp]: "api_ops s s"
  by (simp add: api_ops_def)

lemma api_ops_db:
  assumes "api_ops s s1" "op_run (role (Accept undefined)) (as_db s1) (snd (f (as_db s1)))"
  shows "api_ops s (snd (api_db f s1))"
  using op_run_trans [OF assms(2)] assms(1) by (simp add: api_ops_def)

lemma api_write:
  "op_run (role (Accept c)) d (snd (UpdateOutputHash i h d))"
  "op_run (role (Accept c)) d (snd (RecordPreviewEdit i w p n wd ht q d))"
  "op_run (role (Accept c)) d (snd (InsertReconversion i job d))"
  by (rule op_run_one [OF s_hash [OF prod.collapse [symmetric]]]
      op_run_one [OF s_preview [OF prod.collapse [symmetric]]]
      op_run_one [OF s_reconv [OF prod.collapse [symmetric]]], simp)+

lemma api_lookup:
  "api_ops s (snd (api_db (GetImportBySequence x) s))" "api_ops s (snd (api_db (GetImportByOutputPath x) s))"
  "api_ops s (snd (api_db (GetImportBySourcePath x) s))" "api_ops s (snd (api_db (GetImportByHash x) s))"
  "api_ops s (snd (api_db GetStats s))"
  by (intro api_ops_db api_ops_refl op_run_read reads_only_sent)+

lemma api_reconvert_ops: "api_ops s (snd (api_reconvert rq s))"
proof -
  have wr: "api_ops s (snd (api_db (InsertReconversion i job) (snd (api_db (GetImportBySequence x) s))))" for i job x
    by (intro api_ops_db api_lookup(1) api_write)
  have eq: "snd (api_reconvert rq s) \<in> {snd (api_db (GetImportBySequence x) s) |x. True} \<union>
      {snd (api_db (InsertReconversion i job) (snd (api_db (GetImportBySequence x) s))) |i job x. True}"
    by (simp add: api_reconvert_def Let_def split_beta split: option.split) blast
  with wr api_lookup(1) show ?thesis by auto
qed

lemma api_preview_ops: "api_ops s (snd (api_preview_updated rq s))"
proof -
  let ?s1 = "\<lambda>x. snd (api_db (GetImportByOutputPath x) s)"
  let ?s3 = "\<lambda>x i h w p n wd ht q. snd (api_db (RecordPreviewEdit i w p n wd ht q) (snd (api_db (UpdateOutputHash i h) (?s1 x))))"
  have wr: "api_ops s (?s3 x i h w p n wd ht q)" for x i h w p n wd ht q
    by (intro api_ops_db api_lookup(2) api_write)
  have eq: "snd (api_preview_updated rq s) \<in> {s} \<union> {?s1 x |x. True} \<union> {?s3 x i h w p n wd ht q |x i h w p n wd ht q. True}"
    by (simp add: api_preview_updated_def Let_def split_beta split: option.split) blast
  with wr api_lookup(2) show ?thesis by auto
qed

lemma api_rotation_ops: "api_ops s (snd (api_rotation_updated rq s))"
proof -
  have q: "api_ops s (s1\<lparr>as_rot := q\<rparr>)" if "api_ops s s1" for s1 q
    using that by (simp add: api_ops_def)
  show ?thesis
    using api_lookup(3) [of s] q [OF api_lookup(3) [of s]]
    by (auto simp: api_rotation_updated_def Let_def split_beta split: option.split sum.split prod.split)
qed

lemma handle_ops: "api_ops s (snd (handle req s))"
proof -
  have "api_ops s (snd (route rq s))" for rq
    using api_reconvert_ops [of s rq] api_preview_ops [of s rq] api_rotation_ops [of s rq] api_lookup [of s]
      api_ops_reads [OF api_list_reads [of s rq]]
    by (simp add: route_def record_reply_reads api_ready_def api_stats_def split_beta Let_def)
  then show ?thesis by (auto simp: handle_def Let_def split: option.split)
qed

lemma accept_turn_ops: "op_run (role (Accept c)) (w_db (rn_world s)) (w_db (rn_world (accept_turn cfg D c s)))"
proof -
  let ?c = "c\<lparr>ac_sha := sha256_file D (w_fs (rn_world s))\<rparr>"
  have "api_ops (api_view cfg s) (snd (serve_one ?c (api_view cfg s)))"
    using handle_ops [of "enter ?c (api_view cfg s)"]
    by (auto simp: serve_one_def api_ops_def enter_def split: option.split)
  then show ?thesis
    by (simp add: accept_turn_def split_beta api_ops_def api_view_def) (erule op_run_mono, simp)
qed

subsection \<open>The rotation worker\<close>

lemma rotate_writes:
  "op_run (role (Rotate t)) (rw_db s) (rw_db (snd (acquire_rot i s)))"
  "op_run (role (Rotate t)) (rw_db s) (rw_db (rot_on_db (UpdateOrientation i o') s))"
  "op_run (role (Rotate t)) (rw_db s) (rw_db (rot_on_db (ReleaseLock i) s))"
  unfolding acquire_rot_def rot_on_db_def
  by (simp add: split_beta del: role.simps,
      rule op_run_one [OF s_acquire [OF prod.collapse [symmetric]]]
        op_run_one [OF s_orient [OF prod.collapse [symmetric]]]
        op_run_one [OF s_release [OF prod.collapse [symmetric]]], simp)+

lemma dispatch_ops: "op_run (role (Rotate t)) (rw_db s) (rw_db (Dispatch rc i rot s))"
proof -
  let ?A = "role (Rotate t)"
  note acq = rotate_writes(1) and ori = rotate_writes(2) and rel = rotate_writes(3)
  have sys: "rw_db (snd (run_system cmd s)) = rw_db s" for cmd s by (simp add: run_system_def Let_def)
  define s1 where "s1 = snd (acquire_rot i s)"
  define s2 where "s2 = snd (run_system (rotation_cmd rc rot) s1)"
  define s3 where "s3 = (if fst (run_system (rotation_cmd rc rot) s1) \<noteq> 0 then s2
      else rot_on_db (UpdateOrientation i (pr_orientation rot)) s2)"
  define s5 where "s5 = (let s4 = (if rc_immich rc \<noteq> [] then snd (run_system (immich_cmd rc) s3) else s3)
      in if rc_digikam rc then snd (run_system ''touch /tmp/digikam_rescan.trigger'' s4) else s4)"
  have db: "rw_db s2 = rw_db s1" "rw_db s5 = rw_db s3" by (simp_all add: s2_def s5_def sys Let_def)
  have "op_run ?A (rw_db s1) (rw_db s3)" using ori [where s = s2] db by (simp add: s3_def del: role.simps)
  then have "op_run ?A (rw_db s) (rw_db s3)" using acq [where s = s] op_run_trans s1_def by metis
  then have "op_run ?A (rw_db s) (rw_db (rot_on_db (ReleaseLock i) s5))"
    using rel [where s = s5] db(2) op_run_trans by metis
  moreover have "Dispatch rc i rot s = (if fst (acquire_rot i s) then rot_on_db (ReleaseLock i) s5 else s1)"
    unfolding Dispatch_def by (simp add: split_beta Let_def s1_def s2_def s3_def s5_def)
  ultimately show ?thesis using acq [where s = s] by (simp add: s1_def del: role.simps)
qed

lemma dispatch_due_ops: "op_run (role (Rotate t)) (rw_db s) (rw_db (snd (dispatch_due rc now pend s)))"
proof (induction rc now pend s rule: dispatch_due.induct)
  case (2 rc now i rot pend s)
  then show ?case using op_run_trans [OF _ dispatch_ops [of t s rc i rot]] by (simp add: split_beta del: role.simps)
qed simp

subsection \<open>Reconversion\<close>

lemma reconvert_job_ops: "op_run (role (Drain e)) (w_db s) (w_db (reconvert_job D engine job s))"
proof -
  let ?A = "role (Drain e)"
  let ?d1 = "snd (GetImportById (job_import_id job) (w_db s))"
  have rd: "op_run ?A (w_db s) ?d1"
    by (rule op_run_read) (auto simp: only_sent_def GetImportById_def send_def Let_def split: option.split)
  have upd: "op_run ?A d (snd (UpdateOutputHash i h d))" for i h d
    by (rule op_run_one [OF s_hash [OF prod.collapse [symmetric]]]) simp
  have rc: "op_run ?A d (snd (UpdateReconversion r h st d))" for r h st d
    by (rule op_run_one [OF s_reconv_upd [OF prod.collapse [symmetric]]]) simp
  have "w_db (reconvert_job D engine job s) \<in> {?d1} \<union> {snd (UpdateReconversion r h st ?d1) |r h st. True} \<union>
      {snd (UpdateReconversion r h st (snd (UpdateOutputHash i h ?d1))) |r h st i. True}"
    by (simp add: reconvert_job_def Let_def split_beta split: option.split) blast
  then show ?thesis
    using rd op_run_trans [OF rc rd] op_run_trans [OF rc op_run_trans [OF upd rd]] by auto
qed

subsection \<open>Any turn\<close>

text \<open>A taken file: none, ended at once, or started.\<close>

lemma take_turn_cases:
  obtains (idle) "take_turn cfg D a s = s"
  | (ended) p w y where "pop_file (w_pool (rn_world s)) = Some (p, w)"
      "begin_file cfg D a p ((rn_world s)\<lparr>w_pool := w\<rparr>) = (None, y)"
      "take_turn cfg D a s = s\<lparr>rn_world := on_pool (\<lambda>w. w\<lparr>active_workers := active_workers w - 1\<rparr>) y\<rparr>"
  | (started) p w f y where "pop_file (w_pool (rn_world s)) = Some (p, w)" "length (rn_busy s) < rn_threads s"
      "begin_file cfg D a p ((rn_world s)\<lparr>w_pool := w\<rparr>) = (Some f, y)"
      "take_turn cfg D a s = s\<lparr>rn_world := y, rn_busy := rn_busy s @ [f]\<rparr>"
proof (cases "rn_threads s \<le> length (rn_busy s) \<or> pop_file (w_pool (rn_world s)) = None")
  case True
  then show ?thesis by (intro idle) (auto simp: take_turn_def)
next
  case False
  then obtain p w where pw: "pop_file (w_pool (rn_world s)) = Some (p, w)" by auto
  obtain f y where b: "begin_file cfg D a p ((rn_world s)\<lparr>w_pool := w\<rparr>) = (f, y)" by fastforce
  show ?thesis
  proof (cases f)
    case None
    with False pw b show ?thesis by (intro ended) (auto simp: take_turn_def)
  next
    case (Some x)
    with False pw b show ?thesis by (intro started) (auto simp: take_turn_def)
  qed
qed

text \<open>Every turn changes the database by the operations of its role only.\<close>

lemma turn_ops: "op_run (role x) (w_db (rn_world s)) (w_db (rn_world (turn cfg D x s)))"
proof (cases x)
  case (Poll now now2 listing)
  then show ?thesis by (simp add: poll_pool_def split_beta)
next
  case (Take a)
  show ?thesis
  proof (cases rule: take_turn_cases [where cfg = cfg and D = D and a = a and s = s])
    case idle
    with Take show ?thesis by simp
  next
    case (ended p w y)
    with Take begin_file_ops [of a "(rn_world s)\<lparr>w_pool := w\<rparr>" cfg D p] show ?thesis by (simp del: role.simps)
  next
    case (started p w f y)
    with Take begin_file_ops [of a "(rn_world s)\<lparr>w_pool := w\<rparr>" cfg D p] show ?thesis by (simp del: role.simps)
  qed
next
  case (Finish k)
  with end_file_ops [of k "rn_world s" cfg D "rn_busy s ! k"] show ?thesis
    by (simp add: finish_turn_def del: role.simps)
next
  case (Accept c)
  with accept_turn_ops [of c s cfg D] show ?thesis by (simp del: role.simps)
next
  case (Rotate now)
  with dispatch_due_ops [of now "(rn_out s)\<lparr>rw_db := w_db (rn_world s)\<rparr>" "rot_config cfg" now "rn_pend s"]
  show ?thesis by (simp add: rotate_turn_def split_beta del: role.simps)
next
  case (Drain e)
  have "op_run (role (Drain e)) (w_db (rn_world s)) (w_db (reconvert_job D e job ((rn_world s)\<lparr>w_pool := w\<rparr>)))" for job w
    using reconvert_job_ops [of e "(rn_world s)\<lparr>w_pool := w\<rparr>" D e job] by (simp del: role.simps)
  with Drain show ?thesis by (auto simp: drain_turn_def simp del: role.simps split: option.split)
next
  case (Outside f)
  then show ?thesis by (simp add: on_world_def)
qed

section \<open>Reconversion requests are never carried out\<close>

text \<open>New reconversion rows are pending ones, the old ones stay as they are.\<close>

definition keeps_jobs :: "db \<Rightarrow> db \<Rightarrow> bool" where
  "keeps_jobs d d' \<longleftrightarrow>
     (\<exists>new. reconversions d' = reconversions d @ new \<and> (\<forall>r \<in> set new. rc_status r = ''pending'' \<and> rc_new r = None))"

lemma keeps_jobs_same: "reconversions d' = reconversions d \<Longrightarrow> keeps_jobs d d'"
  by (simp add: keeps_jobs_def)

lemma keeps_jobs_trans:
  assumes "keeps_jobs d d1" "keeps_jobs d1 d2"
  shows "keeps_jobs d d2"
proof -
  obtain n1 where n1: "reconversions d1 = reconversions d @ n1" "\<forall>r \<in> set n1. rc_status r = ''pending'' \<and> rc_new r = None"
    using assms(1) by (auto simp: keeps_jobs_def)
  obtain n2 where n2: "reconversions d2 = reconversions d1 @ n2" "\<forall>r \<in> set n2. rc_status r = ''pending'' \<and> rc_new r = None"
    using assms(2) by (auto simp: keeps_jobs_def)
  from n1 n2 show ?thesis unfolding keeps_jobs_def by (intro exI [of _ "n1 @ n2"]) auto
qed

lemma store_step_jobs:
  assumes "store_step d op d'" "\<forall>r h st. op \<noteq> Op_Update_Reconversion r h st"
  shows "keeps_jobs d d'"
  using assms(1)
proof cases
  case (s_alloc tok r)
  with AllocateSequence_rest [of d tok] show ?thesis by (intro keeps_jobs_same) (simp add: same_rest_def)
next
  case (s_reconv i job r)
  then show ?thesis by (auto simp: InsertReconversion_def send_def Let_def keeps_jobs_def split: option.splits if_splits)
qed (use assms(2) in \<open>auto intro!: keeps_jobs_same simp: side_ops InsertImport_def UpdateOutputHash_def
  UpdateOrientation_def update_import_def split: if_splits option.splits prod.splits\<close>)

lemma op_run_jobs:
  "op_run A d d' \<Longrightarrow> (\<And>r h st. \<not> A (Op_Update_Reconversion r h st)) \<Longrightarrow> keeps_jobs d d'"
proof (induction rule: op_run.induct)
  case (or_op d d1 op d2)
  then show ?case using store_step_jobs keeps_jobs_trans by metis
next
  case (or_read d d1 d2)
  then have "reconversions d2 = reconversions d1" by (auto simp: only_sent_def)
  with or_read keeps_jobs_trans keeps_jobs_same show ?case by metis
qed (simp add: keeps_jobs_same)

text \<open>Nothing but \<open>QueueReconvert\<close> fills the queue of the reconversion thread, and no part calls it.\<close>

lemma reconverts_pool_ops:
  "reconverts (clear_failures p w) = reconverts w" "reconverts (release_inflight p w) = reconverts w"
  "reconverts (evict_fp_cache w) = reconverts w" "reconverts (snd (snd (bump_failure cfg p w))) = reconverts w"
  "pop_file w = Some (q, w') \<Longrightarrow> reconverts w' = reconverts w"
  by (auto simp: clear_failures_def release_inflight_def evict_fp_cache_def bump_failure_def pop_file_def Let_def
      split: list.splits)

lemma dead_letter_reconverts: "reconverts (w_pool (move_to_dead_letter cfg a p s)) = reconverts (w_pool s)"
  by (simp add: move_to_dead_letter_def Let_def split_beta reconverts_pool_ops)

lemma begin_file_reconverts: "reconverts (w_pool (snd (begin_file cfg D a p s))) = reconverts (w_pool s)"
proof -
  have "reconverts (w_pool (snd (hash_stage cfg D a p x))) = reconverts (w_pool x)" for x
    by (auto simp: hash_stage_def Let_def reconverts_pool_ops split: option.split)
  moreover have "reconverts (w_pool (duplicate_stage cfg a p x)) = reconverts (w_pool x)" for x
    by (simp add: duplicate_stage_def Let_def reconverts_pool_ops)
  ultimately show ?thesis by (simp add: begin_file_def Let_def split_beta dead_letter_reconverts)
qed

lemma end_file_reconverts: "reconverts (w_pool (end_file cfg D x s)) = reconverts (w_pool s)"
  by (simp add: end_file_def Let_def split_beta result_stage_def reconverts_pool_ops dead_letter_reconverts
      engine_stage_pool)

lemma poll_pool_reconverts: "reconverts (w_pool (rn_world (poll_pool cfg now now2 es s))) = reconverts (w_pool (rn_world s))"
proof -
  have "reconverts (poll_scan cfg now es w) = reconverts w" for es w
    unfolding poll_scan_def by (induction es arbitrary: w) (auto simp: poll_entry_def Let_def split: option.split)
  then show ?thesis by (simp add: poll_pool_def poll_turn_def cleanup_seen_ttl_def Let_def split: option.split)
qed

lemma turn_no_jobs:
  assumes "reconverts (w_pool (rn_world s)) = []"
  shows "reconverts (w_pool (rn_world (turn cfg D x s))) = [] \<and> keeps_jobs (w_db (rn_world s)) (w_db (rn_world (turn cfg D x s)))"
proof (cases "\<exists>e. x = Drain e")
  case True
  with assms show ?thesis by (auto simp: drain_turn_def pop_reconvert_def keeps_jobs_same)
next
  case False
  then have "\<not> role x (Op_Update_Reconversion r h st)" for r h st by (cases x) auto
  then have jobs: "keeps_jobs (w_db (rn_world s)) (w_db (rn_world (turn cfg D x s)))"
    by (rule op_run_jobs [OF turn_ops])
  have "reconverts (w_pool (rn_world (turn cfg D x s))) = []"
  proof (cases x)
    case (Take a)
    show ?thesis
    proof (cases rule: take_turn_cases [where cfg = cfg and D = D and a = a and s = s])
      case (ended p w y)
      with Take assms begin_file_reconverts [of cfg D a p "(rn_world s)\<lparr>w_pool := w\<rparr>"] reconverts_pool_ops(5) [OF ended(1)]
      show ?thesis by simp
    next
      case (started p w f y)
      with Take assms begin_file_reconverts [of cfg D a p "(rn_world s)\<lparr>w_pool := w\<rparr>"] reconverts_pool_ops(5) [OF started(1)]
      show ?thesis by simp
    qed (use Take assms in simp)
  qed (use assms False in \<open>simp_all add: poll_pool_reconverts finish_turn_def end_file_reconverts accept_turn_def
      rotate_turn_def on_world_def split_beta\<close>)
  with jobs show ?thesis by blast
qed

text \<open>
  C25: A reconversion a client asks for is never carried out: from an empty queue, however long the
  service runs and whatever the requests, workers, rotations and polls do, the rows of the
  \<open>reconversions\<close> table stay as they are and every new one stays \<open>pending\<close>, without a new hash.
\<close>

theorem reconversions_never_run:
  assumes "reconverts (w_pool (rn_world s)) = []"
  shows "\<exists>new. reconversions (w_db (rn_world (service_run cfg D xs s))) = reconversions (w_db (rn_world s)) @ new \<and>
           (\<forall>r \<in> set new. rc_status r = ''pending'' \<and> rc_new r = None)"
proof -
  have "keeps_jobs (w_db (rn_world s)) (w_db (rn_world (service_run cfg D xs s)))"
    using assms
  proof (induction xs arbitrary: s)
    case (Cons x xs)
    then show ?case using turn_no_jobs [OF Cons.prems] keeps_jobs_trans by (simp add: keeps_jobs_same) blast
  qed (simp add: keeps_jobs_same)
  then show ?thesis by (simp add: keeps_jobs_def)
qed

text \<open>A pending request, with an engine at hand and time for the reconversion thread to drain its queue.\<close>

definition pending_db :: db where
  "pending_db = snd (InsertReconversion 1 new_job two_imports)"

definition demo_running :: "db \<Rightarrow> running" where
  "demo_running d = \<lparr>rn_world = (demo_world good_server)\<lparr>w_db := d\<rparr>, rn_threads = 2, rn_busy = [], rn_scan = 0,
     rn_pend = [], rn_out = rot_demo d (\<lambda>_. 0), rn_up = True\<rparr>"

theorem reconversions_never_run_witness:
  "\<exists>r rs. reconversions (w_db (rn_world (service_run default_config concat_digest
      [Drain (Some demo_engine), Poll 0 0 (Some [(demo_path, True, 60)]), Take demo_answers, Finish 0,
       Drain (Some demo_engine)] (demo_running pending_db)))) = r # rs \<and> rc_status r = ''pending''"
proof -
  have one: "map rc_status (reconversions pending_db) = [''pending'']"
    unfolding pending_db_def two_imports_def example_db_def by code_simp
  have "reconverts (w_pool (rn_world (demo_running pending_db))) = []"
    by (simp add: demo_running_def demo_world_def empty_pool_def)
  from reconversions_never_run [OF this, of default_config concat_digest "[Drain (Some demo_engine),
      Poll 0 0 (Some [(demo_path, True, 60)]), Take demo_answers, Finish 0, Drain (Some demo_engine)]"]
  obtain new where "reconversions (w_db (rn_world (service_run default_config concat_digest
      [Drain (Some demo_engine), Poll 0 0 (Some [(demo_path, True, 60)]), Take demo_answers, Finish 0,
       Drain (Some demo_engine)] (demo_running pending_db)))) = reconversions pending_db @ new"
    by (auto simp: demo_running_def simp del: service_run.simps)
  moreover obtain r where "reconversions pending_db = [r]" "rc_status r = ''pending''" using one by auto
  ultimately show ?thesis by simp
qed

section \<open>Clients without the token\<close>

text \<open>The run with the connections of such clients taken out.\<close>

fun anonymous_act :: "string \<Rightarrow> act \<Rightarrow> bool" where
  "anonymous_act token (Accept c) = anonymous token c"
| "anonymous_act token _ = False"

lemma anonymous_turn:
  assumes "api_token cfg \<noteq> []" "anonymous_act (api_token cfg) x" "rn_up s"
  shows "turn cfg D x s = s"
proof -
  obtain c where c: "x = Accept c" "anonymous (api_token cfg) c"
    using assms(2) by (cases x) auto
  let ?c = "c\<lparr>ac_sha := sha256_file D (w_fs (rn_world s))\<rparr>"
  have "anonymous (api_token cfg) ?c" using c(2) by (simp add: anonymous_def)
  from serve_one_anonymous [of "api_view cfg s" ?c] this assms(1)
  have "snd (serve_one ?c (api_view cfg s)) = enter ?c (api_view cfg s)" "is_reply (fst (serve_one ?c (api_view cfg s)))"
    by (simp_all add: api_view_def)
  with c(1) assms(3) show ?thesis
    by (simp add: accept_turn_def split_beta enter_def api_view_def)
qed



section \<open>The whole service is import traffic\<close>

text \<open>Operations that touch no number and add no row are steps of the traffic that change no grant.\<close>

lemma op_run_traffic:
  "op_run A d d' \<Longrightarrow> (\<And>tok r. \<not> A (Op_Allocate tok) \<and> \<not> A (Op_Insert r)) \<Longrightarrow> import_reach (d, G) (d', G)"
proof (induction rule: op_run.induct)
  case (or_op d d1 op d2)
  have "import_step (d1, G) (d2, G)" by (rule t_other [OF or_op(2)]) (use or_op(3,5) in auto)
  with or_op show ?case by (auto intro: ir_step)
next
  case (or_read d d1 d2)
  then show ?case by (auto intro: ir_step t_read)
qed (rule ir_start)

definition grants_below :: "traffic \<Rightarrow> bool" where
  "grants_below x \<longleftrightarrow> db_wf (fst x) \<and> (\<forall>g \<in> snd x. fst g < seq_next (fst x))"

lemma store_step_next: "store_step d op d' \<Longrightarrow> db_wf d \<Longrightarrow> seq_next d \<le> seq_next d'"
  using store_step_grows by (simp add: grows_def)

lemma import_step_below:
  assumes "import_step x y" "grants_below x"
  shows "grants_below y"
proof -
  have wf: "db_wf (fst y)" using import_step_frame [OF assms(1)] assms(2) by (simp add: grants_below_def)
  from assms(1) show ?thesis
  proof cases
    case (t_alloc tok d n name d' G)
    have wf0: "db_wf d" using assms(2) t_alloc(1) by (simp add: grants_below_def)
    have "seq_next d \<le> seq_next d'" using alloc_seq.nxt_mono [OF wf0, of tok] t_alloc(3) by simp
    moreover have "n < seq_next d'" if "n \<noteq> 0" using alloc_seq.allocated [OF wf0 t_alloc(3) that] by simp
    ultimately show ?thesis using assms(2) wf t_alloc(1,2) by (fastforce simp: grants_below_def)
  next
    case (t_insert sq G cfg p h fld oh ex d i d')
    with InsertImport_seq_next [OF t_insert(4)] assms(2) wf show ?thesis by (auto simp: grants_below_def)
  next
    case (t_other d op d' G)
    with store_step_next [OF t_other(3)] assms(2) wf show ?thesis by (fastforce simp: grants_below_def)
  next
    case (t_read d d' G)
    with assms(2) wf show ?thesis by (auto simp: grants_below_def only_sent_def)
  qed
qed

lemma import_reach_below: "import_reach x y \<Longrightarrow> grants_below x \<Longrightarrow> grants_below y"
  by (induction rule: import_reach.induct) (auto intro: import_step_below)

text \<open>The first turn on a file leaves a new grant, or none; the second uses its grant, or drops it.\<close>

lemma begin_file_traffic:
  assumes "begin_file cfg D a p s = (r, s')" "db_wf (w_db s)"
  shows "import_reach (w_db s, G) (w_db s', case r of None \<Rightarrow> G | Some f \<Rightarrow> insert (st_seq f) G) \<and>
    (\<forall>f. r = Some f \<longrightarrow> seq_next (w_db s) \<le> fst (st_seq f))"
proof -
  define h where "h = fst (hash_stage cfg D a p (on_met (inc_files_detected 1) s))"
  define s1 where "s1 = snd (hash_stage cfg D a p (on_met (inc_files_detected 1) s))"
  have s1: "w_db s1 = w_db s" by (simp add: s1_def)
  define s2 where "s2 = snd (on_db (GetImportByHash h) s1)"
  have sent: "only_sent (w_db s) (w_db s2)" using reads_only_sent(2) by (simp add: s2_def s1)
  then have rd: "import_reach (w_db s, G) (w_db s2, G)" by (rule import_reach_one [OF t_read])
  have wf2: "db_wf (w_db s2)" "seq_next (w_db s2) = seq_next (w_db s)"
    using sent assms(2) by (auto simp: only_sent_def db_wf_def)
  have dup: "w_db (duplicate_stage cfg a p s2) = w_db s2" by (simp add: duplicate_stage_def Let_def)
  obtain n name d where al: "AllocateSequence (a_tok a) (w_db s2) = ((n, name), d)" by (metis prod.exhaust)
  have alloc: "import_reach (w_db s, G) (d, if n = 0 then G else insert (n, name) G)"
    by (rule ir_step [OF rd t_alloc [OF al]])
  define s5 where "s5 = on_met (observe_db_duration (a_rnd a) (a_dur a 3))
      (snd (on_db (AllocateSequence (a_tok a)) (on_met (observe_exif_duration (a_rnd a) (a_dur a 2)) s2)))"
  have s5: "w_db s5 = d" by (simp add: s5_def al)
  have b: "(r, s') = (if h = [] then (None, move_to_dead_letter cfg a p s1)
      else if fst (on_db (GetImportByHash h) s1) \<noteq> None then (None, duplicate_stage cfg a p s2)
      else if n = 0 then (None, move_to_dead_letter cfg a p s5)
      else (Some \<lparr>st_answers = a, st_path = p, st_hash = h, st_seq = (n, name), st_exif = exif_stage a p (w_fs s2)\<rparr>, s5))"
    unfolding assms(1) [symmetric]
    by (simp add: begin_file_def split_beta Let_def h_def [symmetric] s1_def [symmetric] s2_def [symmetric]
        s5_def [symmetric] al)
  consider "r = None" "s' = move_to_dead_letter cfg a p s1" | "r = None" "w_db s' = w_db s2"
    | "r = None" "n = 0" "s' = move_to_dead_letter cfg a p s5"
    | "r = Some \<lparr>st_answers = a, st_path = p, st_hash = h, st_seq = (n, name), st_exif = exif_stage a p (w_fs s2)\<rparr>"
      "n \<noteq> 0" "s' = s5"
    using b dup by (auto split: if_splits)
  then show ?thesis
  proof cases
    case 1
    with dead_letter_traffic [of s1 G cfg a p] s1 show ?thesis by simp
  next
    case 2
    with rd show ?thesis by simp
  next
    case 3
    with dead_letter_traffic [of s5 G cfg a p] s5 alloc import_reach_trans show ?thesis by fastforce
  next
    case 4
    with alloc s5 wf2 alloc_seq.allocated [OF wf2(1) al] show ?thesis by simp
  qed
qed

lemma end_file_traffic:
  assumes "st_seq x \<in> G"
  obtains G' where "import_reach (w_db s, G) (w_db (end_file cfg D x s), G')" "G - {st_seq x} \<subseteq> G'"
proof -
  define a where "a = st_answers x"
  define fld where "fld = build_folder_schema (cfg_folder_schema cfg) (ex_date (st_exif x))"
  obtain ok s1 where e: "engine_stage cfg a (st_path x) fld (snd (st_seq x)) s = (ok, s1)" by fastforce
  have s1: "w_db s1 = w_db s" using engine_stage_db [of cfg a "st_path x" fld "snd (st_seq x)" s] e by simp
  have eq: "w_db (end_file cfg D x s) = (if ok then w_db (finish_import cfg D a (st_path x) (st_hash x) (st_seq x) (st_exif x) fld s1)
      else w_db (move_to_dead_letter cfg a (st_path x) (on_met (inc_conversions_completed ''failed'' 1) s1)))"
    using e by (simp add: end_file_def Let_def fld_def [symmetric] a_def [symmetric] result_stage_def)
  show ?thesis
  proof (cases ok)
    case True
    let ?dst = "out_path_of cfg fld (snd (st_seq x))"
    obtain i d where ins: "InsertImport (import_of cfg (st_path x) (st_hash x) (st_seq x) ?dst
        (sha256_file D (w_fs s1) ?dst) (st_exif x) fld) (w_db s) = (i, d)" by fastforce
    then have "w_db (end_file cfg D x s) = d" using True eq s1 by simp
    with import_reach_one [OF t_insert [OF assms ins]] show ?thesis by (intro that [of "G - {st_seq x}"]) simp_all
  next
    case False
    with eq s1 dead_letter_traffic [of "on_met (inc_conversions_completed ''failed'' 1) s1" G cfg a "st_path x"]
    show ?thesis by (intro that [of G]) auto
  qed
qed

text \<open>The numbers of the files started and not finished are among the grants, each once.\<close>

definition busy_ok :: "running \<Rightarrow> (int \<times> string) set \<Rightarrow> bool" where
  "busy_ok s G \<longleftrightarrow> distinct (map st_seq (rn_busy s)) \<and> st_seq ` set (rn_busy s) \<subseteq> G \<and>
     grants_below (w_db (rn_world s), G)"

lemma turn_traffic:
  assumes "busy_ok s G"
  shows "\<exists>G'. import_reach (w_db (rn_world s), G) (w_db (rn_world (turn cfg D x s)), G') \<and> busy_ok (turn cfg D x s) G'"
proof -
  let ?s' = "turn cfg D x s" and ?d = "w_db (rn_world s)"
  have goal: ?thesis if "import_reach (?d, G) (w_db (rn_world ?s'), G')" "distinct (map st_seq (rn_busy ?s'))"
      "st_seq ` set (rn_busy ?s') \<subseteq> G'" for G'
    using that import_reach_below [OF that(1)] assms unfolding busy_ok_def by blast
  have old: "distinct (map st_seq (rn_busy s))" "st_seq ` set (rn_busy s) \<subseteq> G" "db_wf ?d"
      "\<forall>g \<in> G. fst g < seq_next ?d"
    using assms by (simp_all add: busy_ok_def grants_below_def)
  have quiet: ?thesis if "\<And>tok r. \<not> role x (Op_Allocate tok) \<and> \<not> role x (Op_Insert r)" "rn_busy ?s' = rn_busy s"
    using goal [OF op_run_traffic [OF turn_ops that(1)]] that(2) old by simp
  show ?thesis
  proof (cases x)
    case (Take a)
    show ?thesis
    proof (cases rule: take_turn_cases [where cfg = cfg and D = D and a = a and s = s])
      case idle
      with Take old show ?thesis by (intro goal [of G]) (simp_all add: ir_start)
    next
      case (ended p w y)
      with begin_file_traffic [OF ended(2), of G] Take old show ?thesis by (intro goal [of G]) simp_all
    next
      case (started p w f y)
      note b = begin_file_traffic [OF started(3), of G]
      have "seq_next ?d \<le> fst (st_seq f)" using b old(3) by simp
      then have "st_seq f \<notin> G" using old(4) by fastforce
      with b started(4) Take old show ?thesis by (intro goal [of "insert (st_seq f) G"]) auto
    qed
  next
    case (Finish k)
    show ?thesis
    proof (cases "k < length (rn_busy s)")
      case False
      with Finish old show ?thesis by (intro goal [of G]) (simp_all add: finish_turn_def ir_start)
    next
      case True
      obtain us f vs where b: "rn_busy s = us @ f # vs" "take k (rn_busy s) = us" "drop (Suc k) (rn_busy s) = vs" "rn_busy s ! k = f"
        using id_take_nth_drop [OF True] by blast
      have rest: "distinct (map st_seq (us @ vs))" "st_seq ` set (us @ vs) \<subseteq> G - {st_seq f}" "st_seq f \<in> G"
        using old(1,2) unfolding b(1) by auto
      from end_file_traffic [OF rest(3), of "rn_world s" cfg D] obtain G'
        where G': "import_reach (?d, G) (w_db (end_file cfg D f (rn_world s)), G')" "G - {st_seq f} \<subseteq> G'" .
      have t: "w_db (rn_world ?s') = w_db (end_file cfg D f (rn_world s))" "rn_busy ?s' = us @ vs"
        using Finish True b by (simp_all add: finish_turn_def)
      show ?thesis
      proof (rule goal [of G'])
        show "import_reach (?d, G) (w_db (rn_world ?s'), G')" unfolding t by (rule G'(1))
        show "distinct (map st_seq (rn_busy ?s'))" unfolding t by (rule rest(1))
        show "st_seq ` set (rn_busy ?s') \<subseteq> G'" unfolding t using rest(2) G'(2) by (rule order_trans)
      qed
    qed
  qed (rule quiet; simp add: poll_pool_def accept_turn_def rotate_turn_def drain_turn_def on_world_def split_beta
       split: option.split)+
qed

lemma service_reach:
  assumes "db_wf (w_db (rn_world s))" "rn_busy s = []"
  obtains G where "import_reach (w_db (rn_world s), {}) (w_db (rn_world (service_run cfg D xs s)), G)"
    "st_seq ` set (rn_busy (service_run cfg D xs s)) \<subseteq> G"
proof -
  have "\<exists>G'. import_reach (w_db (rn_world s), G) (w_db (rn_world (service_run cfg D xs s)), G') \<and>
      busy_ok (service_run cfg D xs s) G'" if "busy_ok s G" for s G
    using that
  proof (induction xs arbitrary: s G)
    case (Cons x xs)
    obtain G1 where one: "import_reach (w_db (rn_world s), G) (w_db (rn_world (turn cfg D x s)), G1)"
        "busy_ok (turn cfg D x s) G1"
      using turn_traffic [OF Cons.prems] by blast
    obtain G2 where two: "import_reach (w_db (rn_world (turn cfg D x s)), G1)
          (w_db (rn_world (service_run cfg D xs (turn cfg D x s))), G2)"
        "busy_ok (service_run cfg D xs (turn cfg D x s)) G2"
      using Cons.IH [OF one(2)] by blast
    show ?case
    proof (cases "rn_up s")
      case True
      with import_reach_trans [OF two(1) one(1)] two(2) show ?thesis by auto
    next
      case False
      with Cons.prems show ?thesis by (auto intro: ir_start)
    qed
  qed (auto intro: ir_start)
  moreover have "busy_ok s {}" using assms by (simp add: busy_ok_def grants_below_def)
  ultimately obtain G where "import_reach (w_db (rn_world s), {}) (w_db (rn_world (service_run cfg D xs s)), G)"
      "busy_ok (service_run cfg D xs s) G" by blast
  then show ?thesis by (intro that [of G]) (simp_all add: busy_ok_def)
qed

text \<open>
  C8: The running service refines the import traffic: whatever turns its threads take, in any order
  and with any answers from outside (failing hashes, duplicates, refused statements, failing
  engines, requests, rotations, reconversions), the database changes are import steps, and the
  numbers of the files still in work are grants not used yet. So what holds of the traffic, output
  paths never shared first of all, holds of the service.
\<close>

theorem service_is_traffic:
  assumes "db_wf (w_db (rn_world s))" "rn_busy s = []"
  shows "\<exists>G. import_reach (w_db (rn_world s), {}) (w_db (rn_world (service_run cfg D xs s)), G) \<and>
           st_seq ` set (rn_busy (service_run cfg D xs s)) \<subseteq> G"
  using service_reach [OF assms] by metis

theorem service_is_traffic_witness:
  "\<exists>G. import_reach (empty_db good_server, {}) (w_db (rn_world (service_run default_config concat_digest
      [Poll 0 0 (Some [(demo_path, True, 60)]), Take demo_answers, Accept stats_conn, Finish 0, Rotate 0]
      (demo_running (empty_db good_server)))), G)"
proof -
  let ?xs = "[Poll 0 0 (Some [(demo_path, True, 60)]), Take demo_answers, Accept stats_conn, Finish 0, Rotate 0]"
  have "db_wf (w_db (rn_world (demo_running (empty_db good_server))))" "rn_busy (demo_running (empty_db good_server)) = []"
    by (simp_all add: demo_running_def empty_db_wf)
  from service_is_traffic [OF this, of default_config concat_digest ?xs] show ?thesis
    by (auto simp: demo_running_def simp del: service_run.simps)
qed

section \<open>From the start on\<close>

text \<open>What a start leaves, when the numbers could be reserved.\<close>

lemma main_start_traffic:
  assumes "traffic_ok 0 0 (d0, {})" "main_start h d0 = (Booted sv, d1)" "sv_reserved sv"
  shows "\<exists>m. traffic_ok m (imp_next d1) (d1, {})"
proof -
  from assms(2) obtain d where d: "same_tables d0 d"
      "ReconcileLibrary (host_config h) (h_sha h) (h_cwd h) (h_walk h) (h_tok h) d = (True, d1)"
    using assms(3) by (cases rule: main_start_cases) auto
  from reconcile_floor [OF same_tables_traffic [OF d(1) assms(1)] d(2)] show ?thesis ..
qed

lemma main_start_srv:
  assumes "main_start h d0 = (b, d1)"
  shows "srv d1 = srv d0"
proof -
  have res: "srv (snd (reserve AllocateSequence tok k m d)) = srv d" for tok k m d
  proof (induction k arbitrary: d)
    case (Suc k)
    have "srv (snd (AllocateSequence (tok k) d)) = srv d" using AllocateSequence_rest [of d "tok k"] by (simp add: same_rest_def)
    with Suc show ?case by (simp add: split_beta)
  qed simp
  have rec: "srv (snd (ReconcileLibrary cfg sha cwd walk tok d)) = srv d" for cfg sha cwd walk tok d
  proof -
    have "srv (snd (InsertImport r x)) = srv x" for r x
      using store_step_srv [OF s_insert [OF prod.collapse [symmetric]]] .
    then have "srv (sc_db (scan_library cfg sha cwd walk d)) = srv d"
      by (intro scan_library_inv [where Q = "\<lambda>x. srv x = srv d"]) simp_all
    with res show ?thesis by (simp add: ReconcileLibrary_def Let_def)
  qed
  from assms show ?thesis
    by (cases rule: main_start_cases) (auto simp: same_tables_def dest!: arg_cong [where f = "\<lambda>x. srv (snd x)"] simp: rec)
qed

text \<open>
  From the start on, the service neither converts onto a file it found nor twice onto one path:
  after a start whose number reservation went through, in every run of the service, with the turns
  of all its threads in any order, the output path of a newly completed import is none of the
  files the start-up scan listed, and no other completed import has it.
\<close>

theorem service_outputs_fresh:
  assumes "traffic_ok 0 0 (d0, {})" "main_start h d0 = (Booted sv, d1)" "sv_reserved sv"
    and "d2 = w_db (rn_world (service_run (sv_cfg sv) D xs (launch n now fs d1 out)))" "seq_next d2 \<le> int64_max"
    and "r \<in> set (import_rows d2)" "status r = Completed" "imp_next d1 \<le> rec_id r"
  shows "output_path r \<notin> library_files (sv_cfg sv) (h_walk h) \<and>
         (\<forall>q \<in> set (import_rows d2). status q = Completed \<longrightarrow> q \<noteq> r \<longrightarrow> output_path q \<noteq> output_path r)"
proof -
  obtain m where ok: "traffic_ok m (imp_next d1) (d1, {})" using main_start_traffic [OF assms(1-3)] ..
  then have "db_wf (w_db (rn_world (launch n now fs d1 out)))" "rn_busy (launch n now fs d1 out) = []"
    by (simp_all add: launch_def traffic_ok_def)
  from service_reach [OF this, of "sv_cfg sv" D xs] obtain G where
    "import_reach (w_db (rn_world (launch n now fs d1 out)), {}) (d2, G)"
    unfolding assms(4) by blast
  then have "import_reach (d1, {}) (d2, G)" by (simp add: launch_def)
  with new_outputs_fresh [OF assms(1-3) _ assms(5-8)] completed_paths_differ [OF import_reach_ok [OF _ ok]] assms(6,7)
  show ?thesis by metis
qed

end
