(* ===== verification/Whole_Life.thy ===== *)
theory Whole_Life
  imports Whole_Service
begin

text \<open>
  The program over its whole life: sessions of \<open>main\<close> (\<open>src/src/main.cpp\<close>) on one database, each
  on its own host, configuration and files, each started, run, and ended in one of three ways: a
  failing start, a shutdown, or a process that is killed or crashes.
\<close>

section \<open>A session\<close>

record session =
  se_host :: host
  se_threads :: nat
  se_now :: int
  se_fs :: fsys
  se_out :: rot_world
  se_acts :: "act list"
  se_signal :: bool
  se_wakes :: bool

text \<open>
  The shutdown of a service that still runs: the workers end after the file they have in hand, then
  \<open>main_stop\<close> goes on. With a file in hand, without a signal or after a crash, the process is gone.
\<close>

definition shut_down :: "config \<Rightarrow> bool \<Rightarrow> running \<Rightarrow> db" where
  "shut_down cfg wakes s =
     (case main_stop wakes (rot_config cfg) (api_Run True True True new_listener) (rn_pend s)
             ((rn_out s)\<lparr>rw_db := w_db (rn_world s)\<rparr>) of
        None \<Rightarrow> w_db (rn_world s)
      | Some w \<Rightarrow> rw_db w)"

definition run_session :: "('c, 'm) digest_scheme \<Rightarrow> session \<Rightarrow> db \<Rightarrow> db" where
  "run_session D x d =
     (case main_start (se_host x) d of
        (Exit _, d1) \<Rightarrow> d1
      | (Booted sv, d1) \<Rightarrow>
          let s = service_run (sv_cfg sv) D (se_acts x) (launch (se_threads x) (se_now x) (se_fs x) d1 (se_out x))
          in if se_signal x \<and> rn_up s \<and> rn_busy s = [] then shut_down (sv_cfg sv) (se_wakes x) s
             else w_db (rn_world s))"

definition life :: "('c, 'm) digest_scheme \<Rightarrow> session list \<Rightarrow> db \<Rightarrow> db" where
  "life D xs d = fold (run_session D) xs d"

section \<open>Every session keeps the invariant of the traffic\<close>

lemma stop_dispatch_ops: "op_run (role (Rotate t)) (rw_db s) (rw_db (stop_dispatch rc pend s))"
proof (induction pend arbitrary: s)
  case (Cons e pend)
  obtain i rot where e: "e = (i, rot)" by fastforce
  let ?A = "role (Rotate t)"
  define s1 where "s1 = snd (acquire_rot i s)"
  define s3 where "s3 = rot_on_db (UpdateOrientation i (pr_orientation rot)) (snd (run_system (rotation_cmd rc rot) s1))"
  have s1: "op_run ?A (rw_db s) (rw_db s1)" unfolding s1_def by (rule rotate_writes(1))
  have "rw_db (snd (run_system cmd x)) = rw_db x" for cmd x by (simp add: run_system_def Let_def)
  then have "op_run ?A (rw_db s1) (rw_db s3)" unfolding s3_def using rotate_writes(2) by metis
  then have s4: "op_run ?A (rw_db s) (rw_db (rot_on_db (ReleaseLock i) s3))"
    using s1 rotate_writes(3) op_run_trans by metis
  have "stop_dispatch rc (e # pend) s =
      stop_dispatch rc pend (if fst (acquire_rot i s) then rot_on_db (ReleaseLock i) s3 else s1)"
    by (simp add: e split_beta Let_def s1_def [symmetric] s3_def [symmetric])
  with op_run_trans [OF Cons.IH s1] op_run_trans [OF Cons.IH s4] show ?case by (simp del: role.simps)
qed simp

lemma op_run_traffic_ok:
  assumes "op_run A d d'" "\<And>tok r. \<not> A (Op_Allocate tok) \<and> \<not> A (Op_Insert r)" "traffic_ok m i0 (d, G)"
  shows "traffic_ok m i0 (d', G)"
  by (rule import_reach_ok [OF op_run_traffic [OF assms(1,2)] assms(3)])

lemma shut_down_traffic:
  assumes "traffic_ok m i0 (w_db (rn_world s), G)"
  shows "traffic_ok m i0 (shut_down cfg wakes s, G)"
proof -
  let ?w = "(rn_out s)\<lparr>rw_db := w_db (rn_world s)\<rparr>"
  let ?w1 = "stop_dispatch (rot_config cfg) (rn_pend s) ?w"
  have "op_run (role (Rotate 0)) (w_db (rn_world s)) (rw_db ?w1)"
    using stop_dispatch_ops [of 0 ?w] by (simp del: role.simps)
  then have "traffic_ok m i0 (rw_db ?w1, G)" by (rule op_run_traffic_ok) (simp_all add: assms)
  moreover have "op_run (\<lambda>op. op = Op_Close) (rw_db ?w1) (Close (rw_db ?w1))" by (rule op_run_one [OF s_close]) simp
  ultimately have "traffic_ok m i0 (Close (rw_db ?w1), G)" by (rule op_run_traffic_ok [rotated 2]) simp
  then show ?thesis using assms
    by (simp add: shut_down_def main_stop_def rot_on_db_def split: option.split)
qed

text \<open>A start keeps it, whether the numbers could be reserved or not.\<close>

lemma main_start_keeps:
  assumes "traffic_ok 0 0 (d, {})" "main_start h d = (b, d1)"
  shows "traffic_ok 0 0 (d1, {})"
  using assms(2)
proof (cases rule: main_start_cases)
  case stopped
  with same_tables_traffic assms(1) show ?thesis by blast
next
  case (running sv d2)
  have sc: "traffic_ok 0 0 (sc_db (scan_library cfg sha cwd walk d2), {})" for cfg sha cwd walk
    by (rule scan_library_traffic [OF same_tables_traffic [OF running(2) assms(1)]])
  from running(4) have "d1 = snd (ReconcileLibrary (host_config h) (h_sha h) (h_cwd h) (h_walk h) (h_tok h) d2)" by simp
  then show ?thesis using sc reserve_traffic [OF sc] by (simp add: ReconcileLibrary_def Let_def)
qed

lemma run_session_traffic:
  assumes "traffic_ok 0 0 (d, {})"
  shows "traffic_ok 0 0 (run_session D x d, {})"
proof -
  obtain b d1 where b: "main_start (se_host x) d = (b, d1)" by fastforce
  note ok = main_start_keeps [OF assms b]
  show ?thesis
  proof (cases b)
    case (Exit n)
    with b ok show ?thesis by (simp add: run_session_def)
  next
    case (Booted sv)
    define s0 where "s0 = launch (se_threads x) (se_now x) (se_fs x) d1 (se_out x)"
    define s where "s = service_run (sv_cfg sv) D (se_acts x) s0"
    have s0: "db_wf (w_db (rn_world s0))" "rn_busy s0 = []" "w_db (rn_world s0) = d1"
      using ok by (simp_all add: s0_def launch_def traffic_ok_def)
    obtain G where "import_reach (w_db (rn_world s0), {}) (w_db (rn_world s), G)"
      unfolding s_def by (rule service_reach [OF s0(1,2)])
    with ok s0(3) have "traffic_ok 0 0 (w_db (rn_world s), G)" using import_reach_ok by metis
    then have run: "traffic_ok 0 0 (w_db (rn_world s), {})" by (rule traffic_ok_fewer) simp
    have "run_session D x d = (if se_signal x \<and> rn_up s \<and> rn_busy s = [] then shut_down (sv_cfg sv) (se_wakes x) s
        else w_db (rn_world s))"
      using b Booted by (simp add: run_session_def s_def s0_def Let_def)
    with run shut_down_traffic [OF run] show ?thesis by simp
  qed
qed

lemma life_traffic: "traffic_ok 0 0 (d, {}) \<Longrightarrow> traffic_ok 0 0 (life D xs d, {})"
  unfolding life_def by (induction xs arbitrary: d) (simp_all add: run_session_traffic)

lemma empty_db_traffic: "traffic_ok 0 0 (empty_db sv, {})"
  using empty_db_wf [of sv] by (simp add: traffic_ok_def done_rows_def empty_db_def)

section \<open>No output twice, in a whole life\<close>

text \<open>
  C12: Over the whole life of a database the program neither converts onto a file it found nor twice
  onto one path: from the empty tables on, through any sessions with any configurations (failing
  starts, shutdowns, crashes), and then in a session whose start could reserve the numbers, with the
  turns of all threads in any order, the output path of a newly completed import is none of the
  files the start-up scan listed, and no other completed import, of this session or an earlier
  one, has it.
\<close>

theorem outputs_fresh_for_life:
  assumes "d0 = life D ss (empty_db dbs)" "main_start h d0 = (Booted sv, d1)" "sv_reserved sv"
    and "d2 = w_db (rn_world (service_run (sv_cfg sv) D xs (launch n now fs d1 out)))" "seq_next d2 \<le> int64_max"
    and "r \<in> set (import_rows d2)" "status r = Completed" "imp_next d1 \<le> rec_id r"
  shows "output_path r \<notin> library_files (sv_cfg sv) (h_walk h) \<and>
         (\<forall>q \<in> set (import_rows d2). status q = Completed \<longrightarrow> q \<noteq> r \<longrightarrow> output_path q \<noteq> output_path r)"
  using service_outputs_fresh [OF life_traffic [OF empty_db_traffic, of D ss dbs, folded assms(1)] assms(2-8)] .

text \<open>
  A first session that ends at once, the client library failing to start, and the first photo of the
  session after it.
\<close>

definition no_library :: session where
  "no_library = \<lparr>se_host = demo_host\<lparr>h_init := False\<rparr>, se_threads = 1, se_now = 0, se_fs = w_fs (demo_world good_server),
     se_out = rot_demo (empty_db good_server) (\<lambda>_. 0), se_acts = [], se_signal = True, se_wakes = True\<rparr>"

definition after_failure :: db where
  "after_failure = life concat_digest [no_library] (empty_db good_server)"

lemma after_failure_eq: "after_failure = (empty_db good_server)\<lparr>conn := False\<rparr>"
  by (simp add: after_failure_def life_def run_session_def no_library_def demo_host_def main_start_def Open_def)

lemma demo_config: "host_config demo_host = default_config"
  using LoadConfig_defaults by (simp add: host_config_def demo_host_def load_dotenv_def)

text \<open>The host of the second session: one photo is in the library already.\<close>

definition one_file_walk :: "path \<Rightarrow> (path \<times> bool) list option" where
  "one_file_walk d = (if d = ''/output'' then Some [(''/output/2024/IMG_1.dng'', True)] else None)"

definition life_host :: host where
  "life_host = demo_host\<lparr>h_walk := one_file_walk\<rparr>"

lemma life_config: "host_config life_host = default_config"
  using demo_config by (simp add: life_host_def host_config_def)

definition reconciled :: "bool \<times> db" where
  "reconciled = ReconcileLibrary default_config (\<lambda>_. ''ab'') ''/'' one_file_walk (\<lambda>_. ''x'')
     ((empty_db good_server)\<lparr>stmt_no := Suc 0\<rparr>)"

lemma reconcile_empty:
  "let r = ReconcileLibrary default_config (\<lambda>_. ''ab'') ''/'' one_file_walk (\<lambda>_. ''x'')
       ((empty_db good_server)\<lparr>stmt_no := Suc 0\<rparr>)
   in fst r \<and> imp_next (snd r) = 1 \<and> map rec_id (import_rows (snd r)) = [] \<and> seq_next (snd r) = 2 \<and>
      list_all (\<lambda>(i, k). k = seq_name i) (sequences (snd r))"
  by code_simp

lemma reconciled_rows:
  "fst reconciled" "imp_next (snd reconciled) = 1" "import_rows (snd reconciled) = []"
  "seq_next (snd reconciled) = 2" "list_all (\<lambda>(i, k). k = seq_name i) (sequences (snd reconciled))"
  using reconcile_empty by (simp_all add: reconciled_def Let_def)

lemma demo_start_rows:
  "\<exists>sv d1. main_start life_host after_failure = (Booted sv, d1) \<and> sv_reserved sv \<and> sv_cfg sv = default_config \<and>
     imp_next d1 = 1 \<and> import_rows d1 = [] \<and> seq_next d1 = 2 \<and> (\<forall>(i, k) \<in> set (sequences d1). k = seq_name i)"
proof -
  have op: "Open True (\<lambda>_. True) after_failure = (True, empty_db good_server)"
    by (simp add: Open_def connect_attempts_iff after_failure_eq numeral_eq_Suc) (simp add: empty_db_def)
  have mg: "Migrate True [] rd (empty_db good_server) = (True, (empty_db good_server)\<lparr>stmt_no := Suc 0\<rparr>)" for rd
    by (simp add: Migrate_def sql_files_def send_def empty_db_def)
  obtain b d1 where r: "reconciled = (b, d1)" by fastforce
  have "main_start life_host after_failure = (Booted \<lparr>sv_cfg = default_config, sv_reserved = b,
      sv_engine = MakeConverter (h_fs life_host) default_config,
      sv_engine_ok = engine_Available (h_run life_host) (MakeConverter (h_fs life_host) default_config),
      sv_embedder = MakeEmbedder (h_fs life_host) default_config\<rparr>, d1)"
    using r by (simp add: main_start_def Let_def life_config reconciled_def)
      (simp add: life_host_def demo_host_def op mg Let_def)
  moreover have "b" "imp_next d1 = 1" "import_rows d1 = []" "seq_next d1 = 2" "\<forall>(i, k) \<in> set (sequences d1). k = seq_name i"
    using reconciled_rows [unfolded r] by (auto simp: list_all_iff)
  ultimately show ?thesis by auto
qed

lemma demo_named:
  assumes "main_start life_host after_failure = (Booted sv, d1)" "traffic_ok m (imp_next d1) (d1, {})"
    and "\<forall>(i, k) \<in> set (sequences d1). k = seq_name i"
  shows "all_named d1"
proof -
  have "srv d1 = good_server" using main_start_srv [OF assms(1)] by (simp add: after_failure_eq) (simp add: empty_db_def)
  with assms(2,3) show ?thesis by (simp add: all_named_def traffic_ok_def)
qed

definition first_photo :: "act list" where
  "first_photo = [Poll 0 0 (Some [(demo_path, True, 60)]), Take copy_answers, Finish 0]"

lemma take_turn_up: "rn_up (take_turn cfg D a s) = rn_up s"
  by (cases rule: take_turn_cases [where cfg = cfg and D = D and a = a and s = s]) simp_all

lemma first_photo_imported:
  assumes "all_named d" "import_rows d = []" "s = launch 2 0 (w_fs (demo_world good_server)) d out"
  shows "\<exists>r. import_rows (w_db (rn_world (service_run default_config concat_digest first_photo s))) = [r] \<and>
    status r = Completed \<and>
    seq_next (w_db (rn_world (service_run default_config concat_digest first_photo s))) = seq_next d + 1"
proof -
  define s1 where "s1 = turn default_config concat_digest (Poll 0 0 (Some [(demo_path, True, 60)])) s"
  have acc: "poll_accepts default_config (demo_path, True, 60)" unfolding demo_path_def by code_simp
  have iv: "poll_interval_sec default_config = 10" unfolding default_config_def by simp
  define w where "w = \<lparr>fileq = [], reconverts = [], seen = [demo_path \<mapsto> 0], fail_counts = Map.empty,
     inflight = {demo_path}, fp_cache = [], queue_depth = 0, active_workers = 1\<rparr>"
  have poll: "w_pool (rn_world s1) = w\<lparr>fileq := [demo_path], inflight := {}, queue_depth := 1, active_workers := 0\<rparr>"
    using acc iv
    by (simp add: s1_def assms(3) launch_def poll_pool_def poll_turn_def poll_scan_def poll_entry_def empty_pool_def
        cleanup_seen_ttl_def w_def fun_eq_iff)
  then have w: "pop_file (w_pool (rn_world s1)) = Some (demo_path, w)" "fileq w = []" "fp_cache w = []"
    by (simp_all add: pop_file_def w_def)
  have s1: "rn_busy s1 = []" "0 < rn_threads s1" "rn_up s" "rn_up s1" "w_db (rn_world s1) = d"
      "w_fs (rn_world s1) = w_fs (demo_world good_server)"
    by (simp_all add: s1_def assms(3) launch_def poll_pool_def split_beta)
  let ?t = "(rn_world s1)\<lparr>w_pool := w\<rparr>"
  have "service_run default_config concat_digest first_photo s =
      finish_turn default_config concat_digest 0 (take_turn default_config concat_digest copy_answers s1)"
    using s1(3,4) by (simp add: take_turn_up first_photo_def s1_def [symmetric] del: turn.simps(1))
  with take_finish_turn [OF s1(1,2) w(1)] w(1) have turn: "rn_world (service_run default_config concat_digest first_photo s) =
      on_pool (\<lambda>w. w\<lparr>active_workers := active_workers w - 1\<rparr>) (ProcessFile default_config concat_digest copy_answers demo_path ?t)"
    by (simp add: worker_turn_def)
  have "content (w_fs ?t) demo_path = Some [1, 2]" using demo_facts(1) s1(6) by simp
  moreover have "sha256_file concat_digest (w_fs ?t) demo_path = ''0102''"
  proof -
    have "to_hex [1, 2] = ''0102''" by code_simp
    with sha_concat [of "w_fs ?t" demo_path "[1, 2]"] demo_facts(1) s1(6) show ?thesis by simp
  qed
  moreover have "converts default_config copy_answers demo_path"
    using copy_engine by (auto simp: converts_def engine_frame_def copy_answers_def)
  moreover have "\<forall>fld. archive_works default_config copy_answers demo_path fld"
    using demo_archive_works [of default_config demo_path] by (simp add: archive_works_def copy_answers_def)
  moreover have "length (a_tok copy_answers) \<le> 28" by (simp add: copy_answers_def demo_answers_def)
  moreover have "cache_sound demo_path ''0102'' (w_pool ?t)" "not_imported ''0102'' (w_db ?t)" "fileq (w_pool ?t) = []"
    "all_named (w_db ?t)"
    using w s1(5) assms(1,2) by (simp_all add: cache_sound_def not_imported_def)
  ultimately show ?thesis
    using queued_file_imported [of ?t demo_path "[1, 2]" "''0102''" concat_digest default_config copy_answers _, OF _ _ _ _ _ _ demo_facts(2) _ _ _ _ refl]
      s1(5) assms(2) unfolding turn by fastforce
qed

definition demo_rot_world :: rot_world where
  "demo_rot_world = rot_demo (empty_db good_server) (\<lambda>_. 0)"

theorem outputs_fresh_for_life_witness:
  "\<exists>sv d1 r. main_start life_host after_failure = (Booted sv, d1) \<and>
     import_rows (w_db (rn_world (service_run (sv_cfg sv) concat_digest first_photo
       (launch 2 0 (w_fs (demo_world good_server)) d1 demo_rot_world)))) = [r] \<and>
     output_path r \<notin> library_files (sv_cfg sv) (h_walk life_host) \<and>
     ''/output/2024/IMG_1.dng'' \<in> library_files (sv_cfg sv) (h_walk life_host)"
proof -
  obtain sv d1 where s: "main_start life_host after_failure = (Booted sv, d1)" "sv_reserved sv" "sv_cfg sv = default_config"
      "imp_next d1 = 1" "import_rows d1 = []" "seq_next d1 = 2" "\<forall>(i, k) \<in> set (sequences d1). k = seq_name i"
    using demo_start_rows by blast
  have after_traffic: "traffic_ok 0 0 (after_failure, {})"
    unfolding after_failure_def by (rule life_traffic [OF empty_db_traffic])
  obtain m where "traffic_ok m (imp_next d1) (d1, {})" using main_start_traffic [OF after_traffic s(1,2)] ..
  note named = demo_named [OF s(1) this s(7)]
  define d2 where "d2 = w_db (rn_world (service_run (sv_cfg sv) concat_digest first_photo
       (launch 2 0 (w_fs (demo_world good_server)) d1 demo_rot_world)))"
  obtain r where r: "import_rows d2 = [r]" "status r = Completed" "seq_next d2 = 3"
    using first_photo_imported [OF named s(5) refl] s(3,6) by (auto simp: d2_def)
  have "db_wf d2"
  proof -
    have "db_wf (w_db (rn_world (launch 2 0 (w_fs (demo_world good_server)) d1 demo_rot_world)))"
        "rn_busy (launch 2 0 (w_fs (demo_world good_server)) d1 demo_rot_world) = []"
      using named by (simp_all add: launch_def all_named_def)
    note start = this
    obtain G where "import_reach (w_db (rn_world (launch 2 0 (w_fs (demo_world good_server)) d1 demo_rot_world)), {}) (d2, G)"
      unfolding d2_def by (rule service_reach [OF start])
    from import_reach_frame [OF this] start(1) show ?thesis by simp
  qed
  then have "imp_next d1 \<le> rec_id r" using r(1) s(4) by (simp add: db_wf_def imports_wf_def)
  with outputs_fresh_for_life [OF after_failure_def s(1,2) d2_def, of r] r
  have "output_path r \<notin> library_files (sv_cfg sv) (h_walk life_host)" by (simp add: int64_max_def)
  moreover have "''/output/2024/IMG_1.dng'' \<in> library_files (sv_cfg sv) (h_walk life_host)"
    using s(3) by (auto simp: library_files_def life_host_def one_file_walk_def default_config_def)
  ultimately show ?thesis using s(1) r(1) unfolding d2_def by blast
qed

end
