(* ===== verification/Due_Loop.thy ===== *)
theory Due_Loop
  imports Rotation "HOL-Library.Multiset"
begin

text \<open>
  The due loop of the rotation worker (\<open>src/src/rotation.cpp\<close>) with its gap: the mutex is free during
  each \<open>Dispatch\<close>, and \<open>Queue\<close> calls of the API thread can come in there, into the hash table the
  loop's iterator points into. A new element lands anywhere in the iteration order, and if the
  table has no room for it, the table is rebuilt and the iterator is invalid: the loop then has
  undefined behaviour (\<open>None\<close>).
\<close>

section \<open>The table and the iterator\<close>

text \<open>The elements before the iterator, those from it on, and the number of buckets (load factor 1).\<close>

record cursor =
  cu_passed :: pendings
  cu_todo :: pendings
  cu_buckets :: nat

definition cu_all :: "cursor \<Rightarrow> pendings" where
  "cu_all c = cu_passed c @ cu_todo c"

text \<open>A \<open>Queue\<close> call, and the place in the iteration order a new element would get.\<close>

type_synonym gap_call = "intent \<times> nat"

definition insert_at :: "nat \<Rightarrow> 'a \<Rightarrow> 'a list \<Rightarrow> 'a list" where
  "insert_at n x xs = take n xs @ x # drop n xs"

definition gap_queue :: "rot_cfg \<Rightarrow> gap_call \<Rightarrow> cursor \<Rightarrow> cursor option" where
  "gap_queue rc g c =
     (let (x, place) = g; i = fst (snd x); rot = rot_of rc x
      in if i \<in> fst ` set (cu_passed c) then Some (c\<lparr>cu_passed := AList.update i rot (cu_passed c)\<rparr>)
         else if i \<in> fst ` set (cu_todo c) then Some (c\<lparr>cu_todo := AList.update i rot (cu_todo c)\<rparr>)
         else if length (cu_all c) + 1 > cu_buckets c then None
         else if place \<le> length (cu_passed c)
         then Some (c\<lparr>cu_passed := insert_at place (i, rot) (cu_passed c)\<rparr>)
         else Some (c\<lparr>cu_todo := insert_at (place - length (cu_passed c)) (i, rot) (cu_todo c)\<rparr>))"

fun gap_queues :: "rot_cfg \<Rightarrow> gap_call list \<Rightarrow> cursor \<Rightarrow> cursor option" where
  "gap_queues rc [] c = Some c"
| "gap_queues rc (g # gs) c = (case gap_queue rc g c of None \<Rightarrow> None | Some c1 \<Rightarrow> gap_queues rc gs c1)"

section \<open>The loop\<close>

text \<open>
  \<open>gaps\<close>: the calls that come in during the first dispatch, the second, and so on. The result
  lists what was dispatched, then the table and the world.
\<close>

definition first_gap :: "gap_call list list \<Rightarrow> gap_call list" where
  "first_gap gaps = (case gaps of [] \<Rightarrow> [] | g # _ \<Rightarrow> g)"

function due_loop ::
  "rot_cfg \<Rightarrow> int \<Rightarrow> gap_call list list \<Rightarrow> cursor \<Rightarrow> rot_world \<Rightarrow> (pendings \<times> pendings \<times> rot_world) option" where
  "due_loop rc now gaps c s =
     (case cu_todo c of
        [] \<Rightarrow> Some ([], cu_passed c, s)
      | (i, rot) # rest \<Rightarrow>
          if pr_deadline rot \<le> now
          then (case gap_queues rc (first_gap gaps) (c\<lparr>cu_todo := rest\<rparr>) of
                  None \<Rightarrow> None
                | Some c1 \<Rightarrow>
                    (case due_loop rc now (drop 1 gaps) c1 (Dispatch rc i rot s) of
                       None \<Rightarrow> None
                     | Some (gone, pend, s') \<Rightarrow> Some ((i, rot) # gone, pend, s')))
          else due_loop rc now gaps (c\<lparr>cu_passed := cu_passed c @ [(i, rot)], cu_todo := rest\<rparr>) s)"
  by pat_completeness auto
termination
  by (relation "measures [\<lambda>(rc, now, gaps, c, s). length gaps, \<lambda>(rc, now, gaps, c, s). length (cu_todo c)]")
    (auto simp: first_gap_def split: list.splits)

declare due_loop.simps [simp del]

definition table :: "nat \<Rightarrow> pendings \<Rightarrow> cursor" where
  "table n pend = \<lparr>cu_passed = [], cu_todo = pend, cu_buckets = n\<rparr>"

lemma due_loop_nil: "cu_todo c = [] \<Longrightarrow> due_loop rc now gaps c s = Some ([], cu_passed c, s)"
  by (simp add: due_loop.simps)

text \<open>Without calls in the gaps this is \<open>dispatch_due\<close>.\<close>

lemma due_loop_no_gaps:
  "due_loop rc now [] c s =
     (let (rest, s') = dispatch_due rc now (cu_todo c) s
      in Some ([(i, r) \<leftarrow> cu_todo c. pr_deadline r \<le> now], cu_passed c @ rest, s'))"
proof (induction "cu_todo c" arbitrary: c s)
  case Nil
  then show ?case by (simp add: due_loop_nil)
next
  case (Cons e rest)
  obtain i rot where e: "e = (i, rot)" by fastforce
  have todo: "cu_todo c = (i, rot) # rest" using Cons.hyps(2) e by simp
  note step = due_loop.simps [of rc now "[]" c s, unfolded todo, simplified first_gap_def, simplified]
  show ?case
  proof (cases "pr_deadline rot \<le> now")
    case True
    with step Cons.hyps(1) [of "c\<lparr>cu_todo := rest\<rparr>" "Dispatch rc i rot s"] todo show ?thesis
      by (simp add: split_beta)
  next
    case False
    with step Cons.hyps(1) [of "c\<lparr>cu_passed := cu_passed c @ [(i, rot)], cu_todo := rest\<rparr>" s] todo show ?thesis
      by (simp add: split_beta)
  qed
qed

section \<open>What the calls do to the table\<close>

lemma set_insert_at [simp]: "set (insert_at n x xs) = insert x (set xs)"
proof -
  have "set (insert_at n x xs) = insert x (set (take n xs @ drop n xs))" by (auto simp: insert_at_def simp del: append_take_drop_id)
  then show ?thesis by simp
qed

lemma distinct_insert_at:
  "k \<notin> fst ` set xs \<Longrightarrow> distinct (map fst (insert_at n (k, v) xs)) = distinct (map fst xs)"
proof -
  assume new: "k \<notin> fst ` set xs"
  have "mset (map fst (insert_at n (k, v) xs)) = mset (k # map fst (take n xs @ drop n xs))"
    unfolding insert_at_def by (simp del: append_take_drop_id)
  then have "distinct (map fst (insert_at n (k, v) xs)) = distinct (k # map fst xs)"
    using mset_eq_imp_distinct_iff by (simp only: append_take_drop_id) blast
  with new show ?thesis by simp
qed

lemma map_of_insert_at:
  assumes "k \<notin> fst ` set xs"
  shows "map_of (insert_at n (k, v) xs) = (map_of xs)(k \<mapsto> v)"
proof -
  have "k \<notin> dom (map_of (take n xs))" using assms by (auto simp: dom_map_of_conv_image_fst dest: in_set_takeD)
  then have "map_of (insert_at n (k, v) xs) = (map_of (take n xs @ drop n xs))(k \<mapsto> v)"
    by (simp add: insert_at_def map_add_upd_left del: append_take_drop_id)
  then show ?thesis by simp
qed

definition table_ok :: "int \<Rightarrow> cursor \<Rightarrow> bool" where
  "table_ok now c \<longleftrightarrow> distinct (map fst (cu_all c)) \<and> (\<forall>(i, r) \<in> set (cu_passed c). now < pr_deadline r)"

lemma gap_queue_effect:
  assumes "gap_queue rc (x, place) c = Some c1" "table_ok now c" "now < fst x + rc_grace rc"
  shows "table_ok now c1 \<and> map_of (cu_all c1) = (map_of (cu_all c))(fst (snd x) \<mapsto> rot_of rc x)"
proof -
  define i where "i = fst (snd x)"
  let ?rot = "rot_of rc x"
  have late: "now < pr_deadline ?rot" using assms(3) by (cases x) (simp add: rot_of_def)
  have d: "distinct (map fst (cu_passed c))" "distinct (map fst (cu_todo c))"
      "fst ` set (cu_passed c) \<inter> fst ` set (cu_todo c) = {}"
      "\<forall>(j, r) \<in> set (cu_passed c). now < pr_deadline r"
    using assms(2) by (auto simp: table_ok_def cu_all_def)
  have upd: "set (AList.update i ?rot al) \<subseteq> insert (i, ?rot) (set al)" for al
    by (induction al) auto
  consider (passed) "i \<in> fst ` set (cu_passed c)" "c1 = c\<lparr>cu_passed := AList.update i ?rot (cu_passed c)\<rparr>"
    | (todo) "i \<notin> fst ` set (cu_passed c)" "i \<in> fst ` set (cu_todo c)" "c1 = c\<lparr>cu_todo := AList.update i ?rot (cu_todo c)\<rparr>"
    | (before) "i \<notin> fst ` set (cu_passed c)" "i \<notin> fst ` set (cu_todo c)"
        "c1 = c\<lparr>cu_passed := insert_at place (i, ?rot) (cu_passed c)\<rparr>"
    | (after) n where "i \<notin> fst ` set (cu_passed c)" "i \<notin> fst ` set (cu_todo c)"
        "c1 = c\<lparr>cu_todo := insert_at n (i, ?rot) (cu_todo c)\<rparr>"
    using assms(1) unfolding gap_queue_def i_def [symmetric] by (auto simp: Let_def i_def [symmetric] split: if_splits)
  then show ?thesis
  proof cases
    case passed
    have "table_ok now c1" using passed d late upd [of "cu_passed c"]
      by (auto simp: table_ok_def cu_all_def distinct_update dom_update)
    with passed show ?thesis by (simp add: cu_all_def update_conv' i_def)
  next
    case todo
    have "table_ok now c1" using todo d
      by (auto simp: table_ok_def cu_all_def distinct_update dom_update)
    with todo show ?thesis by (simp add: cu_all_def update_conv' map_add_upd_left dom_map_of_conv_image_fst i_def)
  next
    case before
    have "table_ok now c1" using before d late by (auto simp: table_ok_def cu_all_def distinct_insert_at)
    with before show ?thesis by (simp add: cu_all_def map_of_insert_at i_def)
  next
    case after
    have "table_ok now c1" using after d by (auto simp: table_ok_def cu_all_def distinct_insert_at)
    with after show ?thesis by (simp add: cu_all_def map_of_insert_at map_add_upd_left dom_map_of_conv_image_fst i_def)
  qed
qed

text \<open>A whole gap acts on the table as its calls one after the other act on any map.\<close>

lemma gap_queues_effect:
  assumes "gap_queues rc gs c = Some c1" "table_ok now c" "\<forall>(x, n) \<in> set gs. now < fst x + rc_grace rc"
  shows "table_ok now c1 \<and> map_of (cu_all c1) = map_of (queue_all rc (map fst gs) (cu_all c))"
  using assms
proof (induction gs arbitrary: c)
  case (Cons g gs)
  obtain x n where g: "g = (x, n)" by fastforce
  obtain t i dng ori client where x: "x = (t, i, dng, ori, client)" by (cases x)
  obtain c2 where c2: "gap_queue rc (x, n) c = Some c2" "gap_queues rc gs c2 = Some c1"
    using Cons.prems(1) g by (auto split: option.splits)
  note one = gap_queue_effect [OF c2(1) Cons.prems(2)]
  have ok: "now < fst x + rc_grace rc" "\<forall>(x, n) \<in> set gs. now < fst x + rc_grace rc" using Cons.prems(3) g by auto
  have m: "map_of (cu_all c2) = map_of (Queue rc t i dng ori client (cu_all c))"
    using one ok(1) by (simp add: x Queue_def rot_of_def update_conv')
  have "map_of (queue_all rc (map fst gs) (cu_all c2)) = map_of (queue_all rc (map fst gs) (Queue rc t i dng ori client (cu_all c)))"
    by (rule ext) (simp add: queue_all_last m split: list.split)
  with Cons.IH [OF c2(2) _ ok(2)] one ok(1) show ?case by (simp add: g x)
qed simp

section \<open>Nothing is lost\<close>

definition not_due :: "int \<Rightarrow> pendings \<Rightarrow> pendings" where
  "not_due now pend = [(i, r) \<leftarrow> pend. now < pr_deadline r]"

lemma map_of_not_due:
  "distinct (map fst xs) \<Longrightarrow> map_of (not_due now xs) i =
     (case map_of xs i of None \<Rightarrow> None | Some r \<Rightarrow> if now < pr_deadline r then Some r else None)"
  unfolding not_due_def by (induction xs) (auto split: option.split simp: map_of_eq_None_iff [THEN iffD2])

lemma queue_all_cong: "map_of a = map_of b \<Longrightarrow> map_of (queue_all rc q a) = map_of (queue_all rc q b)"
  by (rule ext) (simp add: queue_all_last split: list.split)

lemma queue_all_append: "queue_all rc (q1 @ q2) pend = queue_all rc q2 (queue_all rc q1 pend)"
  by (induction rc q1 pend rule: queue_all.induct) simp_all

text \<open>A new intent is never due at once, so leaving out what is due commutes with queueing.\<close>

lemma not_due_queue_all:
  assumes "\<forall>x \<in> set q. now < fst x + rc_grace rc" "distinct (map fst pend)" "distinct (map fst all)"
    and "map_of all = map_of (queue_all rc q pend)"
  shows "map_of (not_due now all) = map_of (queue_all rc q (not_due now pend))"
proof
  fix i
  have late: "now < pr_deadline (rot_of rc x)" if "x \<in> set q" for x
    using assms(1) that by (cases x) (auto simp: rot_of_def)
  show "map_of (not_due now all) i = map_of (queue_all rc q (not_due now pend)) i"
  proof (cases "[x \<leftarrow> q. fst (snd x) = i]")
    case Nil
    then show ?thesis using assms(2-4) by (simp add: map_of_not_due queue_all_last)
  next
    case (Cons y ys)
    then have "last [x \<leftarrow> q. fst (snd x) = i] \<in> set q" by (metis filter_is_subset last_in_set list.distinct(1) subsetD)
    from late [OF this] Cons show ?thesis using assms(2-4) by (simp add: map_of_not_due queue_all_last)
  qed
qed

definition intents_during :: "nat \<Rightarrow> gap_call list list \<Rightarrow> intent list" where
  "intents_during k gaps = concat (map (map fst) (take k gaps))"

lemma intents_during_Suc: "intents_during (Suc k) gaps = map fst (first_gap gaps) @ intents_during k (drop 1 gaps)"
  by (cases gaps) (simp_all add: intents_during_def first_gap_def)

definition late_calls :: "rot_cfg \<Rightarrow> int \<Rightarrow> gap_call list list \<Rightarrow> bool" where
  "late_calls rc now gaps \<longleftrightarrow> (\<forall>gs \<in> set gaps. \<forall>(x, n) \<in> set gs. now < fst x + rc_grace rc)"

text \<open>What the loop owes for a table with the iterator anywhere in it.\<close>

definition loop_done ::
  "rot_cfg \<Rightarrow> int \<Rightarrow> intent list \<Rightarrow> pendings \<Rightarrow> rot_world \<Rightarrow> pendings \<Rightarrow> pendings \<Rightarrow> rot_world \<Rightarrow> bool" where
  "loop_done rc now q all s gone pend' s' \<longleftrightarrow>
     map_of pend' = map_of (queue_all rc q (not_due now all)) \<and>
     s' = fold (\<lambda>(i, rot). Dispatch rc i rot) gone s \<and> distinct (map fst gone) \<and>
     (\<forall>i rot. (i, rot) \<in> set gone \<longrightarrow> map_of all i = Some rot \<and> pr_deadline rot \<le> now) \<and>
     (\<forall>i rot. map_of all i = Some rot \<longrightarrow> pr_deadline rot \<le> now \<longrightarrow>
        (i, rot) \<in> set gone \<or> (\<exists>x \<in> set q. fst (snd x) = i))"

lemma queue_all_due:
  assumes "map_of (queue_all rc q pend) i = Some r" "pr_deadline r \<le> now" "\<forall>x \<in> set q. now < fst x + rc_grace rc"
  shows "map_of pend i = Some r"
proof (cases "[x \<leftarrow> q. fst (snd x) = i]")
  case (Cons y ys)
  then have "last [x \<leftarrow> q. fst (snd x) = i] \<in> set q" by (metis filter_is_subset last_in_set list.distinct(1) subsetD)
  moreover have "r = rot_of rc (last [x \<leftarrow> q. fst (snd x) = i])" using assms(1) Cons by (simp add: queue_all_last)
  ultimately have "now < pr_deadline r" using assms(3) by (auto simp: rot_of_def split: prod.split)
  with assms(2) show ?thesis by simp
qed (use assms(1) in \<open>simp add: queue_all_last\<close>)

lemma queue_all_other:
  assumes "map_of pend i = Some r" "\<not> (\<exists>x \<in> set q. fst (snd x) = i)"
  shows "map_of (queue_all rc q pend) i = Some r"
proof -
  have "[x \<leftarrow> q. fst (snd x) = i] = []" using assms(2) by (simp add: filter_empty_conv)
  with assms(1) show ?thesis by (simp add: queue_all_last)
qed

text \<open>One dispatched entry, its gap, and the rest of the loop.\<close>

lemma loop_done_step:
  assumes "all = passed @ (i, rot) # rest" "distinct (map fst all)" "pr_deadline rot \<le> now"
    and "map_of all1 = map_of (queue_all rc q1 (passed @ rest))" "distinct (map fst all1)"
    and "\<forall>x \<in> set q1. now < fst x + rc_grace rc"
    and "loop_done rc now q2 all1 (Dispatch rc i rot s) gone pend' s'"
  shows "loop_done rc now (q1 @ q2) all s ((i, rot) # gone) pend' s'"
proof -
  have d: "distinct (map fst (passed @ rest))" "i \<notin> fst ` set (passed @ rest)" using assms(1,2) by auto
  have "map_of passed i = None" "map_of rest i = None" using d(2) by (auto simp: map_of_eq_None_iff)
  then have old: "map_of all j = (if j = i then Some rot else map_of (passed @ rest) j)" for j
    by (auto simp: assms(1) map_add_def split: option.split)
  have nd: "not_due now all = not_due now (passed @ rest)" using assms(1,3) by (simp add: not_due_def)
  note L = assms(7) [unfolded loop_done_def]
  have gone: "map_of (passed @ rest) j = Some r \<and> pr_deadline r \<le> now" if "(j, r) \<in> set gone" for j r
    using L that queue_all_due [OF _ _ assms(6)] assms(4) by metis
  have new: "j \<noteq> i" if "(j, r) \<in> set gone" for j r
    using gone [OF that] d(2) by (metis map_of_SomeD fst_conv image_eqI)
  have "map_of (queue_all rc q2 (not_due now all1)) = map_of (queue_all rc (q1 @ q2) (not_due now all))"
    unfolding queue_all_append nd
    by (rule queue_all_cong [OF not_due_queue_all [OF assms(6) d(1) assms(5,4)]])
  moreover have "i \<notin> fst ` set gone" using new by force
  moreover have "(j, r) \<in> set ((i, rot) # gone) \<or> (\<exists>x \<in> set (q1 @ q2). fst (snd x) = j)"
    if "map_of all j = Some r" "pr_deadline r \<le> now" for j r
  proof (cases "j = i \<or> (\<exists>x \<in> set q1. fst (snd x) = j)")
    case True
    with that old show ?thesis by auto
  next
    case False
    then have "map_of all1 j = Some r" using that(1) old queue_all_other assms(4) by metis
    with L that(2) have "(j, r) \<in> set gone \<or> (\<exists>x \<in> set q2. fst (snd x) = j)" by blast
    then show ?thesis by auto
  qed
  ultimately show ?thesis
    using L gone new old assms(3) unfolding loop_done_def by simp
qed

lemma due_loop_done:
  assumes "due_loop rc now gaps c s = Some (gone, pend', s')" "table_ok now c" "late_calls rc now gaps"
  shows "loop_done rc now (intents_during (length gone) gaps) (cu_all c) s gone pend' s'"
  using assms
proof (induction rc now gaps c s arbitrary: gone pend' s' rule: due_loop.induct)
  case (1 rc now gaps c s)
  show ?case
  proof (cases "cu_todo c")
    case Nil
    then have r: "gone = []" "pend' = cu_passed c" "s' = s" "cu_all c = cu_passed c"
      using "1.prems"(1) by (simp_all add: due_loop_nil cu_all_def)
    have late: "\<forall>(i, r) \<in> set (cu_passed c). now < pr_deadline r" using "1.prems"(2) by (simp add: table_ok_def)
    then have "not_due now (cu_passed c) = cu_passed c" by (auto simp: not_due_def intro!: filter_True)
    with r late show ?thesis by (auto simp: loop_done_def intents_during_def dest!: map_of_SomeD)
  next
    case (Cons e rest)
    obtain i rot where e: "e = (i, rot)" by fastforce
    note step = due_loop.simps [of rc now gaps c s, unfolded Cons e, simplified]
    have all: "cu_all c = cu_passed c @ (i, rot) # rest" using Cons e by (simp add: cu_all_def)
    show ?thesis
    proof (cases "pr_deadline rot \<le> now")
      case True
      from step True "1.prems"(1) obtain c1 gone1 where
        c1: "gap_queues rc (first_gap gaps) (c\<lparr>cu_todo := rest\<rparr>) = Some c1"
        and rec: "due_loop rc now (drop 1 gaps) c1 (Dispatch rc i rot s) = Some (gone1, pend', s')"
        and gone: "gone = (i, rot) # gone1"
        by (auto split: option.splits)
      have ok: "table_ok now (c\<lparr>cu_todo := rest\<rparr>)" using "1.prems"(2) all by (auto simp: table_ok_def cu_all_def)
      have late: "\<forall>(x, n) \<in> set (first_gap gaps). now < fst x + rc_grace rc" "late_calls rc now (drop 1 gaps)"
        using "1.prems"(3) by (cases gaps; simp add: late_calls_def first_gap_def)+
      note g = gap_queues_effect [OF c1 ok late(1)]
      have "loop_done rc now (intents_during (length gone1) (drop 1 gaps)) (cu_all c1) (Dispatch rc i rot s) gone1 pend' s'"
        by (rule "1.IH"(1) [OF Cons [unfolded e] refl True c1 rec]) (use g late(2) in simp_all)
      moreover have "distinct (map fst (cu_all c))" "distinct (map fst (cu_all c1))"
        using "1.prems"(2) g by (simp_all add: table_ok_def)
      moreover have "map_of (cu_all c1) = map_of (queue_all rc (map fst (first_gap gaps)) (cu_passed c @ rest))"
        using g by (simp add: cu_all_def)
      moreover have "\<forall>x \<in> set (map fst (first_gap gaps)). now < fst x + rc_grace rc" using late(1) by auto
      ultimately show ?thesis
        unfolding gone using loop_done_step [OF all _ True] by (simp add: intents_during_Suc)
    next
      case False
      let ?c = "c\<lparr>cu_passed := cu_passed c @ [(i, rot)], cu_todo := rest\<rparr>"
      have same: "cu_all ?c = cu_all c" using all by (simp add: cu_all_def)
      have "table_ok now ?c" using "1.prems"(2) False same by (auto simp: table_ok_def)
      from "1.IH"(2) [OF Cons [unfolded e] refl False _ this "1.prems"(3)] step False "1.prems"(1) same show ?thesis by simp
    qed
  qed
qed

text \<open>
  C38: The gap in the due loop loses no rotation: if the loop runs to its end, with \<open>Queue\<close> calls in
  every gap, the table is what the calls would have made of it after the loop; the dispatched
  entries were due and are dispatched once each; and every due entry was dispatched unless a call
  replaced it first, in which case the new intent is pending.
\<close>

theorem due_loop_loses_nothing:
  assumes "due_loop rc now gaps (table n pend) s = Some (gone, pend', s')" "distinct (map fst pend)"
    and "late_calls rc now gaps"
  shows "map_of pend' = map_of (queue_all rc (intents_during (length gone) gaps) (fst (dispatch_due rc now pend s))) \<and>
    s' = fold (\<lambda>(i, rot). Dispatch rc i rot) gone s \<and> distinct (map fst gone) \<and>
    (\<forall>(i, rot) \<in> set gone. map_of pend i = Some rot \<and> pr_deadline rot \<le> now) \<and>
    (\<forall>(i, rot) \<in> set pend. pr_deadline rot \<le> now \<longrightarrow>
       (i, rot) \<in> set gone \<or> (\<exists>x \<in> set (intents_during (length gone) gaps). fst (snd x) = i))"
proof -
  have c: "table_ok now (table n pend)" "cu_all (table n pend) = pend"
    using assms(2) by (simp_all add: table_ok_def cu_all_def table_def)
  note L = due_loop_done [OF assms(1) c(1) assms(3), unfolded c(2) loop_done_def]
  have "\<forall>(i, rot) \<in> set gone. map_of pend i = Some rot \<and> pr_deadline rot \<le> now" using L by blast
  moreover have "\<forall>(i, rot) \<in> set pend. pr_deadline rot \<le> now \<longrightarrow>
      (i, rot) \<in> set gone \<or> (\<exists>x \<in> set (intents_during (length gone) gaps). fst (snd x) = i)"
    using L map_of_is_SomeI [OF assms(2)] by blast
  ultimately show ?thesis using L by (simp add: dispatch_due_rest not_due_def)
qed

text \<open>Imports 1 and 2 are due; while 1 is dispatched, clients rotate 2 again, and 3.\<close>

definition gap_cfg :: rot_cfg where
  "gap_cfg = rot_config default_config"

definition gap_pend :: pendings where
  "gap_pend = [(1, rot_of gap_cfg (0, 1, ''/out/1.dng'', 6, [])), (2, rot_of gap_cfg (0, 2, ''/out/2.dng'', 3, []))]"

definition gap_demo :: "gap_call list list" where
  "gap_demo = [[((2000, 2, ''/out/2.dng'', 8, []), 0), ((2000, 3, ''/out/3.dng'', 6, []), 0)]]"

theorem due_loop_loses_nothing_witness:
  "\<exists>gone pend' s'. due_loop gap_cfg 2000 gap_demo (table 8 gap_pend) (rot_demo two_imports (\<lambda>_. 0)) = Some (gone, pend', s') \<and>
     map_of pend' 2 = Some (rot_of gap_cfg (2000, 2, ''/out/2.dng'', 8, [])) \<and> map_of pend' 1 = None"
proof -
  let ?s = "rot_demo two_imports (\<lambda>_. 0)"
  have grace: "rc_grace gap_cfg = 2000" by (simp add: gap_cfg_def rot_config_def default_config_def)
  obtain gone pend' s' where r: "due_loop gap_cfg 2000 gap_demo (table 8 gap_pend) ?s = Some (gone, pend', s')" "length gone = 1"
    by (simp add: due_loop.simps table_def gap_pend_def gap_demo_def first_gap_def gap_queue_def rot_of_def grace
        insert_at_def cu_all_def Let_def)
  have "distinct (map fst gap_pend)" "late_calls gap_cfg 2000 gap_demo"
    by (simp_all add: gap_pend_def late_calls_def gap_demo_def grace)
  from due_loop_loses_nothing [OF r(1) this] r show ?thesis
    by (simp add: queue_all_last intents_during_def gap_demo_def dispatch_due_rest gap_pend_def rot_of_def grace
        Queue_def)
qed

text \<open>
  The iterator can dangle: a call that makes the table grow while an entry is dispatched leaves the
  loop with an iterator the standard declares invalid.
\<close>

theorem due_loop_can_dangle:
  "due_loop gap_cfg 2000 [[((2000, 3, ''/out/3.dng'', 6, []), 0), ((2000, 4, ''/out/4.dng'', 6, []), 0)]]
     (table 2 gap_pend) (rot_demo two_imports (\<lambda>_. 0)) = None"
  by (simp add: due_loop.simps table_def gap_pend_def first_gap_def gap_queue_def rot_of_def
      insert_at_def cu_all_def Let_def gap_cfg_def rot_config_def default_config_def)

end
